(* ===== verification/Prelude.thy ===== *)
theory Prelude
  imports Main "HOL-Library.Word" "HOL-Library.Monad_Syntax"
begin

text \<open>
  Shared ground of the NetChan development: the fixed-width integers of the C code, the
  byte order conversions of \<^verbatim>\<open><endian.h>\<close> and \<^verbatim>\<open><arpa/inet.h>\<close> on a little-endian host, the
  error numbers, the C string functions the sources call, and the generic facts on lists,
  options and words that the component theories use.

  Conventions of the whole development.  A C function that may dereference a null or
  dangling pointer, or may block for ever, returns an \<open>option\<close>: \<open>None\<close> stands for
  every outcome in which the call does not return normally.  The C type \<^verbatim>\<open>int\<close> (file
  descriptors, return codes, priorities) is \<open>int\<close>; the sized unsigned types are words,
  so that their wrap-around is the wrap-around of the code.
\<close>

unbundle bit_operations_syntax

named_theorems nc_bytes \<open>length and round-trip facts of byte encodings\<close>
named_theorems nc_consts \<open>numeric constants of the headers\<close>

section \<open>Machine integers and error numbers\<close>

type_synonym u8 = "8 word"
type_synonym u16 = "16 word"
type_synonym u32 = "32 word"
type_synonym u64 = "64 word"
type_synonym bytes = "8 word list"

text \<open>An object address; a pointer that may be \<^verbatim>\<open>NULL\<close> is an \<open>addr option\<close>.\<close>

type_synonym addr = nat

definition ENOMEM :: int where "ENOMEM = 12"
definition EINVAL :: int where "EINVAL = 22"
definition EBADFD :: int where "EBADFD = 77"
definition ETIMEDOUT :: int where "ETIMEDOUT = 110"

lemmas errno_defs [nc_consts] = ENOMEM_def EINVAL_def EBADFD_def ETIMEDOUT_def

section \<open>Byte order\<close>

text \<open>
  The bytes of a word in memory order of a little-endian host, and the word read back from
  them.
\<close>

fun le_bytes :: "nat \<Rightarrow> 'a::len word \<Rightarrow> bytes" where
  "le_bytes 0 w = []"
| "le_bytes (Suc n) w = ucast w # le_bytes n (drop_bit 8 w)"

fun of_le :: "bytes \<Rightarrow> 'a::len word" where
  "of_le [] = 0"
| "of_le (b # bs) = ucast b OR push_bit 8 (of_le bs)"

lemma length_le_bytes [simp, nc_bytes]: "length (le_bytes n w) = n"
  by (induction n arbitrary: w) auto

lemma of_le_le_bytes_take: "of_le (le_bytes n w) = take_bit (8 * n) w"
proof (induction n arbitrary: w)
  case (Suc n)
  show ?case
    by (rule bit_word_eqI)
      (auto simp: Suc bit_simps not_less not_le)
qed simp

lemma of_le_le_bytes [nc_bytes]:
  fixes w :: "'a::len word"
  shows "LENGTH('a) \<le> 8 * n \<Longrightarrow> of_le (le_bytes n w) = w"
  by (simp add: of_le_le_bytes_take take_bit_word_eq_self)

lemma bit_of_le_bound: "bit (of_le bs :: 'a::len word) n \<Longrightarrow> n < 8 * length bs"
proof (induction bs arbitrary: n)
  case (Cons b bs)
  from Cons.prems show ?case
    by (cases "n < 8") (auto simp: bit_simps dest!: Cons.IH dest: bit_imp_le_length)
qed simp

lemma take_bit_of_le:
  "8 * length bs \<le> m \<Longrightarrow> take_bit m (of_le bs :: 'a::len word) = of_le bs"
  by (rule bit_word_eqI) (auto simp: bit_simps dest: bit_of_le_bound)

lemma le_bytes_of_le [nc_bytes]:
  "8 * length bs \<le> LENGTH('a) \<Longrightarrow> le_bytes (length bs) (of_le bs :: 'a::len word) = bs"
proof (induction bs)
  case (Cons b bs)
  have lo: "(ucast (ucast b OR push_bit 8 (of_le bs) :: 'a word) :: u8) = b"
    using Cons.prems by (intro bit_word_eqI) (auto simp: bit_simps)
  have hi: "drop_bit 8 (ucast b OR push_bit 8 (of_le bs) :: 'a word)
      = take_bit (LENGTH('a) - 8) (of_le bs)"
    by (rule bit_word_eqI) (auto simp: bit_simps dest: bit_imp_le_length)
  from Cons.prems have "take_bit (LENGTH('a) - 8) (of_le bs) = (of_le bs :: 'a word)"
    by (intro take_bit_of_le) simp
  with Cons lo hi show ?case by simp
qed simp

lemma le_bytes_of_le_len:
  "length bs = n \<Longrightarrow> 8 * n \<le> LENGTH('a) \<Longrightarrow> le_bytes n (of_le bs :: 'a::len word) = bs"
  using le_bytes_of_le by blast

lemma of_le_le_bytes_u16 [simp]: "of_le (le_bytes 2 x) = (x :: u16)"
  and of_le_le_bytes_u32 [simp]: "of_le (le_bytes 4 y) = (y :: u32)"
  and of_le_le_bytes_u64 [simp]: "of_le (le_bytes 8 z) = (z :: u64)"
  by (simp_all add: of_le_le_bytes)

text \<open>
  Host to network order and back.  On a little-endian host both directions reverse the
  bytes; each direction is its own function here as in the C library.
\<close>

definition htobe64 :: "u64 \<Rightarrow> u64" where "htobe64 x = of_le (rev (le_bytes 8 x))"
definition be64toh :: "u64 \<Rightarrow> u64" where "be64toh x = of_le (rev (le_bytes 8 x))"
definition htonl :: "u32 \<Rightarrow> u32" where "htonl x = of_le (rev (le_bytes 4 x))"
definition ntohl :: "u32 \<Rightarrow> u32" where "ntohl x = of_le (rev (le_bytes 4 x))"
definition htons :: "u16 \<Rightarrow> u16" where "htons x = of_le (rev (le_bytes 2 x))"
definition ntohs :: "u16 \<Rightarrow> u16" where "ntohs x = of_le (rev (le_bytes 2 x))"

lemmas byte_order_defs = htobe64_def be64toh_def htonl_def ntohl_def htons_def ntohs_def

lemma be64toh_htobe64 [simp]: "be64toh (htobe64 x) = x"
  by (simp add: byte_order_defs le_bytes_of_le_len)

lemma htobe64_be64toh [simp]: "htobe64 (be64toh x) = x"
  by (simp add: byte_order_defs le_bytes_of_le_len)

lemma ntohl_htonl [simp]: "ntohl (htonl x) = x"
  by (simp add: byte_order_defs le_bytes_of_le_len)

lemma htonl_ntohl [simp]: "htonl (ntohl x) = x"
  by (simp add: byte_order_defs le_bytes_of_le_len)

lemma ntohs_htons [simp]: "ntohs (htons x) = x"
  by (simp add: byte_order_defs le_bytes_of_le_len)

lemma htons_ntohs [simp]: "htons (ntohs x) = x"
  by (simp add: byte_order_defs le_bytes_of_le_len)

text \<open>In memory a converted value lies most significant byte first.\<close>

lemma le_bytes_htobe64: "le_bytes 8 (htobe64 x) = rev (le_bytes 8 x)"
  by (simp add: htobe64_def le_bytes_of_le_len)

lemma htobe64_eq_0_iff [simp]: "htobe64 x = 0 \<longleftrightarrow> x = 0"
proof
  assume "htobe64 x = 0"
  then have "be64toh (htobe64 x) = be64toh 0" by simp
  moreover have "be64toh 0 = 0" by (simp add: be64toh_def eval_nat_numeral)
  ultimately show "x = 0" by simp
qed (simp add: htobe64_def eval_nat_numeral)

section \<open>C strings\<close>

text \<open>
  A C string is the list of its characters without the terminator.  \<open>strncmp_eq\<close> is the
  test \<^verbatim>\<open>strncmp(a, b, n) == 0\<close>; \<open>strncpy\<close> into a zeroed array one byte larger than \<open>n\<close>
  leaves the first \<open>n\<close> characters.
\<close>

definition strncmp_eq :: "string \<Rightarrow> string \<Rightarrow> nat \<Rightarrow> bool" where
  "strncmp_eq a b n \<longleftrightarrow> take n a = take n b"

definition strncpy :: "string \<Rightarrow> nat \<Rightarrow> string" where
  "strncpy s n = take n s"

lemma strncmp_eq_refl [simp]: "strncmp_eq a a n"
  by (simp add: strncmp_eq_def)

lemma strncmp_eq_iff:
  "length a \<le> n \<Longrightarrow> length b \<le> n \<Longrightarrow> strncmp_eq a b n \<longleftrightarrow> a = b"
  by (simp add: strncmp_eq_def)

section \<open>Lists and options\<close>

text \<open>Overwriting the first bytes of a buffer, as \<^verbatim>\<open>recvmsg\<close> and \<^verbatim>\<open>memcpy\<close> do.\<close>

definition overwrite :: "'a list \<Rightarrow> 'a list \<Rightarrow> 'a list" where
  "overwrite buf xs = xs @ drop (length xs) buf"

lemma length_overwrite [simp]: "length xs \<le> length buf \<Longrightarrow> length (overwrite buf xs) = length buf"
  by (simp add: overwrite_def)

lemma take_overwrite [simp]: "n \<le> length xs \<Longrightarrow> take n (overwrite buf xs) = take n xs"
  by (simp add: overwrite_def)

lemma drop_take_overwrite:
  "n + m \<le> length xs \<Longrightarrow> take m (drop n (overwrite buf xs)) = take m (drop n xs)"
  by (simp add: overwrite_def)

text \<open>Pulling a value out of a pointer: the null and the dangling pointer both fault.\<close>

definition deref :: "(addr \<Rightarrow> 'a option) \<Rightarrow> addr option \<Rightarrow> 'a option" where
  "deref h p = Option.bind p h"

lemma deref_simps [simp]:
  "deref h None = None"
  "deref h (Some a) = h a"
  by (simp_all add: deref_def)

lemma bind_Some_iff:
  "Option.bind x f = Some y \<longleftrightarrow> (\<exists>a. x = Some a \<and> f a = Some y)"
  by (cases x) auto

end
