(* ===== verification/Timeutil.thy ===== *)
theory Timeutil
  imports Prelude
begin

text \<open>
  Time arithmetic: the inline helpers of \<^verbatim>\<open>include/netchan_utils.h\<close> on
  \<^verbatim>\<open>struct timespec\<close> and the clock readers of \<^verbatim>\<open>src/ptp_getclock.c\<close>.  The locale
  \<open>ns_clock\<close> states what the rest of the library relies on: a value in nanoseconds that
  addition and subtraction move exactly.
\<close>

section \<open>Constants and timespec\<close>

definition NS_IN_US :: int where "NS_IN_US = 1000"
definition NS_IN_MS :: int where "NS_IN_MS = 1000 * NS_IN_US"
definition NS_IN_SEC :: int where "NS_IN_SEC = 1000 * NS_IN_MS"
definition NS_IN_HOUR :: int where "NS_IN_HOUR = 3600 * NS_IN_SEC"

lemma NS_values [simp, nc_consts]:
  "NS_IN_US = 1000" "NS_IN_MS = 1000000" "NS_IN_SEC = 1000000000" "NS_IN_HOUR = 3600000000000"
  by (simp_all add: NS_IN_US_def NS_IN_MS_def NS_IN_SEC_def NS_IN_HOUR_def)

record timespec =
  tv_sec :: int
  tv_nsec :: int

text \<open>Conversion of a 64-bit result back to \<^verbatim>\<open>long\<close>, and of a \<^verbatim>\<open>long\<close> to \<^verbatim>\<open>uint64_t\<close>.\<close>

definition to_long :: "int \<Rightarrow> int" where
  "to_long x = sint (word_of_int x :: u64)"

lemma to_long_id: "- 9223372036854775808 \<le> x \<Longrightarrow> x < 9223372036854775808 \<Longrightarrow> to_long x = x"
  by (simp add: to_long_def sint_sbintrunc' signed_take_bit_int_eq_self)

section \<open>The inline helpers\<close>

function ts_normalize_loop :: "timespec \<Rightarrow> timespec" where
  "ts_normalize_loop ts =
     (if tv_nsec ts \<ge> NS_IN_SEC
      then ts_normalize_loop (ts\<lparr>tv_nsec := tv_nsec ts - NS_IN_SEC, tv_sec := tv_sec ts + 1\<rparr>)
      else ts)"
  by pat_completeness auto
termination
  by (relation "measure (\<lambda>ts. nat (tv_nsec ts))") auto

declare ts_normalize_loop.simps [simp del]

definition ts_normalize :: "timespec option \<Rightarrow> timespec option" where
  "ts_normalize ts = map_option ts_normalize_loop ts"

definition ts_subtract_ns :: "timespec option \<Rightarrow> u64 \<Rightarrow> timespec option" where
  "ts_subtract_ns tsp sub =
     map_option (\<lambda>ts.
       let ts' = (if sub > word_of_int (tv_nsec ts)
                  then ts\<lparr>tv_sec := tv_sec ts - 1, tv_nsec := tv_nsec ts + NS_IN_SEC\<rparr>
                  else ts)
       in ts'\<lparr>tv_nsec := to_long (tv_nsec ts' - uint sub)\<rparr>) tsp"

definition ts_add_ns :: "timespec option \<Rightarrow> u64 \<Rightarrow> timespec option" where
  "ts_add_ns tsp add =
     map_option (\<lambda>ts. ts_normalize_loop (ts\<lparr>tv_nsec := to_long (tv_nsec ts + uint add)\<rparr>)) tsp"

section \<open>The clocks\<close>

text \<open>
  \<^verbatim>\<open>clock_gettime\<close> is the operating system's: a reader takes the value it returns (or its
  failure) as an argument.
\<close>

definition ts_u64 :: "timespec \<Rightarrow> u64" where
  "ts_u64 ts = word_of_int (tv_sec ts * NS_IN_SEC + tv_nsec ts)"

definition get_clockid :: "int \<Rightarrow> u32" where
  "get_clockid fd = push_bit 3 (NOT (word_of_int fd)) OR 3"

definition get_ptp_ts_ns :: "(u32 \<Rightarrow> timespec option) \<Rightarrow> int \<Rightarrow> u64" where
  "get_ptp_ts_ns clock_gettime ptp_fd =
     (if ptp_fd < 0 then 0
      else case clock_gettime (get_clockid ptp_fd) of None \<Rightarrow> 0 | Some ts \<Rightarrow> ts_u64 ts)"

definition tai_to_avtp_ns :: "u64 \<Rightarrow> u32" where
  "tai_to_avtp_ns tai_ns = ucast (tai_ns AND 0xffffffff)"

definition tai_get_ns :: "timespec \<Rightarrow> u64" where
  "tai_get_ns ts_tai = ts_u64 ts_tai"

definition real_get_ns :: "timespec \<Rightarrow> u64" where
  "real_get_ns ts_real = ts_u64 ts_real"

section \<open>Facts\<close>

text \<open>The value of a timespec in nanoseconds, and the normal form.\<close>

definition ts_ns :: "timespec \<Rightarrow> int" where
  "ts_ns ts = tv_sec ts * NS_IN_SEC + tv_nsec ts"

definition ts_normal :: "timespec \<Rightarrow> bool" where
  "ts_normal ts \<longleftrightarrow> 0 \<le> tv_nsec ts \<and> tv_nsec ts < NS_IN_SEC"

lemma ts_normalize_loop_ns [simp]: "ts_ns (ts_normalize_loop ts) = ts_ns ts"
  by (induction ts rule: ts_normalize_loop.induct)
    (subst ts_normalize_loop.simps, auto simp: ts_ns_def algebra_simps)

lemma ts_normalize_loop_normal: "0 \<le> tv_nsec ts \<Longrightarrow> ts_normal (ts_normalize_loop ts)"
  by (induction ts rule: ts_normalize_loop.induct)
    (subst ts_normalize_loop.simps, auto simp: ts_normal_def)

lemma ts_normal_unique:
  assumes "ts_normal a" "ts_normal b" "ts_ns a = ts_ns b"
  shows "a = b"
proof -
  have split: "tv_sec t = ts_ns t div NS_IN_SEC \<and> tv_nsec t = ts_ns t mod NS_IN_SEC"
    if "ts_normal t" for t
    using that by (simp add: ts_normal_def ts_ns_def)
  from split [OF assms(1)] split [OF assms(2)] assms(3)
  have "tv_sec a = tv_sec b \<and> tv_nsec a = tv_nsec b" by simp
  then show ?thesis by simp
qed

lemma ts_normalize_loop_divmod:
  assumes "0 \<le> tv_nsec ts"
  shows "ts_normalize_loop ts =
    ts\<lparr>tv_sec := tv_sec ts + tv_nsec ts div NS_IN_SEC, tv_nsec := tv_nsec ts mod NS_IN_SEC\<rparr>"
    (is "_ = ?r")
proof (rule ts_normal_unique)
  show "ts_normal (ts_normalize_loop ts)" by (rule ts_normalize_loop_normal [OF assms])
  show "ts_normal ?r" by (simp add: ts_normal_def)
  have "ts_ns ts = ts_ns ?r"
    by (simp add: ts_ns_def algebra_simps)
  then show "ts_ns (ts_normalize_loop ts) = ts_ns ?r"
    by simp
qed

lemma ts_add_ns_Some:
  assumes "ts_normal ts" and "uint add < 4611686018427387904"
  shows "\<exists>ts'. ts_add_ns (Some ts) add = Some ts' \<and> ts_normal ts' \<and> ts_ns ts' = ts_ns ts + uint add"
proof -
  let ?s = "ts\<lparr>tv_nsec := to_long (tv_nsec ts + uint add)\<rparr>"
  have "to_long (tv_nsec ts + uint add) = tv_nsec ts + uint add"
    using assms uint_ge_0 [of add] unfolding ts_normal_def NS_values
    by (intro to_long_id) linarith+
  then have "0 \<le> tv_nsec ?s" and "ts_ns ?s = ts_ns ts + uint add"
    using assms by (auto simp: ts_normal_def ts_ns_def)
  then show ?thesis
    by (simp add: ts_add_ns_def ts_normalize_loop_normal)
qed

lemma ts_subtract_ns_Some:
  assumes "ts_normal ts" and "uint sub \<le> NS_IN_SEC"
  shows "\<exists>ts'. ts_subtract_ns (Some ts) sub = Some ts' \<and> ts_normal ts' \<and> ts_ns ts' = ts_ns ts - uint sub"
proof -
  have "sub > word_of_int (tv_nsec ts) \<longleftrightarrow> uint sub > tv_nsec ts"
    using assms by (simp add: word_less_def ts_normal_def uint_word_of_int)
  moreover have "to_long (tv_nsec ts - uint sub) = tv_nsec ts - uint sub"
    and "to_long (tv_nsec ts + NS_IN_SEC - uint sub) = tv_nsec ts + NS_IN_SEC - uint sub"
    using assms uint_ge_0 [of sub] unfolding ts_normal_def NS_values
    by (intro to_long_id; linarith)+
  moreover have "tv_nsec ts < NS_IN_SEC \<Longrightarrow> tv_nsec ts - uint sub < NS_IN_SEC"
    using uint_ge_0 [of sub] by linarith
  ultimately show ?thesis
    using assms by (auto simp: ts_subtract_ns_def ts_normal_def ts_ns_def Let_def)
qed

section \<open>The interface\<close>

text \<open>
  What the timers and the transmit slots rely on: within the ranges \<open>add_ok\<close> and
  \<open>sub_ok\<close>, moving a normal time moves its value by exactly that many nanoseconds and
  keeps it normal.
\<close>

locale ns_clock =
  fixes normal :: "'t \<Rightarrow> bool"
    and ns :: "'t \<Rightarrow> int"
    and add :: "'t \<Rightarrow> int \<Rightarrow> 't"
    and sub :: "'t \<Rightarrow> int \<Rightarrow> 't"
    and add_ok :: "int \<Rightarrow> bool"
    and sub_ok :: "int \<Rightarrow> bool"
  assumes normal_add: "normal t \<Longrightarrow> add_ok d \<Longrightarrow> normal (add t d)"
    and ns_add: "normal t \<Longrightarrow> add_ok d \<Longrightarrow> ns (add t d) = ns t + d"
    and normal_sub: "normal t \<Longrightarrow> sub_ok d \<Longrightarrow> normal (sub t d)"
    and ns_sub: "normal t \<Longrightarrow> sub_ok d \<Longrightarrow> ns (sub t d) = ns t - d"
    and ns_inject: "normal t \<Longrightarrow> normal u \<Longrightarrow> ns t = ns u \<Longrightarrow> t = u"
begin

lemma add_sub: "normal t \<Longrightarrow> sub_ok d \<Longrightarrow> add_ok d \<Longrightarrow> add (sub t d) d = t"
  by (rule ns_inject) (simp_all add: normal_add normal_sub ns_add ns_sub)

lemma sub_add: "normal t \<Longrightarrow> sub_ok d \<Longrightarrow> add_ok d \<Longrightarrow> sub (add t d) d = t"
  by (rule ns_inject) (simp_all add: normal_add normal_sub ns_add ns_sub)

lemma iterate_normal: "normal t \<Longrightarrow> add_ok d \<Longrightarrow> normal (((\<lambda>t. add t d) ^^ n) t)"
  by (induction n) (simp_all add: normal_add)

lemma iterate_exact:
  "normal t \<Longrightarrow> add_ok d \<Longrightarrow> ns (((\<lambda>t. add t d) ^^ n) t) = ns t + int n * d"
  by (induction n) (simp_all add: ns_add iterate_normal algebra_simps)

end

definition ts_add :: "timespec \<Rightarrow> int \<Rightarrow> timespec" where
  "ts_add ts d = the (ts_add_ns (Some ts) (word_of_int d))"

definition ts_sub :: "timespec \<Rightarrow> int \<Rightarrow> timespec" where
  "ts_sub ts d = the (ts_subtract_ns (Some ts) (word_of_int d))"

interpretation ts: ns_clock ts_normal ts_ns ts_add ts_sub
  "\<lambda>d. 0 \<le> d \<and> d < 2 ^ 62" "\<lambda>d. 0 \<le> d \<and> d \<le> NS_IN_SEC"
proof unfold_locales
  fix t :: timespec and d :: int
  assume t: "ts_normal t"
  {
    assume "0 \<le> d \<and> d < 2 ^ 62"
    then have "uint (word_of_int d :: u64) = d"
      by (simp add: uint_word_of_int)
    with ts_add_ns_Some [OF t, of "word_of_int d"] \<open>0 \<le> d \<and> d < 2 ^ 62\<close>
    show "ts_normal (ts_add t d)" and "ts_ns (ts_add t d) = ts_ns t + d"
      by (auto simp: ts_add_def)
  }
  {
    assume "0 \<le> d \<and> d \<le> NS_IN_SEC"
    then have "uint (word_of_int d :: u64) = d"
      by (simp add: uint_word_of_int)
    with ts_subtract_ns_Some [OF t, of "word_of_int d"] \<open>0 \<le> d \<and> d \<le> NS_IN_SEC\<close>
    show "ts_normal (ts_sub t d)" and "ts_ns (ts_sub t d) = ts_ns t - d"
      by (auto simp: ts_sub_def)
  }
next
  fix t u :: timespec
  assume "ts_normal t" "ts_normal u" "ts_ns t = ts_ns u"
  then show "t = u" by (rule ts_normal_unique)
qed

lemma tai_to_avtp_ns_ucast: "tai_to_avtp_ns x = ucast x"
proof -
  have "(0xffffffff :: u64) = mask 32" by (simp add: mask_eq_exp_minus_1)
  then have "tai_to_avtp_ns x = ucast (x AND mask 32)" by (simp only: tai_to_avtp_ns_def)
  then show ?thesis
    by (intro bit_word_eqI) (simp add: bit_simps)
qed

lemma unat_tai_to_avtp_ns: "unat (tai_to_avtp_ns x) = unat x mod 2 ^ 32"
  by (simp add: tai_to_avtp_ns_ucast unsigned_ucast_eq take_bit_eq_mod)

lemma ts_add_ns_ts_add: "ts_add_ns (Some t) d = Some (ts_add t (uint d))"
  by (simp add: ts_add_def ts_add_ns_def)

lemma ts_subtract_ns_ts_sub: "ts_subtract_ns (Some t) d = Some (ts_sub t (uint d))"
  by (simp add: ts_sub_def ts_subtract_ns_def)

lemma uint_ts_u64:
  assumes "0 \<le> ts_ns ts" "ts_ns ts < 2 ^ 64"
  shows "uint (ts_u64 ts) = ts_ns ts"
  unfolding ts_u64_def ts_ns_def [symmetric] using assms by (simp add: uint_word_of_int)

section \<open>Properties\<close>

text \<open>Adding and then subtracting the same span of up to one second, in either order, gives
  back the time one started from.\<close>

lemma ts_add_subtract_roundtrip:
  assumes "ts_normal ts" and "uint d \<le> NS_IN_SEC"
  shows "ts_subtract_ns (ts_add_ns (Some ts) d) d = Some ts
    \<and> ts_add_ns (ts_subtract_ns (Some ts) d) d = Some ts"
  using assms ts.add_sub [of ts "uint d"] ts.sub_add [of ts "uint d"]
  by (simp add: ts_add_ns_ts_add ts_subtract_ns_ts_sub)

text \<open>Subtraction is exact in nanoseconds for every span below \<open>2 ^ 62\<close> ns, but it borrows at
  most one second: the result is a valid (normal) timespec exactly when the span does not exceed
  the nanosecond field plus one second.\<close>

lemma ts_subtract_ns_exact:
  assumes "ts_normal ts" and "uint sub < 2 ^ 62"
  shows "\<exists>ts'. ts_subtract_ns (Some ts) sub = Some ts' \<and> ts_ns ts' = ts_ns ts - uint sub
    \<and> (ts_normal ts' \<longleftrightarrow> uint sub \<le> tv_nsec ts + NS_IN_SEC)"
proof -
  have cmp: "sub > word_of_int (tv_nsec ts) \<longleftrightarrow> uint sub > tv_nsec ts"
    using assms by (simp add: word_less_def ts_normal_def uint_word_of_int)
  have "to_long (tv_nsec ts - uint sub) = tv_nsec ts - uint sub"
    and "to_long (tv_nsec ts + NS_IN_SEC - uint sub) = tv_nsec ts + NS_IN_SEC - uint sub"
    using assms uint_ge_0 [of sub] unfolding ts_normal_def NS_values
    by (intro to_long_id; simp; linarith)+
  with cmp have "ts_subtract_ns (Some ts) sub = Some (if uint sub > tv_nsec ts
      then ts\<lparr>tv_sec := tv_sec ts - 1, tv_nsec := tv_nsec ts + NS_IN_SEC - uint sub\<rparr>
      else ts\<lparr>tv_nsec := tv_nsec ts - uint sub\<rparr>)"
    by (simp add: ts_subtract_ns_def Let_def)
  moreover have "tv_nsec ts - uint sub < NS_IN_SEC" "0 \<le> tv_nsec ts" "0 \<le> tv_nsec ts + NS_IN_SEC"
    using assms(1) uint_ge_0 [of sub] unfolding ts_normal_def NS_values by linarith+
  ultimately show ?thesis
    using assms(1) by (auto simp: ts_normal_def ts_ns_def)
qed

end
