(* ===== verification/Manifest.thy ===== *)
theory Manifest
  imports Timeutil
begin

text \<open>
  The manifest: the stream classes and channel attributes of \<^verbatim>\<open>include/netchan.h\<close>, the
  lookup of a channel by name, and the admission tests of \<^verbatim>\<open>src/netchan.c\<close> that decide
  whether a channel may be created on a link.  A static C function \<^verbatim>\<open>_f\<close> is \<open>i_f\<close> here.
\<close>

section \<open>Stream classes and attributes\<close>

text \<open>
  The enumerators are the latency bounds in nanoseconds.  C does not keep other integers
  out of an enum object (a zeroed \<open>channel_attrs\<close> has class 0), hence the last constructor.
\<close>

datatype stream_class = SC_TAS | SC_CLASS_A | SC_CLASS_B | SC_undeclared u32

fun sc_value :: "stream_class \<Rightarrow> u64" where
  "sc_value SC_TAS = 100 * word_of_int NS_IN_US"
| "sc_value SC_CLASS_A = 2 * word_of_int NS_IN_MS"
| "sc_value SC_CLASS_B = 50 * word_of_int NS_IN_MS"
| "sc_value (SC_undeclared n) = ucast n"

record channel_attrs =
  a_dst :: bytes
  a_stream_id :: u64
  a_sc :: stream_class
  a_size :: u16
  a_interval_ns :: u64
  a_name :: string

section \<open>Lookup by name\<close>

text \<open>
  The loop reads \<open>attrs[i]\<close> for every \<open>i < arr_size\<close> until a name matches; an
  \<open>arr_size\<close> beyond the array is a read out of bounds (\<open>None\<close>).
\<close>

function nc_get_chan_idx_from :: "nat \<Rightarrow> string \<Rightarrow> channel_attrs list \<Rightarrow> int \<Rightarrow> int option" where
  "nc_get_chan_idx_from i name attrs arr_size =
     (if int i < arr_size
      then if i < length attrs
           then if strncmp_eq name (a_name (attrs ! i)) 32 then Some (int i)
                else nc_get_chan_idx_from (Suc i) name attrs arr_size
           else None
      else Some (-1))"
  by pat_completeness auto
termination
  by (relation "measure (\<lambda>(i, _, _, arr_size). nat arr_size - i)") auto

declare nc_get_chan_idx_from.simps [simp del]

definition nc_get_chan_idx :: "string \<Rightarrow> channel_attrs list \<Rightarrow> int \<Rightarrow> int option" where
  "nc_get_chan_idx name attrs arr_size = nc_get_chan_idx_from 0 name attrs arr_size"

text \<open>
  \<open>nc_get_chan\<close> returns a heap copy of the entry, \<open>nc_get_chan_ref\<close> the entry itself
  (its index).  \<open>malloc_ok\<close> is whether the allocation of the copy succeeds; the inner
  \<open>option\<close> is the returned pointer.
\<close>

definition nc_get_chan ::
  "bool \<Rightarrow> string option \<Rightarrow> channel_attrs list option \<Rightarrow> int \<Rightarrow> channel_attrs option option" where
  "nc_get_chan malloc_ok name attrs sz =
     (case (name, attrs) of
        (Some n, Some as) \<Rightarrow>
          if sz < 1 then Some None
          else do {
            idx \<leftarrow> nc_get_chan_idx n as sz;
            if idx = -1 then Some None
            else if \<not> malloc_ok then Some None
            else Some (Some (as ! nat idx))
          }
      | _ \<Rightarrow> Some None)"

definition nc_get_chan_ref ::
  "string option \<Rightarrow> channel_attrs list option \<Rightarrow> int \<Rightarrow> nat option option" where
  "nc_get_chan_ref name attrs sz =
     (case (name, attrs) of
        (Some n, Some as) \<Rightarrow>
          if sz < 1 then Some None
          else do {
            idx \<leftarrow> nc_get_chan_idx n as sz;
            if idx = -1 then Some None else Some (Some (nat idx))
          }
      | _ \<Rightarrow> Some None)"

section \<open>Admission tests\<close>

definition sizeof_avtpdu_cshdr :: nat where "sizeof_avtpdu_cshdr = 24"
definition sizeof_ethhdr :: nat where "sizeof_ethhdr = 14"

text \<open>
  The C code computes \<^verbatim>\<open>min_sz * 1e9 / link_speed\<close> in \<^verbatim>\<open>double\<close>.  The products are
  below \<open>2 ^ 53\<close>, hence exact, and the relative rounding error \<open>2 ^ -53\<close> of the quotient is
  smaller than the distance \<open>1 / link_speed\<close> of a non-integral quotient from an integer,
  so the truncation to \<^verbatim>\<open>int\<close> is integer division and the comparison of the second quotient
  with the integral \<open>interval_ns\<close> is the exact one.  A zero link speed (an infinite
  quotient) and a quotient beyond \<^verbatim>\<open>INT_MAX\<close> make the conversion to \<^verbatim>\<open>int\<close> undefined.
\<close>

definition min_sz :: int where
  "min_sz = 8 * (int sizeof_avtpdu_cshdr + 22 + 12 + 7 + 1)"

definition i_valid_interval :: "u32 \<Rightarrow> u64 \<Rightarrow> u16 \<Rightarrow> bool option" where
  "i_valid_interval link_speed interval_ns sz =
     (let tx_sz = min_sz + uint sz * 8;
          ns_to_tx = min_sz * 1000000000 div uint link_speed
      in if link_speed = 0 \<or> ns_to_tx \<ge> 2 ^ 31 then None
         else if uint interval_ns \<le> ns_to_tx then Some False
         else if uint interval_ns \<ge> NS_IN_HOUR then Some False
         else if tx_sz * 1000000000 > uint interval_ns * uint link_speed then Some False
         else Some True)"

definition i_valid_size :: "u16 \<Rightarrow> bool" where
  "i_valid_size sz = (if sz = 0 then False else \<not> (uint sz + 24 + 22 > 1522))"

text \<open>Bytes on the wire of a frame with that payload: \<^verbatim>\<open>L1_SZ\<close>, Ethernet header, VLAN tag,
  AVTP header and payload.\<close>

definition L1_SZ :: nat where "L1_SZ = 7 + 1 + 4 + 12"

definition full_size_of :: "u16 \<Rightarrow> u16" where
  "full_size_of payload_size =
     of_nat L1_SZ + of_nat sizeof_ethhdr + 4 + of_nat sizeof_avtpdu_cshdr + payload_size"

lemmas frame_consts [nc_consts] =
  min_sz_def sizeof_avtpdu_cshdr_def sizeof_ethhdr_def L1_SZ_def

section \<open>Facts\<close>

text \<open>The lookup loop against its specification: the first matching index.\<close>

lemma nc_get_chan_idx_from_spec:
  assumes "arr_size = int (length attrs)" and "i \<le> length attrs"
  shows "nc_get_chan_idx_from i name attrs arr_size =
    Some (case find (\<lambda>k. strncmp_eq name (a_name (attrs ! k)) 32) [i..<length attrs] of
            None \<Rightarrow> -1 | Some k \<Rightarrow> int k)"
  using assms
proof (induction i name attrs arr_size rule: nc_get_chan_idx_from.induct)
  case (1 i name attrs arr_size)
  show ?case
  proof (cases "i < length attrs")
    case True
    with "1" show ?thesis
      by (subst nc_get_chan_idx_from.simps) (auto simp: upt_conv_Cons)
  next
    case False
    with "1.prems" show ?thesis
      by (subst nc_get_chan_idx_from.simps) simp
  qed
qed

lemma nc_get_chan_idx_find:
  "nc_get_chan_idx name attrs (int (length attrs)) =
    Some (case find (\<lambda>k. strncmp_eq name (a_name (attrs ! k)) 32) [0..<length attrs] of
            None \<Rightarrow> -1 | Some k \<Rightarrow> int k)"
  unfolding nc_get_chan_idx_def by (rule nc_get_chan_idx_from_spec) simp_all

lemma nc_get_chan_idx_total:
  "\<exists>r. nc_get_chan_idx name attrs (int (length attrs)) = Some r \<and> -1 \<le> r \<and> r < int (length attrs)"
  by (auto simp: nc_get_chan_idx_find find_Some_iff split: option.splits)

text \<open>Admission bounds.\<close>

lemma i_valid_size_iff: "i_valid_size sz \<longleftrightarrow> 1 \<le> uint sz \<and> uint sz \<le> 1476"
proof -
  have "sz = 0 \<longleftrightarrow> uint sz = 0" by (simp add: unsigned_eq_0_iff)
  moreover have "0 \<le> uint sz" by simp
  ultimately show ?thesis unfolding i_valid_size_def by (simp, linarith)
qed

lemma i_valid_interval_True:
  "i_valid_interval ls iv sz = Some True \<longleftrightarrow>
     ls \<noteq> 0 \<and> 528 * 1000000000 div uint ls < 2 ^ 31
     \<and> 528 * 1000000000 div uint ls < uint iv \<and> uint iv < NS_IN_HOUR
     \<and> (528 + uint sz * 8) * 1000000000 \<le> uint iv * uint ls"
  by (auto simp: i_valid_interval_def Let_def nc_consts)

lemma uint_full_size_of:
  "i_valid_size sz \<Longrightarrow> uint (full_size_of sz) = 66 + uint sz"
  unfolding i_valid_size_iff full_size_of_def frame_consts
  by (simp add: uint_word_ariths)

lemma find_map: "find P (map f xs) = map_option f (find (P \<circ> f) xs)"
  by (induction xs) auto

lemma find_map_upt: "find P as = map_option ((!) as) (find (\<lambda>k. P (as ! k)) [0..<length as])"
  using find_map [of P "(!) as" "[0..<length as]"] by (simp add: map_nth comp_def)

section \<open>Properties\<close>

text \<open>C24: Looking up a channel of a manifest returns the first entry whose name agrees with the
  given one in its first 32 characters, or a null pointer when there is none; the copying and the
  referring lookup agree.\<close>

theorem nc_get_chan_first_match:
  "nc_get_chan True (Some name) (Some as) (int (length as))
     = Some (find (\<lambda>a. strncmp_eq name (a_name a) 32) as)
   \<and> map_option (map_option ((!) as)) (nc_get_chan_ref (Some name) (Some as) (int (length as)))
     = nc_get_chan True (Some name) (Some as) (int (length as))"
  by (cases "as = []")
    (auto simp: nc_get_chan_def nc_get_chan_ref_def nc_get_chan_idx_find find_map_upt [of _ as]
      split: option.splits)

end
