(* ===== verification/Pdu.thy ===== *)
theory Pdu
  imports Manifest
begin

text \<open>
  The data that crosses a boundary as bytes: the AVTP common header
  (\<^verbatim>\<open>struct avtpdu_cshdr\<close>, packed, 24 bytes, on the wire) and the metadata header of the
  internal pipe (\<^verbatim>\<open>struct pipe_meta\<close>, packed, 20 bytes).  The locale \<open>fixed_codec\<close> states
  what every reader relies on; both structs are instances.
\<close>

section \<open>Fixed-width encodings\<close>

locale fixed_codec =
  fixes width :: nat
    and enc :: "'a \<Rightarrow> bytes"
    and dec :: "bytes \<Rightarrow> 'a"
  assumes length_enc: "length (enc x) = width"
    and dec_enc: "dec (enc x @ rest) = x"
    and enc_dec: "length bs = width \<Longrightarrow> enc (dec (bs @ rest)) = bs"
begin

lemma enc_inject: "enc x = enc y \<longleftrightarrow> x = y"
  by (metis dec_enc)

lemma enc_dec_split:
  assumes "width \<le> length bs"
  shows "enc (dec bs) @ drop width bs = bs"
proof -
  from assms have "length (take width bs) = width" by simp
  then have "enc (dec (take width bs @ drop width bs)) = take width bs" by (rule enc_dec)
  then show ?thesis by simp
qed

text \<open>A sequence of records, each with \<open>k\<close> bytes of payload, read back one at a time.\<close>

primrec unframe :: "nat \<Rightarrow> nat \<Rightarrow> bytes \<Rightarrow> ('a \<times> bytes) list" where
  "unframe k 0 bs = []"
| "unframe k (Suc n) bs =
     (dec bs, take k (drop width bs)) # unframe k n (drop (width + k) bs)"

lemma unframe_concat:
  "\<forall>(x, p) \<in> set xs. length p = k \<Longrightarrow>
    unframe k (length xs) (concat (map (\<lambda>(x, p). enc x @ p) xs) @ rest) = xs"
  by (induction xs) (auto simp: length_enc dec_enc)

end

section \<open>The AVTP common header\<close>

text \<open>
  Field values are those the C expression reads: \<open>p_stream_id\<close>, \<open>p_avtp_timestamp\<close> and
  \<open>p_sdl\<close> hold network order.  The code never encodes or decodes the header: it sends the memory of the packed struct
  and casts the received bytes to it.  \<open>pdu_bytes\<close> is that memory, in the order of the declaration and with the little-endian
  integers of the platform, and \<open>pdu_of_bytes\<close> is the cast.
\<close>

definition AVTP_SUBTYPE_NETCHAN :: u8 where "AVTP_SUBTYPE_NETCHAN = 0x7F"

record avtpdu_cshdr =
  p_subtype :: u8
  p_tv :: "1 word"
  p_fsd :: "2 word"
  p_mr :: "1 word"
  p_version :: "3 word"
  p_sv :: "1 word"
  p_seqnr :: u8
  p_tu :: "1 word"
  p_fsd_1 :: "7 word"
  p_stream_id :: u64
  p_avtp_timestamp :: u32
  p_fsd_2 :: u32
  p_sdl :: u16
  p_fsd_3 :: u16

text \<open>Bit-fields are allocated from the least significant bit of their byte.\<close>

definition pdu_flags :: "avtpdu_cshdr \<Rightarrow> u8" where
  "pdu_flags p = ucast (p_tv p) OR push_bit 1 (ucast (p_fsd p)) OR push_bit 3 (ucast (p_mr p))
     OR push_bit 4 (ucast (p_version p)) OR push_bit 7 (ucast (p_sv p))"

definition pdu_flags_1 :: "avtpdu_cshdr \<Rightarrow> u8" where
  "pdu_flags_1 p = ucast (p_tu p) OR push_bit 1 (ucast (p_fsd_1 p))"

definition pdu_bytes :: "avtpdu_cshdr \<Rightarrow> bytes" where
  "pdu_bytes p =
     [p_subtype p, pdu_flags p, p_seqnr p, pdu_flags_1 p]
     @ le_bytes 8 (p_stream_id p) @ le_bytes 4 (p_avtp_timestamp p) @ le_bytes 4 (p_fsd_2 p)
     @ le_bytes 2 (p_sdl p) @ le_bytes 2 (p_fsd_3 p)"

definition pdu_of_bytes :: "bytes \<Rightarrow> avtpdu_cshdr" where
  "pdu_of_bytes bs =
     \<lparr>p_subtype = bs ! 0,
      p_tv = ucast (bs ! 1), p_fsd = ucast (drop_bit 1 (bs ! 1)),
      p_mr = ucast (drop_bit 3 (bs ! 1)), p_version = ucast (drop_bit 4 (bs ! 1)),
      p_sv = ucast (drop_bit 7 (bs ! 1)),
      p_seqnr = bs ! 2,
      p_tu = ucast (bs ! 3), p_fsd_1 = ucast (drop_bit 1 (bs ! 3)),
      p_stream_id = of_le (take 8 (drop 4 bs)),
      p_avtp_timestamp = of_le (take 4 (drop 12 bs)),
      p_fsd_2 = of_le (take 4 (drop 16 bs)),
      p_sdl = of_le (take 2 (drop 20 bs)),
      p_fsd_3 = of_le (take 2 (drop 22 bs))\<rparr>"

lemma length_pdu_bytes [simp, nc_bytes]: "length (pdu_bytes p) = 24"
  by (simp add: pdu_bytes_def)

lemma pdu_flags_fields:
  "ucast (pdu_flags p) = p_tv p"
  "ucast (drop_bit 1 (pdu_flags p)) = p_fsd p"
  "ucast (drop_bit 3 (pdu_flags p)) = p_mr p"
  "ucast (drop_bit 4 (pdu_flags p)) = p_version p"
  "ucast (drop_bit 7 (pdu_flags p)) = p_sv p"
  by (rule bit_word_eqI; auto simp: pdu_flags_def bit_simps simp del: push_bit_Suc drop_bit_Suc One_nat_def
      dest: bit_imp_le_length)+

lemma pdu_flags_1_fields:
  "ucast (pdu_flags_1 p) = p_tu p"
  "ucast (drop_bit 1 (pdu_flags_1 p)) = p_fsd_1 p"
  by (rule bit_word_eqI; auto simp: pdu_flags_1_def bit_simps simp del: push_bit_Suc drop_bit_Suc One_nat_def
      dest: bit_imp_le_length)+

lemma pdu_of_bytes_pdu_bytes: "pdu_of_bytes (pdu_bytes p @ rest) = p"
  by (simp add: pdu_of_bytes_def pdu_bytes_def pdu_flags_fields [simplified]
      pdu_flags_1_fields [simplified])

lemma pdu_flags_of_bytes: "pdu_flags (pdu_of_bytes bs) = bs ! 1"
proof (rule bit_word_eqI)
  fix n assume "n < LENGTH(8)"
  then consider "n = 0" | "n = 1" | "n = 2" | "n = 3" | "n = 4" | "n = 5" | "n = 6" | "n = 7"
    by (simp, linarith)
  then show "bit (pdu_flags (pdu_of_bytes bs)) n = bit (bs ! 1) n"
    by cases (simp_all add: pdu_flags_def pdu_of_bytes_def bit_simps
        del: push_bit_Suc drop_bit_Suc One_nat_def)
qed

lemma pdu_flags_1_of_bytes: "pdu_flags_1 (pdu_of_bytes bs) = bs ! 3"
proof (rule bit_word_eqI)
  fix n assume "n < LENGTH(8)"
  then show "bit (pdu_flags_1 (pdu_of_bytes bs)) n = bit (bs ! 3) n"
    by (cases "n = 0") (auto simp: pdu_flags_1_def pdu_of_bytes_def bit_simps
        simp del: push_bit_Suc drop_bit_Suc One_nat_def)
qed

lemma take_split: "take n xs = take m xs @ take (n - m) (drop m xs)" if "m \<le> n" for n m :: nat
  using that by (metis le_add_diff_inverse take_add)

lemma pdu_bytes_of_bytes:
  assumes "24 \<le> length bs"
  shows "pdu_bytes (pdu_of_bytes bs) = take 24 bs"
proof -
  have "take 4 bs = [bs ! 0, bs ! 1, bs ! 2, bs ! 3]"
    using assms by (intro nth_equalityI) (auto simp: less_Suc_eq nth_Cons' eval_nat_numeral)
  then have "pdu_bytes (pdu_of_bytes bs) =
    take 4 bs @ take 8 (drop 4 bs) @ take 4 (drop 12 bs) @ take 4 (drop 16 bs)
    @ take 2 (drop 20 bs) @ take 2 (drop 22 bs)"
    using assms
    by (simp add: pdu_bytes_def pdu_flags_of_bytes pdu_flags_1_of_bytes)
      (simp add: pdu_of_bytes_def le_bytes_of_le_len)
  also have "\<dots> = take 24 bs"
    by (simp add: take_split [of 4 24 bs] take_split [of 8 20 "drop 4 bs"]
        take_split [of 4 12 "drop 12 bs"] take_split [of 4 8 "drop 16 bs"]
        take_split [of 2 4 "drop 20 bs"])
  finally show ?thesis .
qed

interpretation pdu_codec: fixed_codec sizeof_avtpdu_cshdr pdu_bytes pdu_of_bytes
proof unfold_locales
  fix bs rest :: bytes
  assume "length bs = sizeof_avtpdu_cshdr"
  then show "pdu_bytes (pdu_of_bytes (bs @ rest)) = bs"
    by (simp add: sizeof_avtpdu_cshdr_def pdu_bytes_of_bytes)
qed (simp_all add: sizeof_avtpdu_cshdr_def pdu_of_bytes_pdu_bytes)

section \<open>The pipe metadata\<close>

record pipe_meta =
  m_ts_rx_ns :: u64
  m_ts_recv_ptp_ns :: u64
  m_avtp_timestamp :: u32

definition sizeof_pipe_meta :: nat where "sizeof_pipe_meta = 20"

definition meta_bytes :: "pipe_meta \<Rightarrow> bytes" where
  "meta_bytes m = le_bytes 8 (m_ts_rx_ns m) @ le_bytes 8 (m_ts_recv_ptp_ns m)
     @ le_bytes 4 (m_avtp_timestamp m)"

definition meta_of_bytes :: "bytes \<Rightarrow> pipe_meta" where
  "meta_of_bytes bs =
     \<lparr>m_ts_rx_ns = of_le (take 8 bs), m_ts_recv_ptp_ns = of_le (take 8 (drop 8 bs)),
      m_avtp_timestamp = of_le (take 4 (drop 16 bs))\<rparr>"

lemma length_meta_bytes [simp, nc_bytes]: "length (meta_bytes m) = 20"
  by (simp add: meta_bytes_def)

interpretation meta_codec: fixed_codec sizeof_pipe_meta meta_bytes meta_of_bytes
proof unfold_locales
  fix x rest show "meta_of_bytes (meta_bytes x @ rest) = x"
    by (simp add: meta_of_bytes_def meta_bytes_def)
next
  fix bs rest :: bytes
  assume len: "length bs = sizeof_pipe_meta"
  then have "meta_bytes (meta_of_bytes (bs @ rest)) =
    take 8 bs @ take 8 (drop 8 bs) @ take 4 (drop 16 bs)"
    by (simp add: sizeof_pipe_meta_def meta_bytes_def meta_of_bytes_def le_bytes_of_le_len)
  also have "\<dots> = take 20 bs"
    by (simp add: take_split [of 8 20 bs] take_split [of 8 12 "drop 8 bs"])
  finally show "meta_bytes (meta_of_bytes (bs @ rest)) = bs"
    using len by (simp add: sizeof_pipe_meta_def)
qed (simp add: sizeof_pipe_meta_def)

text \<open>Network order on the wire: the bytes of a converted field are those of the value, most significant first.\<close>

lemma network_order_bytes [nc_bytes]:
  "le_bytes 8 (htobe64 x) = rev (le_bytes 8 x)" "le_bytes 4 (htonl y) = rev (le_bytes 4 y)" "le_bytes 2 (htons z) = rev (le_bytes 2 z)"
  by (simp_all add: byte_order_defs le_bytes_of_le_len)

end
