(* ===== verification/Cprintf.thy ===== *)
theory Cprintf
  imports Prelude
begin

text \<open>
  The conversions of \<^verbatim>\<open>printf\<close> that the sources use: \<open>dec\<close> and \<open>dec_int\<close> for
  \<^verbatim>\<open>%u\<close>, \<^verbatim>\<open>%lu\<close> and \<^verbatim>\<open>%d\<close>, and \<open>hexn\<close> for \<^verbatim>\<open>%0nx\<close> and \<^verbatim>\<open>%0nX\<close>, with the functions that read
  the digits back.
\<close>

section \<open>Decimal\<close>

fun dec :: "nat \<Rightarrow> string" where
  "dec n = (if n < 10 then [char_of (48 + n)] else dec (n div 10) @ [char_of (48 + n mod 10)])"

declare dec.simps [simp del]

definition dec_int :: "int \<Rightarrow> string" where
  "dec_int i = (if i < 0 then CHR ''-'' # dec (nat (- i)) else dec (nat i))"

definition undec :: "string \<Rightarrow> nat" where
  "undec s = foldl (\<lambda>a c. 10 * a + (of_char c - 48)) 0 s"

lemma undec_snoc: "undec (s @ [c]) = 10 * undec s + (of_char c - 48)"
  by (simp add: undec_def)

lemma undec_dec [simp]: "undec (dec n) = n"
proof (induction n rule: dec.induct)
  case (1 n)
  show ?case
  proof (cases "n < 10")
    case True
    then show ?thesis by (subst dec.simps) (simp add: undec_def)
  next
    case False
    with 1 show ?thesis by (subst dec.simps) (simp add: undec_snoc)
  qed
qed

lemma dec_inject [simp]: "dec m = dec n \<longleftrightarrow> m = n"
  by (metis undec_dec)

lemma dec_digits: "c \<in> set (dec n) \<Longrightarrow> of_char c \<in> {48..57::nat}"
proof (induction n rule: dec.induct)
  case (1 n)
  show ?case
  proof (cases "n < 10")
    case True
    with "1.prems" show ?thesis by (subst (asm) dec.simps) simp
  next
    case False
    with "1.prems" have "c \<in> set (dec (n div 10)) \<or> c = char_of (48 + n mod 10)"
      by (subst (asm) dec.simps) auto
    with False "1.IH" show ?thesis by auto
  qed
qed

lemma length_dec_le: "n < 10 ^ k \<Longrightarrow> 0 < k \<Longrightarrow> length (dec n) \<le> k"
proof (induction k arbitrary: n)
  case (Suc k)
  show ?case
  proof (cases "n < 10")
    case True
    then show ?thesis by (subst dec.simps) simp
  next
    case False
    with Suc.prems have "0 < k" by (cases k) auto
    moreover from Suc.prems have "n div 10 < 10 ^ k" by (simp add: less_mult_imp_div_less mult.commute)
    ultimately have "length (dec (n div 10)) \<le> k" by (rule Suc.IH [rotated])
    with False show ?thesis by (subst dec.simps) simp
  qed
qed simp

section \<open>Hexadecimal\<close>

definition hex_digit :: "bool \<Rightarrow> nat \<Rightarrow> char" where
  "hex_digit upper d = (if d < 10 then char_of (48 + d) else char_of ((if upper then 55 else 87) + d))"

fun hex :: "bool \<Rightarrow> nat \<Rightarrow> string" where
  "hex upper n =
     (if n < 16 then [hex_digit upper n] else hex upper (n div 16) @ [hex_digit upper (n mod 16)])"

declare hex.simps [simp del]

definition hexn :: "bool \<Rightarrow> nat \<Rightarrow> nat \<Rightarrow> string" where
  "hexn upper w n = replicate (w - length (hex upper n)) CHR ''0'' @ hex upper n"

definition unhex_digit :: "char \<Rightarrow> nat option" where
  "unhex_digit c =
     (let n = of_char c :: nat
      in if 48 \<le> n \<and> n \<le> 57 then Some (n - 48)
         else if 65 \<le> n \<and> n \<le> 70 then Some (n - 55)
         else if 97 \<le> n \<and> n \<le> 102 then Some (n - 87)
         else None)"

lemma unhex_hex_digit [simp]: "d < 16 \<Longrightarrow> unhex_digit (hex_digit upper d) = Some d"
  by (auto simp: unhex_digit_def hex_digit_def Let_def)

text \<open>One byte is two digits.\<close>

lemma hexn_2_byte:
  "n < 256 \<Longrightarrow> hexn upper 2 n = [hex_digit upper (n div 16), hex_digit upper (n mod 16)]"
proof -
  assume n: "n < 256"
  have h0: "hex_digit upper 0 = CHR ''0''"
    by code_simp
  show ?thesis
  proof (cases "n < 16")
    case True
    then show ?thesis by (simp add: hexn_def hex.simps [of upper n] h0)
  next
    case False
    with n have "n div 16 < 16" by simp
    with False show ?thesis
      by (simp add: hexn_def hex.simps [of upper n] hex.simps [of upper "n div 16"])
  qed
qed

text \<open>Digits end where a separator begins, so a printed number can be cut off a line.\<close>

lemma dec_no_sep: "of_char c \<notin> {48..57::nat} \<Longrightarrow> c \<notin> set (dec n)"
  using dec_digits by blast

lemma dec_sep_inject:
  assumes "of_char c \<notin> {48..57::nat}" and "dec m @ c # xs = dec n @ c # ys"
  shows "m = n \<and> xs = ys"
proof -
  have "takeWhile (\<lambda>d. d \<noteq> c) (dec k @ c # zs) = dec k" for k zs
    using dec_no_sep [OF assms(1), of k] by (subst takeWhile_append2) auto
  with assms(2) have "dec m = dec n" by metis
  with assms(2) show ?thesis by simp
qed

end
