(* ===== verification/Logger.thy ===== *)
theory Logger
  imports Pdu Cprintf
begin

text \<open>
  The data logger of \<^verbatim>\<open>src/logger.c\<close>: two fixed buffers (frame timestamps and wakeup
  delays) under one mutex, flushed to CSV files.  \<open>None\<close> is a call that does not return:
  a lock of the mutex the caller already holds, or a store through a missing buffer.
  Files are an explicit list of (name, text) pairs in the order they are written.  The number of the rotation, an \<^verbatim>\<open>int\<close> in the code,
  does not overflow here; it would after \<open>2 ^ 31\<close> rotations.
\<close>

section \<open>State\<close>

definition BSZ :: nat where "BSZ = 50 * 3600 * 6"

record log_entry =
  le_sid :: u64
  le_sz :: u16
  le_seqnr :: u8
  le_avtp_ns :: u64
  le_cap_ptp_ns :: u64
  le_send_ptp_ns :: u64
  le_tx_ns :: u64
  le_rx_ns :: u64
  le_recv_ptp_ns :: u64

record delay_entry =
  de_ptp_target_ns :: u64
  de_cpu_target_ns :: u64
  de_cpu_actual_ns :: u64

text \<open>The parallel arrays of the C structs, indexed together.\<close>

record log_buffer =
  lb_idx :: nat
  lb_ent :: "nat \<Rightarrow> log_entry"

record wakeup_delay_buffer =
  wdb_idx :: nat
  wdb_ent :: "nat \<Rightarrow> delay_entry"

record logc =
  lc_m :: bool
  lc_logfile :: "string option"
  lc_flush_ctr :: int
  lc_lb :: "log_buffer option"
  lc_wdb :: "wakeup_delay_buffer option"

type_synonym files = "(string \<times> string) list"

definition zero_entry :: log_entry where
  "zero_entry = \<lparr>le_sid = 0, le_sz = 0, le_seqnr = 0, le_avtp_ns = 0, le_cap_ptp_ns = 0,
     le_send_ptp_ns = 0, le_tx_ns = 0, le_rx_ns = 0, le_recv_ptp_ns = 0\<rparr>"

definition zero_delay :: delay_entry where
  "zero_delay = \<lparr>de_ptp_target_ns = 0, de_cpu_target_ns = 0, de_cpu_actual_ns = 0\<rparr>"

section \<open>The mutex\<close>

definition mutex_lock :: "logc \<Rightarrow> logc option" where
  "mutex_lock l = (if lc_m l then None else Some (l\<lparr>lc_m := True\<rparr>))"

definition mutex_unlock :: "logc \<Rightarrow> logc" where
  "mutex_unlock l = l\<lparr>lc_m := False\<rparr>"

section \<open>Creation and destruction\<close>

definition i_log_create_wakeup_delay_buffer :: "bool \<Rightarrow> logc option \<Rightarrow> int \<times> logc option" where
  "i_log_create_wakeup_delay_buffer malloc_ok logc =
     (case logc of
        None \<Rightarrow> (- EINVAL, None)
      | Some l \<Rightarrow>
          if \<not> malloc_ok then (- ENOMEM, Some l)
          else (0, Some (l\<lparr>lc_wdb := Some \<lparr>wdb_idx = 0, wdb_ent = (\<lambda>_. zero_delay)\<rparr>\<rparr>)))"

definition i_log_create_ts :: "bool \<Rightarrow> logc option \<Rightarrow> int \<times> logc option" where
  "i_log_create_ts malloc_ok logc =
     (case logc of
        None \<Rightarrow> (- EINVAL, None)
      | Some l \<Rightarrow>
          if \<not> malloc_ok then (- ENOMEM, Some l)
          else (0, Some (l\<lparr>lc_lb := Some \<lparr>lb_idx = 0, lb_ent = (\<lambda>_. zero_entry)\<rparr>\<rparr>)))"

text \<open>Destruction frees everything; the pointer is gone (\<open>None\<close>) for a null argument too.\<close>

definition log_destroy :: "logc option \<Rightarrow> logc option" where
  "log_destroy logc = None"

text \<open>
  \<open>allocs\<close> are the answers of the four allocations: container, file name, timestamp
  buffer, delay buffer.
\<close>

record log_allocs =
  al_logc :: bool
  al_name :: bool
  al_ts :: bool
  al_wdb :: bool

definition log_create :: "log_allocs \<Rightarrow> string option \<Rightarrow> logc option" where
  "log_create allocs logfile =
     (case logfile of
        None \<Rightarrow> None
      | Some f \<Rightarrow>
          if length f = 0 then None
          else if \<not> al_logc allocs then None
          else
            let l = \<lparr>lc_m = True, lc_logfile = None, lc_flush_ctr = 0, lc_lb = None, lc_wdb = None\<rparr>
            in if \<not> al_name allocs then log_destroy (Some l)
               else
                 let l1 = l\<lparr>lc_logfile := Some f\<rparr>;
                     (r1, l2) = i_log_create_ts (al_ts allocs) (Some l1)
                 in if r1 \<noteq> 0 then log_destroy l2
                    else let (r2, l3) = i_log_create_wakeup_delay_buffer (al_wdb allocs) l2
                         in if r2 \<noteq> 0 then log_destroy l3
                            else map_option mutex_unlock l3)"

section \<open>Reset and flush\<close>

definition i_log_reset :: "logc \<Rightarrow> logc" where
  "i_log_reset l =
     l\<lparr>lc_lb := map_option (\<lambda>b. b\<lparr>lb_idx := 0\<rparr>) (lc_lb l),
       lc_wdb := map_option (\<lambda>b. b\<lparr>wdb_idx := 0\<rparr>) (lc_wdb l)\<rparr>"

definition log_reset :: "logc option \<Rightarrow> logc option option" where
  "log_reset logc =
     (case logc of
        None \<Rightarrow> Some None
      | Some l \<Rightarrow> do { l \<leftarrow> mutex_lock l; Some (Some (mutex_unlock (i_log_reset l))) })"

definition lu :: "'a::len word \<Rightarrow> string" where
  "lu x = dec (unat x)"

definition ts_row :: "log_entry \<Rightarrow> string" where
  "ts_row e = lu (le_sid e) @ '','' @ lu (le_sz e) @ '','' @ lu (le_seqnr e) @ '',''
     @ lu (le_avtp_ns e) @ '','' @ lu (le_cap_ptp_ns e) @ '','' @ lu (le_send_ptp_ns e) @ '',''
     @ lu (le_tx_ns e) @ '','' @ lu (le_rx_ns e) @ '','' @ lu (le_recv_ptp_ns e) @ [CHR 0x0A]"

definition delay_row :: "delay_entry \<Rightarrow> string" where
  "delay_row e = lu (de_ptp_target_ns e) @ '','' @ lu (de_cpu_target_ns e) @ '',''
     @ lu (de_cpu_actual_ns e) @ [CHR 0x0A]"

definition ts_header :: string where
  "ts_header = ''stream_id,sz,seqnr,avtp_ns,cap_ptp_ns,send_ptp_ns,tx_ns,rx_ns,recv_ptp_ns'' @ [CHR 0x0A]"

definition delay_header :: string where
  "delay_header = ''ptp_target,cpu_target,cpu_actual'' @ [CHR 0x0A]"

text \<open>What a buffer holds: its first \<open>idx\<close> entries.\<close>

definition lb_entries :: "log_buffer \<Rightarrow> log_entry list" where
  "lb_entries b = map (lb_ent b) [0..<lb_idx b]"

definition wdb_entries :: "wakeup_delay_buffer \<Rightarrow> delay_entry list" where
  "wdb_entries b = map (wdb_ent b) [0..<wdb_idx b]"

text \<open>\<open>fopen_ok\<close> says which names can be opened for writing.\<close>

definition i_flush_ts :: "(string \<Rightarrow> bool) \<Rightarrow> string \<Rightarrow> log_buffer option \<Rightarrow> files \<Rightarrow> files" where
  "i_flush_ts fopen_ok logfile lb fs =
     (case lb of
        None \<Rightarrow> fs
      | Some b \<Rightarrow>
          if lb_idx b = 0 then fs
          else if fopen_ok logfile
               then fs @ [(logfile, ts_header @ concat (map ts_row (lb_entries b)))]
               else fs)"

definition i_flush_wakeup_delay ::
  "(string \<Rightarrow> bool) \<Rightarrow> string \<Rightarrow> wakeup_delay_buffer option \<Rightarrow> files \<Rightarrow> files" where
  "i_flush_wakeup_delay fopen_ok logfile wdb fs =
     (case wdb of
        None \<Rightarrow> fs
      | Some b \<Rightarrow>
          if wdb_idx b = 0 then fs
          else if fopen_ok logfile
               then fs @ [(logfile, delay_header @ concat (map delay_row (wdb_entries b)))]
               else fs)"

text \<open>\<^verbatim>\<open>snprintf(buf, 255, ...)\<close> keeps at most 254 characters; a null name prints as \<^verbatim>\<open>(null)\<close>.\<close>

definition logname :: "logc \<Rightarrow> string" where
  "logname l = (case lc_logfile l of None \<Rightarrow> ''(null)'' | Some f \<Rightarrow> f)"

definition ts_filename :: "logc \<Rightarrow> string" where
  "ts_filename l = take 254 (logname l @ ''-'' @ dec_int (lc_flush_ctr l))"

definition delay_filename :: "logc \<Rightarrow> string" where
  "delay_filename l = take 254 (logname l @ ''_d-'' @ dec_int (lc_flush_ctr l))"

definition log_flush_and_rotate ::
  "(string \<Rightarrow> bool) \<Rightarrow> logc option \<Rightarrow> files \<Rightarrow> (logc option \<times> files) option" where
  "log_flush_and_rotate fopen_ok logc fs =
     (case logc of
        None \<Rightarrow> Some (None, fs)
      | Some l \<Rightarrow> do {
          l \<leftarrow> mutex_lock l;
          let fs = (if lc_lb l \<noteq> None then i_flush_ts fopen_ok (ts_filename l) (lc_lb l) fs else fs);
          let fs = (if lc_wdb l \<noteq> None
                    then i_flush_wakeup_delay fopen_ok (delay_filename l) (lc_wdb l) fs else fs);
          let l = l\<lparr>lc_flush_ctr := lc_flush_ctr l + 1\<rparr>;
          Some (Some (mutex_unlock (i_log_reset l)), fs)
        })"

section \<open>Logging\<close>

definition i_log ::
  "(string \<Rightarrow> bool) \<Rightarrow> logc \<Rightarrow> avtpdu_cshdr \<Rightarrow> u64 \<Rightarrow> u64 \<Rightarrow> u64 \<Rightarrow> u64 \<Rightarrow> u64 \<Rightarrow> files
    \<Rightarrow> (logc option \<times> files) option" where
  "i_log fopen_ok logc du cap_ts_ns send_ptp_ns tx_ns rx_ns recv_ptp_ns fs = do {
     l \<leftarrow> mutex_lock logc;
     b \<leftarrow> lc_lb l;
     (lo, fs) \<leftarrow>
       (if lb_idx b < BSZ
        then
          let e = \<lparr>le_sid = be64toh (p_stream_id du), le_sz = ntohs (p_sdl du),
                   le_seqnr = p_seqnr du, le_avtp_ns = ucast (ntohl (p_avtp_timestamp du)),
                   le_cap_ptp_ns = cap_ts_ns, le_send_ptp_ns = send_ptp_ns, le_tx_ns = tx_ns,
                   le_rx_ns = rx_ns, le_recv_ptp_ns = recv_ptp_ns\<rparr>
          in Some (Some (l\<lparr>lc_lb := Some (b\<lparr>lb_ent := (lb_ent b)(lb_idx b := e),
                                            lb_idx := lb_idx b + 1\<rparr>)\<rparr>), fs)
        else log_flush_and_rotate fopen_ok (Some l) fs);
     Some (map_option mutex_unlock lo, fs)
   }"

definition log_tx ::
  "(string \<Rightarrow> bool) \<Rightarrow> logc option \<Rightarrow> avtpdu_cshdr option \<Rightarrow> u64 \<Rightarrow> u64 \<Rightarrow> u64 \<Rightarrow> files
    \<Rightarrow> (logc option \<times> files) option" where
  "log_tx fopen_ok logc du cap_ts_ns send_ptp_ns tx_ns fs =
     (case (logc, du) of
        (Some l, Some d) \<Rightarrow> i_log fopen_ok l d cap_ts_ns send_ptp_ns tx_ns 0 0 fs
      | _ \<Rightarrow> Some (logc, fs))"

definition log_rx ::
  "(string \<Rightarrow> bool) \<Rightarrow> logc option \<Rightarrow> avtpdu_cshdr option \<Rightarrow> u64 \<Rightarrow> u64 \<Rightarrow> files
    \<Rightarrow> (logc option \<times> files) option" where
  "log_rx fopen_ok logc du rx_ns recv_ptp_ns fs =
     (case (logc, du) of
        (Some l, Some d) \<Rightarrow> i_log fopen_ok l d 0 0 0 rx_ns recv_ptp_ns fs
      | _ \<Rightarrow> Some (logc, fs))"

definition log_wakeup_delay ::
  "(string \<Rightarrow> bool) \<Rightarrow> logc option \<Rightarrow> u64 \<Rightarrow> u64 \<Rightarrow> u64 \<Rightarrow> files
    \<Rightarrow> (logc option \<times> files) option" where
  "log_wakeup_delay fopen_ok logc ptp_target_ns cpu_target_ns cpu_actual_ns fs =
     (case logc of
        None \<Rightarrow> Some (None, fs)
      | Some l \<Rightarrow> do {
          l \<leftarrow> mutex_lock l;
          b \<leftarrow> lc_wdb l;
          (lo, fs) \<leftarrow>
            (if wdb_idx b < BSZ
             then
               let e = \<lparr>de_ptp_target_ns = ptp_target_ns, de_cpu_target_ns = cpu_target_ns,
                        de_cpu_actual_ns = cpu_actual_ns\<rparr>
               in Some (Some (l\<lparr>lc_wdb := Some (b\<lparr>wdb_ent := (wdb_ent b)(wdb_idx b := e),
                                                   wdb_idx := wdb_idx b + 1\<rparr>)\<rparr>), fs)
             else log_flush_and_rotate fopen_ok (Some l) fs);
          Some (map_option mutex_unlock lo, fs)
        })"

section \<open>The contract of a bounded buffer\<close>

text \<open>
  A buffer that takes up to \<open>cap\<close> entries in order and whose caller never gets past a
  full one.  \<open>mk\<close> makes the stored entry from the arguments of a call.
\<close>

locale bounded_sink =
  fixes wf :: "'l \<Rightarrow> bool"
    and contents :: "'l \<Rightarrow> 'e list"
    and cap :: nat
    and mk :: "'a \<Rightarrow> 'e"
    and put :: "'a \<Rightarrow> 'l \<Rightarrow> 'l option"
  assumes bounded: "wf l \<Longrightarrow> length (contents l) \<le> cap"
    and put_room: "wf l \<Longrightarrow> length (contents l) < cap \<Longrightarrow>
      \<exists>l'. put a l = Some l' \<and> wf l' \<and> contents l' = contents l @ [mk a]"
    and put_full: "wf l \<Longrightarrow> length (contents l) = cap \<Longrightarrow> put a l = None"
begin

primrec puts :: "'a list \<Rightarrow> 'l \<Rightarrow> 'l option" where
  "puts [] l = Some l"
| "puts (a # as) l = Option.bind (put a l) (puts as)"

lemma puts_room:
  "wf l \<Longrightarrow> length (contents l) + length as \<le> cap \<Longrightarrow>
    \<exists>l'. puts as l = Some l' \<and> wf l' \<and> contents l' = contents l @ map mk as"
proof (induction as arbitrary: l)
  case (Cons a as)
  from Cons.prems obtain l1 where "put a l = Some l1" "wf l1" "contents l1 = contents l @ [mk a]"
    using put_room [of l a] by auto
  with Cons.IH [of l1] Cons.prems show ?case by auto
qed simp

lemma puts_overflow:
  "wf l \<Longrightarrow> cap < length (contents l) + length as \<Longrightarrow> puts as l = None"
proof (induction as arbitrary: l)
  case Nil
  then show ?case using bounded [of l] by simp
next
  case (Cons a as)
  show ?case
  proof (cases "length (contents l) = cap")
    case True
    with Cons.prems show ?thesis by (simp add: put_full)
  next
    case False
    with Cons.prems bounded [of l] obtain l1
      where "put a l = Some l1" "wf l1" "contents l1 = contents l @ [mk a]"
      using put_room [of l a] by auto
    with Cons show ?thesis by simp
  qed
qed

lemma puts_iff: "wf l \<Longrightarrow> puts as l \<noteq> None \<longleftrightarrow> length (contents l) + length as \<le> cap"
  using puts_room [of l as] puts_overflow [of l as]
  by (cases "length (contents l) + length as \<le> cap") auto

end

section \<open>Facts\<close>

definition log_wf :: "logc \<Rightarrow> bool" where
  "log_wf l \<longleftrightarrow> \<not> lc_m l
     \<and> (case lc_lb l of None \<Rightarrow> False | Some b \<Rightarrow> lb_idx b \<le> BSZ)
     \<and> (case lc_wdb l of None \<Rightarrow> False | Some b \<Rightarrow> wdb_idx b \<le> BSZ)"

definition ts_log :: "logc \<Rightarrow> log_entry list" where
  "ts_log l = (case lc_lb l of None \<Rightarrow> [] | Some b \<Rightarrow> lb_entries b)"

definition delay_log :: "logc \<Rightarrow> delay_entry list" where
  "delay_log l = (case lc_wdb l of None \<Rightarrow> [] | Some b \<Rightarrow> wdb_entries b)"

lemmas log_view_defs = ts_log_def delay_log_def lb_entries_def wdb_entries_def
lemmas mutex_defs = mutex_lock_def mutex_unlock_def

lemma log_wf_cases:
  assumes "log_wf l"
  obtains b w where "lc_lb l = Some b" "lc_wdb l = Some w" "lb_idx b \<le> BSZ" "wdb_idx w \<le> BSZ"
    "\<not> lc_m l" "length (ts_log l) = lb_idx b" "length (delay_log l) = wdb_idx w"
  using assms by (auto simp: log_wf_def log_view_defs split: option.splits)

lemma map_upt_update [simp]: "map (f(n := e)) [0..<n] = map f [0..<n]"
  by simp

text \<open>A frame and its five timestamps, and the entry that records them.\<close>

type_synonym log_args = "avtpdu_cshdr \<times> u64 \<times> u64 \<times> u64 \<times> u64 \<times> u64"

fun entry_of :: "log_args \<Rightarrow> log_entry" where
  "entry_of (du, cap_ts, send_ptp, tx, rx, recv_ptp) =
     \<lparr>le_sid = be64toh (p_stream_id du), le_sz = ntohs (p_sdl du), le_seqnr = p_seqnr du,
      le_avtp_ns = ucast (ntohl (p_avtp_timestamp du)), le_cap_ptp_ns = cap_ts,
      le_send_ptp_ns = send_ptp, le_tx_ns = tx, le_rx_ns = rx, le_recv_ptp_ns = recv_ptp\<rparr>"

fun ts_put :: "(string \<Rightarrow> bool) \<Rightarrow> log_args \<Rightarrow> logc \<times> files \<Rightarrow> (logc \<times> files) option" where
  "ts_put fo (du, cap_ts, send_ptp, tx, rx, recv_ptp) (l, fs) =
     do { (lo, fs) \<leftarrow> i_log fo l du cap_ts send_ptp tx rx recv_ptp fs; l \<leftarrow> lo; Some (l, fs) }"

fun delay_put :: "(string \<Rightarrow> bool) \<Rightarrow> u64 \<times> u64 \<times> u64 \<Rightarrow> logc \<times> files \<Rightarrow> (logc \<times> files) option" where
  "delay_put fo (pt, ct, ca) (l, fs) =
     do { (lo, fs) \<leftarrow> log_wakeup_delay fo (Some l) pt ct ca fs; l \<leftarrow> lo; Some (l, fs) }"

fun delay_of :: "u64 \<times> u64 \<times> u64 \<Rightarrow> delay_entry" where
  "delay_of (pt, ct, ca) =
     \<lparr>de_ptp_target_ns = pt, de_cpu_target_ns = ct, de_cpu_actual_ns = ca\<rparr>"

lemma i_log_room:
  assumes "log_wf l" and "length (ts_log l) < BSZ"
  shows "\<exists>l'. i_log fo l du c s t r v fs = Some (Some l', fs) \<and> log_wf l'
    \<and> ts_log l' = ts_log l @ [entry_of (du, c, s, t, r, v)] \<and> delay_log l' = delay_log l
    \<and> lc_flush_ctr l' = lc_flush_ctr l \<and> lc_logfile l' = lc_logfile l"
  using assms(1)
proof (rule log_wf_cases)
  fix b w
  assume "lc_lb l = Some b" "lc_wdb l = Some w" "wdb_idx w \<le> BSZ" "\<not> lc_m l"
    "length (ts_log l) = lb_idx b"
  with assms(2) show ?thesis
    by (auto simp: i_log_def mutex_defs log_wf_def log_view_defs)
qed

lemma i_log_full:
  assumes "log_wf l" and "length (ts_log l) = BSZ"
  shows "i_log fo l du c s t r v fs = None"
  using assms(1)
proof (rule log_wf_cases)
  fix b w
  assume "lc_lb l = Some b" "\<not> lc_m l" "length (ts_log l) = lb_idx b"
  with assms(2) show ?thesis
    by (simp add: i_log_def log_flush_and_rotate_def mutex_defs)
qed

lemma log_wakeup_delay_room:
  assumes "log_wf l" and "length (delay_log l) < BSZ"
  shows "\<exists>l'. log_wakeup_delay fo (Some l) p c a fs = Some (Some l', fs) \<and> log_wf l'
    \<and> delay_log l' = delay_log l @ [delay_of (p, c, a)] \<and> ts_log l' = ts_log l"
  using assms(1)
proof (rule log_wf_cases)
  fix b w
  assume "lc_lb l = Some b" "lc_wdb l = Some w" "lb_idx b \<le> BSZ" "\<not> lc_m l"
    "length (delay_log l) = wdb_idx w"
  with assms(2) show ?thesis
    by (auto simp: log_wakeup_delay_def mutex_defs log_wf_def log_view_defs)
qed

lemma log_wakeup_delay_full:
  assumes "log_wf l" and "length (delay_log l) = BSZ"
  shows "log_wakeup_delay fo (Some l) p c a fs = None"
  using assms(1)
proof (rule log_wf_cases)
  fix b w
  assume "lc_wdb l = Some w" "\<not> lc_m l" "length (delay_log l) = wdb_idx w"
  with assms(2) show ?thesis
    by (simp add: log_wakeup_delay_def log_flush_and_rotate_def mutex_defs)
qed

interpretation ts_sink: bounded_sink "\<lambda>(l, fs). log_wf l" "\<lambda>(l, fs). ts_log l" BSZ entry_of
  "ts_put fo" for fo
proof unfold_locales
  fix lf :: "logc \<times> files" and a :: log_args
  obtain l fs where lf: "lf = (l, fs)" by (cases lf)
  obtain du c s t r v where a: "a = (du, c, s, t, r, v)" by (cases a)
  show "case lf of (l, fs) \<Rightarrow> log_wf l \<Longrightarrow> length (case lf of (l, fs) \<Rightarrow> ts_log l) \<le> BSZ"
    by (auto simp: lf elim: log_wf_cases)
  show "case lf of (l, fs) \<Rightarrow> log_wf l \<Longrightarrow> length (case lf of (l, fs) \<Rightarrow> ts_log l) < BSZ \<Longrightarrow>
    \<exists>l'. ts_put fo a lf = Some l' \<and> (case l' of (l, fs) \<Rightarrow> log_wf l) \<and>
      (case l' of (l, fs) \<Rightarrow> ts_log l) = (case lf of (l, fs) \<Rightarrow> ts_log l) @ [entry_of a]"
    using i_log_room [of l fo du c s t r v fs] by (auto simp: lf a)
  show "case lf of (l, fs) \<Rightarrow> log_wf l \<Longrightarrow> length (case lf of (l, fs) \<Rightarrow> ts_log l) = BSZ \<Longrightarrow>
    ts_put fo a lf = None"
    by (simp add: lf a i_log_full)
qed

interpretation delay_sink: bounded_sink "\<lambda>(l, fs). log_wf l" "\<lambda>(l, fs). delay_log l" BSZ delay_of
  "delay_put fo" for fo
proof unfold_locales
  fix lf :: "logc \<times> files" and a :: "u64 \<times> u64 \<times> u64"
  obtain l fs where lf: "lf = (l, fs)" by (cases lf)
  obtain p c v where a: "a = (p, c, v)" by (cases a)
  show "case lf of (l, fs) \<Rightarrow> log_wf l \<Longrightarrow> length (case lf of (l, fs) \<Rightarrow> delay_log l) \<le> BSZ"
    by (auto simp: lf elim: log_wf_cases)
  show "case lf of (l, fs) \<Rightarrow> log_wf l \<Longrightarrow> length (case lf of (l, fs) \<Rightarrow> delay_log l) < BSZ \<Longrightarrow>
    \<exists>l'. delay_put fo a lf = Some l' \<and> (case l' of (l, fs) \<Rightarrow> log_wf l) \<and>
      (case l' of (l, fs) \<Rightarrow> delay_log l) = (case lf of (l, fs) \<Rightarrow> delay_log l) @ [delay_of a]"
    using log_wakeup_delay_room [of l fo p c v fs] by (auto simp: lf a)
  show "case lf of (l, fs) \<Rightarrow> log_wf l \<Longrightarrow> length (case lf of (l, fs) \<Rightarrow> delay_log l) = BSZ \<Longrightarrow>
    delay_put fo a lf = None"
    by (simp add: lf a log_wakeup_delay_full)
qed

text \<open>Creation.\<close>

definition all_allocs :: log_allocs where
  "all_allocs = \<lparr>al_logc = True, al_name = True, al_ts = True, al_wdb = True\<rparr>"

lemma log_create_wf:
  assumes "log_create al f = Some l"
  shows "log_wf l \<and> ts_log l = [] \<and> delay_log l = [] \<and> lc_flush_ctr l = 0 \<and> lc_logfile l = f"
  using assms
  by (auto simp: log_create_def i_log_create_ts_def i_log_create_wakeup_delay_buffer_def
      log_destroy_def log_wf_def log_view_defs mutex_defs Let_def nc_consts
      split: option.splits if_splits)

text \<open>Flushing.\<close>

lemma log_flush_and_rotate_wf:
  assumes "log_wf l"
  shows "\<exists>l' fs'. log_flush_and_rotate fo (Some l) fs = Some (Some l', fs') \<and> log_wf l'
    \<and> ts_log l' = [] \<and> delay_log l' = [] \<and> lc_flush_ctr l' = lc_flush_ctr l + 1
    \<and> lc_logfile l' = lc_logfile l
    \<and> fs' = fs
       @ (if ts_log l \<noteq> [] \<and> fo (ts_filename l)
          then [(ts_filename l, ts_header @ concat (map ts_row (ts_log l)))] else [])
       @ (if delay_log l \<noteq> [] \<and> fo (delay_filename l)
          then [(delay_filename l, delay_header @ concat (map delay_row (delay_log l)))] else [])"
  using assms
proof (rule log_wf_cases)
  fix b w
  assume bw: "lc_lb l = Some b" "lc_wdb l = Some w" "\<not> lc_m l"
  have names: "ts_filename (l\<lparr>lc_m := True\<rparr>) = ts_filename l"
    "delay_filename (l\<lparr>lc_m := True\<rparr>) = delay_filename l"
    by (simp_all add: ts_filename_def delay_filename_def logname_def)
  have empty: "ts_log l = [] \<longleftrightarrow> lb_idx b = 0" "delay_log l = [] \<longleftrightarrow> wdb_idx w = 0"
    "ts_log l = lb_entries b" "delay_log l = wdb_entries w"
    using bw by (auto simp: log_view_defs)
  show ?thesis
    using bw empty
    by (simp add: log_flush_and_rotate_def mutex_lock_def names i_flush_ts_def
        i_flush_wakeup_delay_def i_log_reset_def mutex_unlock_def log_wf_def)
      (simp add: log_view_defs)
qed

text \<open>Names.\<close>

lemma ts_filename_inject:
  assumes "lc_logfile l = lc_logfile l'" "0 \<le> lc_flush_ctr l" "0 \<le> lc_flush_ctr l'"
    "length (logname l @ ''-'' @ dec_int (lc_flush_ctr l)) \<le> 254"
    "length (logname l' @ ''-'' @ dec_int (lc_flush_ctr l')) \<le> 254"
  shows "ts_filename l = ts_filename l' \<longleftrightarrow> lc_flush_ctr l = lc_flush_ctr l'"
proof -
  have "logname l = logname l'" using assms(1) by (simp add: logname_def)
  with assms show ?thesis by (auto simp: ts_filename_def dec_int_def)
qed

lemma lu_inject [simp]: "lu x = lu y \<longleftrightarrow> x = y"
  by (simp add: lu_def word_unat_eq_iff)

lemma lu_comma_inject: "lu x @ CHR '','' # xs = lu y @ CHR '','' # ys \<Longrightarrow> x = y \<and> xs = ys"
  using dec_sep_inject [of "CHR '',''" "unat x" xs "unat y" ys]
  by (simp add: lu_def word_unat_eq_iff)

section \<open>Properties\<close>

text \<open>C19: A fresh logger records every frame in the order of the calls, with stream id, size and
  timestamps converted to host order, as long as no more than \<open>BSZ\<close> frames are logged between two
  flushes; the delay log is not touched.\<close>

theorem log_keeps_frames_in_order:
  assumes "log_create al f = Some l" and "length as \<le> BSZ"
  shows "\<exists>l'. ts_sink.puts fo as (l, fs) = Some (l', fs) \<and> log_wf l' \<and> ts_log l' = map entry_of as"
proof -
  have "ts_sink.puts fo as (l, fs) = Some (l', fs') \<Longrightarrow> log_wf l \<Longrightarrow> fs' = fs" for l l' fs fs'
  proof (induction as arbitrary: l fs)
    case (Cons a as)
    obtain du c s t r v where a: "a = (du, c, s, t, r, v)" by (cases a)
    from Cons.prems(2) have "length (ts_log l) < BSZ \<or> length (ts_log l) = BSZ"
      by (auto elim!: log_wf_cases)
    with Cons.prems Cons.IH show ?case
      using i_log_room [of l fo du c s t r v fs] i_log_full [of l fo du c s t r v fs]
      by (auto simp: a)
  qed simp
  with assms log_create_wf [OF assms(1)] ts_sink.puts_room [of "(l, fs)" as fo] show ?thesis
    by fastforce
qed

definition demo_logger :: logc where
  "demo_logger = \<lparr>lc_m = False, lc_logfile = Some ''nc.csv'', lc_flush_ctr = 0,
     lc_lb = Some \<lparr>lb_idx = 0, lb_ent = (\<lambda>_. zero_entry)\<rparr>,
     lc_wdb = Some \<lparr>wdb_idx = 0, wdb_ent = (\<lambda>_. zero_delay)\<rparr>\<rparr>"

lemma demo_logger_created: "log_create all_allocs (Some ''nc.csv'') = Some demo_logger"
  by (simp add: log_create_def all_allocs_def i_log_create_ts_def
      i_log_create_wakeup_delay_buffer_def mutex_unlock_def demo_logger_def)

theorem log_keeps_frames_in_order_witness:
  "\<exists>l'. ts_sink.puts (\<lambda>_. True) [(pdu_of_bytes (replicate 24 1), 1, 2, 3, 0, 0),
       (pdu_of_bytes (replicate 24 2), 0, 0, 0, 8, 9)] (demo_logger, []) = Some (l', [])
     \<and> map le_rx_ns (ts_log l') = [0, 8] \<and> map le_tx_ns (ts_log l') = [3, 0]"
  using log_keeps_frames_in_order [OF demo_logger_created, of "[(pdu_of_bytes (replicate 24 1), 1, 2, 3, 0, 0),
       (pdu_of_bytes (replicate 24 2), 0, 0, 0, 8, 9)]" "\<lambda>_. True" "[]"]
  by (auto simp: BSZ_def)

text \<open>C20: Once \<open>BSZ\<close> frames have been logged without a flush, the next log call does not return: it
  calls the flush, which waits for the mutex that the caller itself holds.  The same holds for the
  wakeup delays.\<close>

theorem log_full_deadlocks:
  assumes "log_wf l"
  shows "(length (ts_log l) = BSZ \<longrightarrow>
      log_tx fo (Some l) (Some du) c s t fs = None \<and> log_rx fo (Some l) (Some du) r v fs = None)
    \<and> (length (delay_log l) = BSZ \<longrightarrow> log_wakeup_delay fo (Some l) p q a fs = None)"
  using assms by (simp add: log_tx_def log_rx_def i_log_full log_wakeup_delay_full)

theorem log_full_deadlocks_witness:
  "log_tx (\<lambda>_. True) (Some (demo_logger\<lparr>lc_lb := Some \<lparr>lb_idx = BSZ, lb_ent = (\<lambda>_. zero_entry)\<rparr>\<rparr>))
     (Some (pdu_of_bytes (replicate 24 0))) 1 2 3 [] = None"
  using log_full_deadlocks [of "demo_logger\<lparr>lc_lb := Some \<lparr>lb_idx = BSZ, lb_ent = (\<lambda>_. zero_entry)\<rparr>\<rparr>"
      "\<lambda>_. True" "pdu_of_bytes (replicate 24 0)" 1 2 3 "[]"]
  by (simp add: log_wf_def demo_logger_def log_view_defs)

text \<open>C21: A flush writes every logged frame and delay, in order, into the file of the current
  rotation, empties both buffers and moves on to the next rotation; the file of a later rotation has
  another name, so nothing that was written is overwritten.\<close>

theorem log_flush_complete:
  assumes "log_wf l" and "0 \<le> lc_flush_ctr l"
    and "length (logname l @ ''-'' @ dec_int (lc_flush_ctr l + 1)) \<le> 254"
    and "length (logname l @ ''-'' @ dec_int (lc_flush_ctr l)) \<le> 254"
  shows "\<exists>l' fs'. log_flush_and_rotate fo (Some l) fs = Some (Some l', fs') \<and> log_wf l'
    \<and> ts_log l' = [] \<and> delay_log l' = [] \<and> ts_filename l' \<noteq> ts_filename l
    \<and> fs' = fs
       @ (if ts_log l \<noteq> [] \<and> fo (ts_filename l)
          then [(ts_filename l, ts_header @ concat (map ts_row (ts_log l)))] else [])
       @ (if delay_log l \<noteq> [] \<and> fo (delay_filename l)
          then [(delay_filename l, delay_header @ concat (map delay_row (delay_log l)))] else [])"
proof -
  obtain l' fs' where fl: "log_flush_and_rotate fo (Some l) fs = Some (Some l', fs')" "log_wf l'"
    "ts_log l' = []" "delay_log l' = []" "lc_flush_ctr l' = lc_flush_ctr l + 1"
    "lc_logfile l' = lc_logfile l"
    and fs': "fs' = fs
       @ (if ts_log l \<noteq> [] \<and> fo (ts_filename l)
          then [(ts_filename l, ts_header @ concat (map ts_row (ts_log l)))] else [])
       @ (if delay_log l \<noteq> [] \<and> fo (delay_filename l)
          then [(delay_filename l, delay_header @ concat (map delay_row (delay_log l)))] else [])"
    using log_flush_and_rotate_wf [OF assms(1), of fo fs] by blast
  have "logname l' = logname l" by (simp add: logname_def fl(6))
  with assms fl(5,6) have "ts_filename l' \<noteq> ts_filename l"
    by (subst ts_filename_inject) auto
  with fl fs' show ?thesis by blast
qed

definition demo_logger_1 :: logc where
  "demo_logger_1 = demo_logger\<lparr>lc_lb := Some \<lparr>lb_idx = 1, lb_ent = (\<lambda>_. zero_entry)\<rparr>\<rparr>"

lemma demo_logger_1_facts:
  "log_wf demo_logger_1" "ts_log demo_logger_1 = [zero_entry]" "delay_log demo_logger_1 = []"
  "lc_flush_ctr demo_logger_1 = 0" "logname demo_logger_1 = ''nc.csv''"
  "ts_filename demo_logger_1 = ''nc.csv-0''"
  by (simp_all add: demo_logger_1_def demo_logger_def log_wf_def log_view_defs BSZ_def logname_def
      ts_filename_def dec_int_def dec.simps char_of_def bit_0)

theorem log_flush_complete_witness:
  "\<exists>l' fs'. log_flush_and_rotate (\<lambda>_. True) (Some demo_logger_1) [] = Some (Some l', fs')
     \<and> map fst fs' = [''nc.csv-0''] \<and> ts_log l' = []"
  using log_flush_complete [of demo_logger_1 "\<lambda>_. True" "[]"]
  by (auto simp: demo_logger_1_facts dec_int_def dec.simps)

text \<open>A row of the log file determines the logged entry: no two different entries print the
  same row.\<close>

lemma ts_row_determines_entry: "ts_row e = ts_row e' \<longleftrightarrow> e = e'"
proof
  assume "ts_row e = ts_row e'"
  then show "e = e'"
    by (intro log_entry.equality) (auto simp: ts_row_def dest!: lu_comma_inject)
qed simp

end
