(* ===== verification/Callback_Map.thy ===== *)
theory Callback_Map
  imports Prelude
begin

text \<open>
  The callback hashmap of the nethandler (\<^verbatim>\<open>nh->hmap\<close>, \<^verbatim>\<open>src/netchan.c\<close>): an open-addressed
  table with linear probing, from a stream id to a callback and its private data.  Slots
  are taken by \<open>hm_reg_callback\<close> and never given back.  The locale \<open>callback_table\<close> is
  the contract the receive path uses.
\<close>

section \<open>The table\<close>

text \<open>A function pointer: the standard callback, or one of the application's own.\<close>

datatype callback = Std_cb | User_cb nat

record cb_entity =
  ce_stream_id :: u64
  ce_priv_data :: "addr option"
  ce_cb :: "callback option"

type_synonym hmap = "cb_entity list"

definition empty_entity :: cb_entity where
  "empty_entity = \<lparr>ce_stream_id = 0, ce_priv_data = None, ce_cb = None\<rparr>"

text \<open>\<^verbatim>\<open>calloc(sizeof(struct cb_entity), hmap_sz)\<close>\<close>

definition hm_alloc :: "nat \<Rightarrow> hmap" where
  "hm_alloc hmap_sz = replicate hmap_sz empty_entity"

text \<open>
  The probe loops.  The first argument counts the iterations that the loop may still make
  (\<^verbatim>\<open>hmap_sz - i\<close>); the table has \<^verbatim>\<open>hmap_sz\<close> slots and an index is always taken modulo that
  size.  The index is an \<^verbatim>\<open>int\<close> in the code and a \<open>nat\<close> here; the two agree for tables of less than \<open>2 ^ 31\<close> slots.
\<close>

fun reg_probe :: "nat \<Rightarrow> hmap \<Rightarrow> nat \<Rightarrow> nat" where
  "reg_probe 0 hmap idx = idx"
| "reg_probe (Suc n) hmap idx =
     (if ce_cb (hmap ! idx) \<noteq> None then reg_probe n hmap ((idx + 1) mod length hmap) else idx)"

definition hm_reg_callback ::
  "hmap \<Rightarrow> u64 \<Rightarrow> addr option \<Rightarrow> callback option \<Rightarrow> int \<times> hmap" where
  "hm_reg_callback hmap stream_id priv_data cb =
     (if length hmap = 0 \<or> cb = None then (- EINVAL, hmap)
      else
        let idx = reg_probe (length hmap) hmap (unat stream_id mod length hmap)
        in if ce_cb (hmap ! idx) \<noteq> None then (- ENOMEM, hmap)
           else (0, hmap[idx := \<lparr>ce_stream_id = stream_id, ce_priv_data = priv_data, ce_cb = cb\<rparr>]))"

fun get_probe :: "nat \<Rightarrow> hmap \<Rightarrow> nat \<Rightarrow> u64 \<Rightarrow> int" where
  "get_probe 0 hmap idx stream_id = -1"
| "get_probe (Suc n) hmap idx stream_id =
     (if ce_stream_id (hmap ! idx) = stream_id \<and> ce_cb (hmap ! idx) \<noteq> None then int idx
      else get_probe n hmap ((idx + 1) mod length hmap) stream_id)"

text \<open>A table of size zero divides by zero (\<open>None\<close>).\<close>

definition get_hm_idx :: "hmap option \<Rightarrow> u64 \<Rightarrow> int option" where
  "get_hm_idx nh_hmap stream_id =
     (case nh_hmap of
        None \<Rightarrow> Some (- ENOMEM)
      | Some hmap \<Rightarrow>
          if length hmap = 0 then None
          else Some (get_probe (length hmap) hmap (unat stream_id mod length hmap) stream_id))"

section \<open>Probe sequences\<close>

definition slot :: "hmap \<Rightarrow> u64 \<Rightarrow> nat \<Rightarrow> nat" where
  "slot hmap s k = (unat s mod length hmap + k) mod length hmap"

definition occupied :: "hmap \<Rightarrow> nat \<Rightarrow> bool" where
  "occupied hmap i \<longleftrightarrow> ce_cb (hmap ! i) \<noteq> None"

definition matches :: "hmap \<Rightarrow> u64 \<Rightarrow> nat \<Rightarrow> bool" where
  "matches hmap s i \<longleftrightarrow> ce_stream_id (hmap ! i) = s \<and> occupied hmap i"

lemma slot_less [simp]: "hmap \<noteq> [] \<Longrightarrow> slot hmap s k < length hmap"
  by (simp add: slot_def)

lemma slot_Suc: "slot hmap s (Suc k) = (slot hmap s k + 1) mod length hmap"
  by (simp add: slot_def mod_Suc_eq)

lemma slot_0: "slot hmap s 0 = unat s mod length hmap"
  by (simp add: slot_def)

lemma slot_length: "slot hmap s (length hmap) = slot hmap s 0"
  by (simp add: slot_def)

lemma slot_list_update [simp]: "slot (hmap[i := e]) s k = slot hmap s k"
  by (simp add: slot_def)

lemma slot_onto:
  assumes "i < length hmap"
  shows "\<exists>k < length hmap. slot hmap s k = i"
proof -
  let ?n = "length hmap" and ?h = "unat s mod length hmap"
  from assms have "?h < ?n" by (intro mod_less_divisor) linarith
  then have "(?h + (i + (?n - ?h)) mod ?n) mod ?n = (?h + (i + (?n - ?h))) mod ?n"
    by (simp add: mod_add_right_eq)
  also have "?h + (i + (?n - ?h)) = i + ?n" using \<open>?h < ?n\<close> by simp
  finally have "slot hmap s ((i + (?n - ?h)) mod ?n) = i"
    using assms by (simp add: slot_def)
  moreover have "(i + (?n - ?h)) mod ?n < ?n" using assms by (intro mod_less_divisor) linarith
  ultimately show ?thesis by blast
qed

lemma slot_inj:
  assumes "j < length hmap" "k < length hmap" "slot hmap s j = slot hmap s k"
  shows "j = k"
proof -
  have "inj_on (slot hmap s) {..<length hmap}"
  proof (rule eq_card_imp_inj_on)
    have "slot hmap s ` {..<length hmap} = {..<length hmap}"
      using slot_onto [of _ hmap s] by (auto intro!: slot_less)
    then show "card (slot hmap s ` {..<length hmap}) = card {..<length hmap}" by simp
  qed simp
  with assms show ?thesis by (auto dest: inj_onD)
qed

text \<open>What the two loops compute.\<close>

lemma reg_probe_slot:
  "\<exists>k. m \<le> k \<and> k \<le> m + n \<and> reg_probe n hmap (slot hmap s m) = slot hmap s k
     \<and> (\<forall>j. m \<le> j \<and> j < k \<longrightarrow> occupied hmap (slot hmap s j))
     \<and> (k < m + n \<longrightarrow> \<not> occupied hmap (slot hmap s k))"
proof (induction n arbitrary: m)
  case 0
  then show ?case by (intro exI [of _ m]) auto
next
  case (Suc n)
  show ?case
  proof (cases "occupied hmap (slot hmap s m)")
    case True
    from Suc.IH [of "Suc m"] obtain k where k: "Suc m \<le> k" "k \<le> Suc m + n"
      "reg_probe n hmap (slot hmap s (Suc m)) = slot hmap s k"
      "\<forall>j. Suc m \<le> j \<and> j < k \<longrightarrow> occupied hmap (slot hmap s j)"
      "k < Suc m + n \<longrightarrow> \<not> occupied hmap (slot hmap s k)"
      by blast
    moreover from k(4) True have "\<forall>j. m \<le> j \<and> j < k \<longrightarrow> occupied hmap (slot hmap s j)"
      by (metis Suc_leI le_neq_implies_less)
    ultimately show ?thesis
      using True by (intro exI [of _ k]) (simp add: slot_Suc occupied_def)
  next
    case False
    then show ?thesis by (intro exI [of _ m]) (auto simp: occupied_def)
  qed
qed

lemma get_probe_slot:
  "(get_probe n hmap (slot hmap s m) s = -1 \<and> (\<forall>j. m \<le> j \<and> j < m + n \<longrightarrow> \<not> matches hmap s (slot hmap s j)))
   \<or> (\<exists>k. m \<le> k \<and> k < m + n \<and> get_probe n hmap (slot hmap s m) s = int (slot hmap s k)
        \<and> matches hmap s (slot hmap s k)
        \<and> (\<forall>j. m \<le> j \<and> j < k \<longrightarrow> \<not> matches hmap s (slot hmap s j)))"
proof (induction n arbitrary: m)
  case (Suc n)
  show ?case
  proof (cases "matches hmap s (slot hmap s m)")
    case True
    then show ?thesis by (intro disjI2 exI [of _ m]) (auto simp: matches_def occupied_def)
  next
    case False
    then have step: "get_probe (Suc n) hmap (slot hmap s m) s = get_probe n hmap (slot hmap s (Suc m)) s"
      by (auto simp: matches_def occupied_def slot_Suc)
    have ext: "\<forall>j. m \<le> j \<and> j < k \<longrightarrow> \<not> matches hmap s (slot hmap s j)"
      if "\<forall>j. Suc m \<le> j \<and> j < k \<longrightarrow> \<not> matches hmap s (slot hmap s j)" for k
      using that False by (metis Suc_leI le_neq_implies_less)
    from Suc.IH [of "Suc m"] show ?thesis
    proof (elim disjE exE conjE)
      assume "get_probe n hmap (slot hmap s (Suc m)) s = - 1"
        and "\<forall>j. Suc m \<le> j \<and> j < Suc m + n \<longrightarrow> \<not> matches hmap s (slot hmap s j)"
      with ext [of "Suc m + n"] show ?thesis by (simp add: step del: get_probe.simps)
    next
      fix k
      assume "Suc m \<le> k" "k < Suc m + n" "get_probe n hmap (slot hmap s (Suc m)) s = int (slot hmap s k)"
        "matches hmap s (slot hmap s k)"
        "\<forall>j. Suc m \<le> j \<and> j < k \<longrightarrow> \<not> matches hmap s (slot hmap s j)"
      with ext [of k] show ?thesis by (intro disjI2 exI [of _ k]) (simp add: step del: get_probe.simps)
    qed
  qed
qed auto

section \<open>The contract\<close>

text \<open>
  A table that maps each stream id to the value it was first registered with.  A second
  registration of an id uses up a slot and changes nothing else; a full table refuses.
\<close>

locale callback_table =
  fixes inv :: "'t \<Rightarrow> bool"
    and lookup :: "'t \<Rightarrow> 'k \<Rightarrow> 'v option"
    and free :: "'t \<Rightarrow> nat"
    and reg :: "'t \<Rightarrow> 'k \<Rightarrow> 'v \<Rightarrow> int \<times> 't"
  assumes reg_full: "inv t \<Longrightarrow> free t = 0 \<Longrightarrow> reg t s v = (- ENOMEM, t)"
    and reg_room: "inv t \<Longrightarrow> 0 < free t \<Longrightarrow>
      \<exists>t'. reg t s v = (0, t') \<and> inv t' \<and> Suc (free t') = free t
        \<and> lookup t' = (if lookup t s = None then (lookup t)(s \<mapsto> v) else lookup t)"
begin

lemma reg_lookup_same:
  "inv t \<Longrightarrow> reg t s v = (0, t') \<Longrightarrow> lookup t' s = Some (case lookup t s of None \<Rightarrow> v | Some v0 \<Rightarrow> v0)"
  using reg_full [of t s v] reg_room [of t s v]
  by (cases "free t = 0") (auto simp: ENOMEM_def split: option.splits)

lemma reg_lookup_other:
  "inv t \<Longrightarrow> reg t s v = (r, t') \<Longrightarrow> s' \<noteq> s \<Longrightarrow> lookup t' s' = lookup t s'"
  using reg_full [of t s v] reg_room [of t s v]
  by (cases "free t = 0") (auto split: if_splits)

lemma reg_inv: "inv t \<Longrightarrow> inv (snd (reg t s v))"
  using reg_full [of t s v] reg_room [of t s v]
  by (cases "free t = 0") auto

lemma reg_result: "inv t \<Longrightarrow> fst (reg t s v) = (if free t = 0 then - ENOMEM else 0)"
  using reg_full [of t s v] reg_room [of t s v]
  by (cases "free t = 0") auto

primrec reg_all :: "('k \<times> 'v) list \<Rightarrow> 't \<Rightarrow> 't" where
  "reg_all [] t = t"
| "reg_all (x # xs) t = reg_all xs (snd (reg t (fst x) (snd x)))"

text \<open>As long as there is room, a lookup gives the first registration of its id.\<close>

lemma reg_all_lookup:
  "inv t \<Longrightarrow> length xs \<le> free t \<Longrightarrow>
    inv (reg_all xs t) \<and> free (reg_all xs t) = free t - length xs
    \<and> lookup (reg_all xs t) = (map_of xs ++ lookup t)"
proof (induction xs arbitrary: t)
  case (Cons x xs)
  obtain s v where x: "x = (s, v)" by (cases x)
  from Cons.prems reg_room [of t s v] obtain t' where t': "reg t s v = (0, t')" "inv t'"
    "Suc (free t') = free t" "lookup t' = (if lookup t s = None then (lookup t)(s \<mapsto> v) else lookup t)"
    by auto
  with Cons.IH [of t'] Cons.prems
  have "inv (reg_all xs t')" "free (reg_all xs t') = free t' - length xs"
    "lookup (reg_all xs t') = map_of xs ++ lookup t'"
    by auto
  moreover have "map_of xs ++ lookup t' = map_of ((s, v) # xs) ++ lookup t"
    using t'(4) by (auto simp: map_add_def fun_eq_iff split: option.splits)
  moreover have "free t - length ((s, v) # xs) = free t' - length xs"
    using t'(3) by simp
  ultimately show ?case
    unfolding x by (simp only: reg_all.simps fst_conv snd_conv t'(1) conj_absorb)
qed auto

end

section \<open>The hashmap keeps the contract\<close>

text \<open>
  The probing invariant: every occupied slot is reached from the home slot of its stream id
  through occupied slots only.
\<close>

definition hm_inv :: "hmap \<Rightarrow> bool" where
  "hm_inv hmap \<longleftrightarrow> hmap \<noteq> [] \<and>
     (\<forall>s. \<forall>k < length hmap. matches hmap s (slot hmap s k) \<longrightarrow>
        (\<forall>j < k. occupied hmap (slot hmap s j)))"

definition hm_free :: "hmap \<Rightarrow> nat" where
  "hm_free hmap = length (filter (\<lambda>e. ce_cb e = None) hmap)"

definition hm_lookup :: "hmap \<Rightarrow> u64 \<Rightarrow> (addr option \<times> callback) option" where
  "hm_lookup hmap s =
     (let idx = get_probe (length hmap) hmap (unat s mod length hmap) s
      in if idx < 0 then None
         else Some (ce_priv_data (hmap ! nat idx), the (ce_cb (hmap ! nat idx))))"

definition hm_reg :: "hmap \<Rightarrow> u64 \<Rightarrow> addr option \<times> callback \<Rightarrow> int \<times> hmap" where
  "hm_reg hmap s v = hm_reg_callback hmap s (fst v) (Some (snd v))"

lemma hm_lookup_cases:
  obtains (none) "hm_lookup hmap s = None" "get_probe (length hmap) hmap (unat s mod length hmap) s = -1"
      "\<And>j. j < length hmap \<Longrightarrow> \<not> matches hmap s (slot hmap s j)"
  | (some) k where "k < length hmap" "get_probe (length hmap) hmap (unat s mod length hmap) s = int (slot hmap s k)"
      "hm_lookup hmap s = Some (ce_priv_data (hmap ! slot hmap s k), the (ce_cb (hmap ! slot hmap s k)))"
      "matches hmap s (slot hmap s k)" "\<And>j. j < k \<Longrightarrow> \<not> matches hmap s (slot hmap s j)"
  using get_probe_slot [of "length hmap" hmap s 0]
  by (auto simp: slot_0 hm_lookup_def Let_def)

lemma hm_lookup_eqI:
  assumes "k < length hmap" "matches hmap s (slot hmap s k)"
    "\<And>j. j < k \<Longrightarrow> \<not> matches hmap s (slot hmap s j)"
  shows "hm_lookup hmap s = Some (ce_priv_data (hmap ! slot hmap s k), the (ce_cb (hmap ! slot hmap s k)))"
proof (cases rule: hm_lookup_cases [of hmap s])
  case none
  with assms show ?thesis by blast
next
  case (some k')
  with assms have "k' = k" by (metis linorder_neqE_nat)
  with some show ?thesis by simp
qed

lemma hm_lookup_NoneI:
  "(\<And>j. j < length hmap \<Longrightarrow> \<not> matches hmap s (slot hmap s j)) \<Longrightarrow> hm_lookup hmap s = None"
  by (cases rule: hm_lookup_cases [of hmap s]) auto

lemma hm_free_0_iff: "hm_free hmap = 0 \<longleftrightarrow> (\<forall>i < length hmap. occupied hmap i)"
  by (simp add: hm_free_def occupied_def filter_empty_conv all_set_conv_all_nth)

lemma hm_free_update:
  assumes "i < length hmap" "\<not> occupied hmap i" "ce_cb e \<noteq> None"
  shows "Suc (hm_free (hmap[i := e])) = hm_free hmap"
proof -
  from assms have "hmap = take i hmap @ hmap ! i # drop (Suc i) hmap"
    by (simp add: id_take_nth_drop)
  then have "hm_free hmap = hm_free (take i hmap @ hmap ! i # drop (Suc i) hmap)" by simp
  with assms show ?thesis
    by (simp add: hm_free_def occupied_def upd_conv_take_nth_drop)
qed

text \<open>Registration, split by whether a slot is left.\<close>

lemma hm_reg_full:
  assumes "hmap \<noteq> []" "hm_free hmap = 0"
  shows "hm_reg hmap s v = (- ENOMEM, hmap)"
proof -
  obtain k where "reg_probe (length hmap) hmap (slot hmap s 0) = slot hmap s k"
    using reg_probe_slot [of 0 "length hmap" hmap s] by blast
  with assms show ?thesis
    by (simp add: hm_reg_def hm_reg_callback_def hm_free_0_iff occupied_def slot_0)
qed

lemma hm_reg_slot:
  assumes "hmap \<noteq> []" "0 < hm_free hmap"
  obtains m where "m < length hmap" "\<not> occupied hmap (slot hmap s m)"
    "\<And>j. j < m \<Longrightarrow> occupied hmap (slot hmap s j)"
    "hm_reg hmap s v = (0, hmap[slot hmap s m :=
       \<lparr>ce_stream_id = s, ce_priv_data = fst v, ce_cb = Some (snd v)\<rparr>])"
proof -
  obtain m where m: "m \<le> length hmap" "reg_probe (length hmap) hmap (slot hmap s 0) = slot hmap s m"
    "\<forall>j. j < m \<longrightarrow> occupied hmap (slot hmap s j)"
    "m < length hmap \<longrightarrow> \<not> occupied hmap (slot hmap s m)"
    using reg_probe_slot [of 0 "length hmap" hmap s] by auto
  have "m < length hmap"
  proof (rule ccontr)
    assume "\<not> m < length hmap"
    with m(1,3) have "\<forall>j < length hmap. occupied hmap (slot hmap s j)" by auto
    then have "\<forall>i < length hmap. occupied hmap i" by (metis slot_onto)
    with assms(2) show False by (simp flip: hm_free_0_iff)
  qed
  with m assms that show thesis
    by (auto simp: hm_reg_def hm_reg_callback_def occupied_def slot_0)
qed

lemma matches_update:
  "i < length hmap \<Longrightarrow> matches (hmap[i := e]) s j \<longleftrightarrow>
    (if j = i then ce_stream_id e = s \<and> ce_cb e \<noteq> None else matches hmap s j)"
  by (auto simp: matches_def occupied_def nth_list_update)

lemma occupied_update:
  "i < length hmap \<Longrightarrow> occupied (hmap[i := e]) j \<longleftrightarrow> (if j = i then ce_cb e \<noteq> None else occupied hmap j)"
  by (auto simp: occupied_def nth_list_update)

lemma hm_reg_inv:
  assumes inv: "hm_inv hmap" and m: "m < length hmap" "\<not> occupied hmap (slot hmap s m)"
    "\<And>j. j < m \<Longrightarrow> occupied hmap (slot hmap s j)"
    and e: "ce_stream_id e = s" "ce_cb e \<noteq> None"
  shows "hm_inv (hmap[slot hmap s m := e])" (is "hm_inv ?t")
proof -
  from inv have ne: "hmap \<noteq> []" by (simp add: hm_inv_def)
  have "occupied ?t (slot hmap s' j)"
    if "k < length hmap" "matches ?t s' (slot hmap s' k)" "j < k" for s' k j
  proof (cases "slot hmap s' k = slot hmap s m")
    case True
    with that ne e have "s' = s" by (simp add: matches_update)
    with True that m have "k = m" by (metis slot_inj)
    with that m ne e \<open>s' = s\<close> show ?thesis by (simp add: occupied_update)
  next
    case False
    with that ne have "matches hmap s' (slot hmap s' k)" by (simp add: matches_update)
    with inv that have "occupied hmap (slot hmap s' j)" by (auto simp: hm_inv_def)
    with ne e show ?thesis by (simp add: occupied_update)
  qed
  with ne show ?thesis by (auto simp: hm_inv_def)
qed

lemma hm_reg_lookup_other:
  assumes "hmap \<noteq> []" "\<not> occupied hmap i" "i < length hmap" "ce_stream_id e \<noteq> s'"
  shows "hm_lookup (hmap[i := e]) s' = hm_lookup hmap s'"
proof -
  have same: "matches (hmap[i := e]) s' j \<longleftrightarrow> matches hmap s' j" for j
    using assms by (auto simp: matches_update) (simp add: matches_def)
  show ?thesis
  proof (cases rule: hm_lookup_cases [of hmap s'])
    case none
    then have "hm_lookup (hmap[i := e]) s' = None" by (intro hm_lookup_NoneI) (simp add: same)
    with none show ?thesis by simp
  next
    case (some k)
    then have "slot hmap s' k \<noteq> i" using assms by (auto simp: matches_def)
    with some show ?thesis
      by (subst hm_lookup_eqI [of k]) (simp_all add: same)
  qed
qed

lemma hm_reg_lookup_same:
  assumes inv: "hm_inv hmap" and m: "m < length hmap" "\<not> occupied hmap (slot hmap s m)"
    "\<And>j. j < m \<Longrightarrow> occupied hmap (slot hmap s j)"
    and e: "ce_stream_id e = s" "ce_cb e \<noteq> None"
  shows "hm_lookup (hmap[slot hmap s m := e]) s =
    (if hm_lookup hmap s = None then Some (ce_priv_data e, the (ce_cb e)) else hm_lookup hmap s)"
proof -
  from inv have ne: "hmap \<noteq> []" by (simp add: hm_inv_def)
  let ?t = "hmap[slot hmap s m := e]"
  show ?thesis
  proof (cases rule: hm_lookup_cases [of hmap s])
    case none
    have "hm_lookup ?t s = Some (ce_priv_data (?t ! slot ?t s m), the (ce_cb (?t ! slot ?t s m)))"
    proof (rule hm_lookup_eqI)
      fix j assume "j < m"
      with m none show "\<not> matches ?t s (slot ?t s j)"
        by (simp add: matches_update ne) (metis order.strict_trans)
    qed (use m ne e in \<open>simp_all add: matches_update\<close>)
    with none ne show ?thesis by simp
  next
    case (some k)
    have "k < m"
    proof (rule ccontr)
      assume "\<not> k < m"
      then consider "k = m" | "m < k" by linarith
      then show False
        using some m inv by cases (auto simp: hm_inv_def matches_def)
    qed
    have keep: "slot hmap s j \<noteq> slot hmap s m" if "j < m" for j
      using m that by (metis)
    have "hm_lookup ?t s = Some (ce_priv_data (?t ! slot ?t s k), the (ce_cb (?t ! slot ?t s k)))"
    proof (rule hm_lookup_eqI)
      fix j assume "j < k"
      with some keep [of j] \<open>k < m\<close> show "\<not> matches ?t s (slot ?t s j)"
        by (simp add: matches_update ne)
    qed (use some keep [of k] \<open>k < m\<close> ne in \<open>simp_all add: matches_update\<close>)
    with some keep [of k] \<open>k < m\<close> show ?thesis by simp
  qed
qed

interpretation hm: callback_table hm_inv hm_lookup hm_free hm_reg
proof unfold_locales
  fix t s v
  assume "hm_inv t" "hm_free t = 0"
  then show "hm_reg t s v = (- ENOMEM, t)" by (simp add: hm_inv_def hm_reg_full)
next
  fix t s and v :: "addr option \<times> callback"
  assume inv: "hm_inv t" and room: "0 < hm_free t"
  then have ne: "t \<noteq> []" by (simp add: hm_inv_def)
  obtain m where m: "m < length t" "\<not> occupied t (slot t s m)"
    "\<And>j. j < m \<Longrightarrow> occupied t (slot t s j)"
    and reg: "hm_reg t s v = (0, t[slot t s m :=
       \<lparr>ce_stream_id = s, ce_priv_data = fst v, ce_cb = Some (snd v)\<rparr>])"
    using hm_reg_slot [OF ne room] by blast
  let ?e = "\<lparr>ce_stream_id = s, ce_priv_data = fst v, ce_cb = Some (snd v)\<rparr>"
  let ?t = "t[slot t s m := ?e]"
  have "hm_lookup ?t = (if hm_lookup t s = None then (hm_lookup t)(s \<mapsto> v) else hm_lookup t)"
  proof
    fix s'
    show "hm_lookup ?t s' = (if hm_lookup t s = None then (hm_lookup t)(s \<mapsto> v) else hm_lookup t) s'"
    proof (cases "s' = s")
      case True
      then show ?thesis using hm_reg_lookup_same [OF inv m, of ?e] by simp
    next
      case False
      then show ?thesis using hm_reg_lookup_other [OF ne m(2), of ?e s'] ne by simp
    qed
  qed
  moreover have "hm_inv ?t" by (rule hm_reg_inv [OF inv m]) simp_all
  moreover have "Suc (hm_free ?t) = hm_free t" using m ne by (intro hm_free_update) simp_all
  ultimately show "\<exists>t'. hm_reg t s v = (0, t') \<and> hm_inv t' \<and> Suc (hm_free t') = hm_free t
      \<and> hm_lookup t' = (if hm_lookup t s = None then (hm_lookup t)(s \<mapsto> v) else hm_lookup t)"
    using reg by blast
qed

lemma hm_alloc_inv [simp]: "0 < n \<Longrightarrow> hm_inv (hm_alloc n)"
  by (auto simp: hm_inv_def hm_alloc_def matches_def occupied_def slot_def empty_entity_def)

lemma hm_alloc_free [simp]: "hm_free (hm_alloc n) = n"
  by (simp add: hm_free_def hm_alloc_def empty_entity_def)

lemma hm_alloc_lookup [simp]: "0 < n \<Longrightarrow> hm_lookup (hm_alloc n) s = None"
  by (rule hm_lookup_NoneI) (simp add: hm_alloc_def matches_def occupied_def slot_def empty_entity_def)

lemma get_hm_idx_lookup:
  assumes "hmap \<noteq> []"
  shows "\<exists>idx. get_hm_idx (Some hmap) s = Some idx \<and>
    (if hm_lookup hmap s = None then idx = -1
     else 0 \<le> idx \<and> nat idx < length hmap
       \<and> hm_lookup hmap s = Some (ce_priv_data (hmap ! nat idx), the (ce_cb (hmap ! nat idx)))
       \<and> ce_cb (hmap ! nat idx) \<noteq> None)"
  using assms
  by (cases rule: hm_lookup_cases [of hmap s])
    (auto simp: get_hm_idx_def matches_def occupied_def)

section \<open>Properties\<close>

text \<open>C3: The callback hashmap implements a map from stream ids: after any sequence of at most
  \<open>hmap_sz\<close> registrations on a fresh table, a lookup finds for every stream id the callback and
  private data it was first registered with, and nothing for other ids, whatever ids collide.\<close>

theorem hmap_first_registration_wins:
  assumes "0 < hmap_sz" and "length regs \<le> hmap_sz"
  shows "hm_inv (hm.reg_all regs (hm_alloc hmap_sz))
    \<and> hm_lookup (hm.reg_all regs (hm_alloc hmap_sz)) = map_of regs"
proof -
  have "map_of regs ++ hm_lookup (hm_alloc hmap_sz) = map_of regs"
    using assms(1) by (auto simp: map_add_def fun_eq_iff split: option.splits)
  with assms hm.reg_all_lookup [of "hm_alloc hmap_sz" regs] show ?thesis by simp
qed

theorem hmap_first_registration_wins_witness:
  "hm_lookup (hm.reg_all [(42, (Some 1, Std_cb)), (43, (Some 2, Std_cb)), (42, (Some 3, User_cb 0))]
     (hm_alloc 3)) 42 = Some (Some 1, Std_cb)"
  using hmap_first_registration_wins
    [of 3 "[(42, (Some 1, Std_cb)), (43, (Some 2, Std_cb)), (42, (Some 3, User_cb 0))]"]
  by simp

text \<open>A registration fails with \<open>ENOMEM\<close> exactly when no slot is free, and then changes
  nothing; otherwise it succeeds, uses up one slot and keeps every other stream's callback.\<close>

lemma hm_reg_callback_result:
  assumes "hm_inv hmap" and "hm_reg_callback hmap s priv (Some cb) = (r, hmap')"
  shows "(if hm_free hmap = 0 then r = - ENOMEM \<and> hmap' = hmap
          else r = 0 \<and> hm_inv hmap' \<and> Suc (hm_free hmap') = hm_free hmap
            \<and> (hm_lookup hmap s = None \<longrightarrow> hm_lookup hmap' s = Some (priv, cb))
            \<and> (\<forall>s'. s' \<noteq> s \<longrightarrow> hm_lookup hmap' s' = hm_lookup hmap s'))"
proof -
  from assms(2) have reg: "hm_reg hmap s (priv, cb) = (r, hmap')" by (simp add: hm_reg_def)
  show ?thesis
    using hm.reg_full [OF assms(1), of s "(priv, cb)"] hm.reg_room [OF assms(1), of s "(priv, cb)"] reg
    by (cases "hm_free hmap = 0") auto
qed

end
