(* ===== verification/Periodic_Timer.thy ===== *)
theory Periodic_Timer
  imports Manifest
begin

text \<open>
  The periodic timer of \<^verbatim>\<open>src/netchan_utils.c\<close>: creation with its checks, creation from
  channel attributes, and the step to the next cycle.  The clock readings and the return
  value of \<^verbatim>\<open>clock_nanosleep\<close> are arguments.
\<close>

definition CLOCK_REALTIME :: int where "CLOCK_REALTIME = 0"
definition CLOCK_MONOTONIC :: int where "CLOCK_MONOTONIC = 1"
definition CLOCK_TAI :: int where "CLOCK_TAI = 11"

lemmas clock_ids [nc_consts] = CLOCK_REALTIME_def CLOCK_MONOTONIC_def CLOCK_TAI_def

record periodic_timer =
  pt_ts :: timespec
  pt_phase_ns :: u64
  pt_clock_id :: int

definition pt_init ::
  "bool \<Rightarrow> (int \<Rightarrow> timespec) \<Rightarrow> u64 \<Rightarrow> u64 \<Rightarrow> int \<Rightarrow> periodic_timer option" where
  "pt_init malloc_ok clock_gettime base_ns phase_ns clockid =
     (if phase_ns < 100 * word_of_int NS_IN_US then None
      else if \<not> (clockid = CLOCK_REALTIME \<or> clockid = CLOCK_MONOTONIC \<or> clockid = CLOCK_TAI)
      then None
      else if \<not> malloc_ok then None
      else
        let now = clock_gettime clockid;
            pt = \<lparr>pt_ts = now, pt_phase_ns = phase_ns, pt_clock_id = clockid\<rparr>;
            time_now_ns = ts_u64 now
        in if base_ns \<noteq> 0
           then if base_ns < time_now_ns - phase_ns then None
                else Some (pt\<lparr>pt_ts := \<lparr>tv_sec = uint base_ns div NS_IN_SEC,
                                        tv_nsec = uint base_ns mod NS_IN_SEC\<rparr>\<rparr>)
           else Some pt)"

definition pt_init_from_attr ::
  "bool \<Rightarrow> (int \<Rightarrow> timespec) \<Rightarrow> channel_attrs option \<Rightarrow> periodic_timer option" where
  "pt_init_from_attr malloc_ok clock_gettime attr =
     (case attr of
        None \<Rightarrow> None
      | Some a \<Rightarrow> pt_init malloc_ok clock_gettime 0 (a_interval_ns a)
                   (if a_sc a = SC_TAS then CLOCK_TAI else CLOCK_REALTIME))"

text \<open>The new timer and the return value; the thread sleeps until \<open>pt_ts\<close>.\<close>

definition pt_next_cycle :: "int \<Rightarrow> periodic_timer option \<Rightarrow> periodic_timer option \<times> int" where
  "pt_next_cycle nanosleep_ret ptp =
     (case ptp of
        None \<Rightarrow> (None, -1)
      | Some pt \<Rightarrow>
          (Some (pt\<lparr>pt_ts := the (ts_add_ns (Some (pt_ts pt)) (pt_phase_ns pt))\<rparr>), nanosleep_ret))"

section \<open>Facts\<close>

definition pt_ok :: "periodic_timer \<Rightarrow> bool" where
  "pt_ok pt \<longleftrightarrow> ts_normal (pt_ts pt) \<and> uint (pt_phase_ns pt) < 2 ^ 62"

fun pt_cycles :: "nat \<Rightarrow> periodic_timer \<Rightarrow> periodic_timer" where
  "pt_cycles 0 pt = pt"
| "pt_cycles (Suc n) pt = pt_cycles n (the (fst (pt_next_cycle 0 (Some pt))))"

lemma pt_next_cycle_ts:
  "fst (pt_next_cycle r (Some pt)) = Some (pt\<lparr>pt_ts := ts_add (pt_ts pt) (uint (pt_phase_ns pt))\<rparr>)"
  by (simp add: pt_next_cycle_def ts_add_def)

lemma pt_cycles_ts:
  "pt_cycles n pt =
     pt\<lparr>pt_ts := ((\<lambda>t. ts_add t (uint (pt_phase_ns pt))) ^^ n) (pt_ts pt)\<rparr>"
  by (induction n arbitrary: pt) (simp_all add: pt_next_cycle_ts funpow_Suc_right del: funpow.simps(2))

lemma pt_init_ok:
  assumes "pt_init m clk base phase cid = Some pt" and "ts_normal (clk cid)" and "uint phase < 2 ^ 62"
  shows "pt_ok pt"
  using assms
  by (auto simp: pt_init_def pt_ok_def ts_normal_def Let_def split: if_splits)

section \<open>Properties\<close>

text \<open>C23: A periodic timer does not drift: the \<open>n\<close>-th wakeup of a timer that \<open>pt_init\<close> created is
  exactly \<open>n\<close> periods after the given base time (or after the creation time, without a base), and
  it is a valid absolute time.\<close>

theorem pt_no_drift:
  assumes "pt_init m clk base phase cid = Some pt"
    and "ts_normal (clk cid)" and "uint phase < 2 ^ 62"
  shows "ts_normal (pt_ts (pt_cycles n pt))
    \<and> ts_ns (pt_ts (pt_cycles n pt)) =
        (if base = 0 then ts_ns (clk cid) else uint base) + int n * uint phase"
proof -
  have ok: "pt_ok pt" by (rule pt_init_ok [OF assms])
  have "pt_phase_ns pt = phase" "ts_ns (pt_ts pt) = (if base = 0 then ts_ns (clk cid) else uint base)"
    using assms(1) by (auto simp: pt_init_def ts_ns_def Let_def split: if_splits)
  with ok show ?thesis
    using ts.iterate_normal [of "pt_ts pt" "uint phase" n] ts.iterate_exact [of "pt_ts pt" "uint phase" n]
    by (simp add: pt_cycles_ts pt_ok_def)
qed

theorem pt_no_drift_witness:
  "ts_ns (pt_ts (pt_cycles 1000 (the (pt_init True (\<lambda>_. \<lparr>tv_sec = 5, tv_nsec = 999999999\<rparr>) 0 1000000 CLOCK_TAI))))
     = 6999999999"
  using pt_no_drift [of True "\<lambda>_. \<lparr>tv_sec = 5, tv_nsec = 999999999\<rparr>" 0 1000000 CLOCK_TAI
      "\<lparr>pt_ts = \<lparr>tv_sec = 5, tv_nsec = 999999999\<rparr>, pt_phase_ns = 1000000, pt_clock_id = CLOCK_TAI\<rparr>" 1000]
  by (simp add: pt_init_def ts_normal_def ts_ns_def word_less_def)

end
