(* ===== verification/World.thy ===== *)
theory World
  imports Logger Callback_Map Periodic_Timer
begin

text \<open>
  The state that the operations of NetChan work on: the structs of \<^verbatim>\<open>include/netchan.h\<close>,
  \<^verbatim>\<open>include/netchan_srp_client.h\<close> and \<^verbatim>\<open>src/netchan.c\<close> as records, one heap per struct type,
  and what the process shares with the operating system (file descriptors, pipes, frames
  handed to the network, messages handed to the MRP daemon, files).

  Objects are at addresses; a heap maps an address to its object, or to \<open>None\<close> before
  allocation and after \<^verbatim>\<open>free\<close>.  A load or store through an address without an object gives
  \<open>None\<close> for the whole operation.  The allocator never reuses an address, so a
  dangling pointer stays recognisable.
\<close>

section \<open>Structs\<close>

record sockaddr_ll =
  sll_family :: int
  sll_protocol :: u16
  sll_halen :: nat
  sll_ifindex :: int
  sll_addr :: bytes

record sock_txtime =
  tt_clockid :: int
  tt_flags :: int

text \<open>\<^verbatim>\<open>ch->ops\<close>: one of the two static tables of \<^verbatim>\<open>src/netchan_socket.c\<close>.\<close>

datatype chan_send_ops = tas_ops | cbs_ops

record channel =
  ch_nh :: "addr option"
  ch_next :: "addr option"
  ch_sk_addr :: sockaddr_ll
  ch_dst :: bytes
  ch_sidw :: u64
  ch_remote_listener :: int
  ch_sc :: stream_class
  ch_pcp_prio :: int
  ch_ready :: bool
  ch_stopping :: bool
  ch_tx_sock :: int
  ch_tx_sock_prio :: int
  ch_use_so_txtime :: bool
  ch_ops :: "chan_send_ops option"
  ch_cbp :: "addr option"
  ch_fd_w :: int
  ch_fd_r :: int
  ch_payload_size :: u16
  ch_full_size :: u16
  ch_interval_ns :: u64
  ch_next_tx_ns :: u64
  ch_txtime :: sock_txtime
  ch_sample_ns :: u64
  ch_pdu :: avtpdu_cshdr
  ch_payload :: bytes

text \<open>The private area of a receive callback: metadata header and payload buffer.\<close>

record cb_priv =
  cb_sz :: int
  cb_fd :: int
  cb_meta :: pipe_meta
  cb_payload :: bytes

record srp =
  srp_tid :: nat
  srp_announcer :: nat
  srp_prio_a :: int
  srp_id_a :: int
  srp_valid_a :: bool
  srp_vid_a :: int
  srp_prio_b :: int
  srp_id_b :: int
  srp_valid_b :: bool
  srp_prio_tas :: int
  srp_vid_b :: int
  srp_sock :: int

text \<open>
  \<open>nh_hmap\<close> has \<^verbatim>\<open>hmap_sz\<close> slots; \<open>nh_tb\<close> says whether the trace marker file is open.
\<close>

record nethandler =
  nh_tx_head :: "addr option"
  nh_tx_tail :: "addr option"
  nh_rx_head :: "addr option"
  nh_rx_tail :: "addr option"
  nh_verbose :: bool
  nh_use_srp :: bool
  nh_tx_tas_sock_prio :: int
  nh_tx_cbs_sock_prio :: int
  nh_rx_sock :: int
  nh_link_speed :: u32
  nh_ifname :: string
  nh_is_lo :: bool
  nh_ifidx :: int
  nh_mac :: bytes
  nh_running :: bool
  nh_tid :: nat
  nh_srp :: "srp option"
  nh_ptp_fd :: int
  nh_dma_lat_fd :: int
  nh_ftrace_break_us :: int
  nh_tb :: bool
  nh_logger :: "logc option"
  nh_hmap :: hmap

text \<open>Objects from \<^verbatim>\<open>calloc\<close>: all bytes zero, and \<open>n\<close> bytes behind the channel for its payload.\<close>

definition zero_channel :: "nat \<Rightarrow> channel" where
  "zero_channel n =
     \<lparr>ch_nh = None, ch_next = None,
      ch_sk_addr = \<lparr>sll_family = 0, sll_protocol = 0, sll_halen = 0, sll_ifindex = 0,
                    sll_addr = replicate 8 0\<rparr>,
      ch_dst = replicate 6 0, ch_sidw = 0, ch_remote_listener = 0, ch_sc = SC_undeclared 0,
      ch_pcp_prio = 0, ch_ready = False, ch_stopping = False, ch_tx_sock = 0, ch_tx_sock_prio = 0,
      ch_use_so_txtime = False, ch_ops = None, ch_cbp = None, ch_fd_w = 0, ch_fd_r = 0,
      ch_payload_size = 0, ch_full_size = 0, ch_interval_ns = 0, ch_next_tx_ns = 0,
      ch_txtime = \<lparr>tt_clockid = 0, tt_flags = 0\<rparr>, ch_sample_ns = 0,
      ch_pdu = pdu_of_bytes (replicate 24 0), ch_payload = replicate n 0\<rparr>"

definition zero_nethandler :: nethandler where
  "zero_nethandler =
     \<lparr>nh_tx_head = None, nh_tx_tail = None, nh_rx_head = None, nh_rx_tail = None,
      nh_verbose = False, nh_use_srp = False, nh_tx_tas_sock_prio = 0, nh_tx_cbs_sock_prio = 0,
      nh_rx_sock = 0, nh_link_speed = 0, nh_ifname = [], nh_is_lo = False, nh_ifidx = 0,
      nh_mac = replicate 6 0, nh_running = False, nh_tid = 0, nh_srp = None, nh_ptp_fd = 0,
      nh_dma_lat_fd = 0, nh_ftrace_break_us = 0, nh_tb = False, nh_logger = None, nh_hmap = []\<rparr>"

section \<open>The process and the operating system\<close>

datatype fdesc = Fd_pipe_r addr | Fd_pipe_w addr | Fd_other

record pipe =
  pb_buf :: bytes
  pb_ropen :: bool
  pb_wopen :: bool

text \<open>A frame given to \<^verbatim>\<open>sendto\<close> or \<^verbatim>\<open>sendmsg\<close>; \<open>fr_txtime\<close> is the \<^verbatim>\<open>SCM_TXTIME\<close> control message.\<close>

record tx_frame =
  fr_sock :: int
  fr_addr :: sockaddr_ll
  fr_bytes :: bytes
  fr_txtime :: "u64 option"

record world =
  w_ch :: "addr \<Rightarrow> channel option"
  w_nh :: "addr \<Rightarrow> nethandler option"
  w_cb :: "addr \<Rightarrow> cb_priv option"
  w_fresh :: addr
  w_fds :: "int \<Rightarrow> fdesc option"
  w_pipes :: "addr \<Rightarrow> pipe option"
  w_net :: "tx_frame list"
  w_mrp :: "(int \<times> string) list"
  w_files :: files
  w_sleep :: "(int \<times> timespec) list"
  w_tick :: nat

definition empty_world :: world where
  "empty_world = \<lparr>w_ch = Map.empty, w_nh = Map.empty, w_cb = Map.empty, w_fresh = 100,
     w_fds = Map.empty, w_pipes = Map.empty, w_net = [], w_mrp = [], w_files = [], w_sleep = [], w_tick = 0\<rparr>"

section \<open>Loads and stores\<close>

definition get_ch :: "world \<Rightarrow> addr option \<Rightarrow> channel option" where
  "get_ch w p = deref (w_ch w) p"

definition get_nh :: "world \<Rightarrow> addr option \<Rightarrow> nethandler option" where
  "get_nh w p = deref (w_nh w) p"

definition get_cb :: "world \<Rightarrow> addr option \<Rightarrow> cb_priv option" where
  "get_cb w p = deref (w_cb w) p"

definition set_ch :: "addr \<Rightarrow> channel \<Rightarrow> world \<Rightarrow> world" where
  "set_ch a c w = w\<lparr>w_ch := (w_ch w)(a \<mapsto> c)\<rparr>"

definition set_nh :: "addr \<Rightarrow> nethandler \<Rightarrow> world \<Rightarrow> world" where
  "set_nh a n w = w\<lparr>w_nh := (w_nh w)(a \<mapsto> n)\<rparr>"

definition set_cb :: "addr \<Rightarrow> cb_priv \<Rightarrow> world \<Rightarrow> world" where
  "set_cb a c w = w\<lparr>w_cb := (w_cb w)(a \<mapsto> c)\<rparr>"

lemmas heap_defs [simp] = get_ch_def get_nh_def get_cb_def set_ch_def set_nh_def set_cb_def

text \<open>
  A store through a pointer: \<open>upd_ch p f w\<close> is \<^verbatim>\<open>p->field = ...\<close> for one or several fields.
\<close>

definition upd_ch :: "addr \<Rightarrow> (channel \<Rightarrow> channel) \<Rightarrow> world \<Rightarrow> world option" where
  "upd_ch a f w = map_option (\<lambda>c. set_ch a (f c) w) (w_ch w a)"

definition upd_nh :: "addr \<Rightarrow> (nethandler \<Rightarrow> nethandler) \<Rightarrow> world \<Rightarrow> world option" where
  "upd_nh a f w = map_option (\<lambda>n. set_nh a (f n) w) (w_nh w a)"

definition upd_cb :: "addr \<Rightarrow> (cb_priv \<Rightarrow> cb_priv) \<Rightarrow> world \<Rightarrow> world option" where
  "upd_cb a f w = map_option (\<lambda>c. set_cb a (f c) w) (w_cb w a)"

lemma upd_ch_Some [simp]: "w_ch w a = Some c \<Longrightarrow> upd_ch a f w = Some (set_ch a (f c) w)"
  by (simp add: upd_ch_def)

lemma upd_nh_Some [simp]: "w_nh w a = Some n \<Longrightarrow> upd_nh a f w = Some (set_nh a (f n) w)"
  by (simp add: upd_nh_def)

lemma upd_cb_Some [simp]: "w_cb w a = Some c \<Longrightarrow> upd_cb a f w = Some (set_cb a (f c) w)"
  by (simp add: upd_cb_def)

lemma upd_None [simp]:
  "w_ch w a = None \<Longrightarrow> upd_ch a f w = None"
  "w_nh w a = None \<Longrightarrow> upd_nh a g w = None"
  "w_cb w a = None \<Longrightarrow> upd_cb a h w = None"
  by (simp_all add: upd_ch_def upd_nh_def upd_cb_def)

section \<open>The answers of the operating system\<close>

text \<open>
  What the kernel and the C library decide is an environment: for every kind of call, the
  answer it gives at tick \<open>t\<close>.  Every call that consults it advances \<open>w_tick\<close>, so two calls
  need not get the same answer.  \<open>os_room\<close> is the room of a pipe for a write;
  \<open>os_heap_byte\<close> is what \<^verbatim>\<open>malloc\<close>ed memory holds before it is written.  \<open>os_ioctl\<close> gives the bytes
  of the answer to a request, and \<open>os_call\<close> the result of the calls, by name, that only succeed
  or fail (\<^verbatim>\<open>bind\<close>, \<^verbatim>\<open>mlockall\<close>, a write to a device).
\<close>

record os =
  os_clock :: "nat \<Rightarrow> int \<Rightarrow> timespec option"
  os_ptp_clock :: "nat \<Rightarrow> u32 \<Rightarrow> timespec option"
  os_nanosleep :: "nat \<Rightarrow> int"
  os_cond_timedwait :: "nat \<Rightarrow> int"
  os_malloc :: "nat \<Rightarrow> bool"
  os_heap_byte :: "nat \<Rightarrow> nat \<Rightarrow> u8"
  os_mutex_init :: "nat \<Rightarrow> int"
  os_pipe_fds :: "nat \<Rightarrow> (int \<times> int) option"
  os_socket :: "nat \<Rightarrow> int"
  os_setsockopt :: "nat \<Rightarrow> int"
  os_room :: "bytes \<Rightarrow> nat \<Rightarrow> bool"
  os_send :: "nat \<Rightarrow> tx_frame \<Rightarrow> int"
  os_poll_err :: "nat \<Rightarrow> bool"
  os_errqueue :: "nat \<Rightarrow> (nat \<times> nat) list option"
  os_mrp_send :: "nat \<Rightarrow> int \<Rightarrow> string \<Rightarrow> int"
  os_fopen :: "string \<Rightarrow> bool"
  os_log_allocs :: "nat \<Rightarrow> log_allocs"
  os_pthread_create :: "nat \<Rightarrow> nat option"
  os_open :: "nat \<Rightarrow> string \<Rightarrow> int"
  os_ioctl :: "nat \<Rightarrow> string \<Rightarrow> bytes option"
  os_call :: "nat \<Rightarrow> string \<Rightarrow> int"

definition tick :: "world \<Rightarrow> world" where
  "tick w = w\<lparr>w_tick := Suc (w_tick w)\<rparr>"

lemma tick_fields [simp]:
  "w_ch (tick w) = w_ch w" "w_nh (tick w) = w_nh w" "w_cb (tick w) = w_cb w"
  "w_fresh (tick w) = w_fresh w" "w_fds (tick w) = w_fds w" "w_pipes (tick w) = w_pipes w"
  "w_net (tick w) = w_net w" "w_mrp (tick w) = w_mrp w" "w_files (tick w) = w_files w"
  "w_tick (tick w) = Suc (w_tick w)" "w_sleep (tick w) = w_sleep w"
  by (simp_all add: tick_def)

text \<open>
  Reading a clock; a failing \<^verbatim>\<open>clock_gettime\<close> leaves the result uninitialised, which the
  callers of \<open>read_clock\<close> do not check (\<open>None\<close>).
\<close>

definition read_clock :: "os \<Rightarrow> int \<Rightarrow> world \<Rightarrow> (timespec \<times> world) option" where
  "read_clock os cid w = map_option (\<lambda>ts. (ts, tick w)) (os_clock os (w_tick w) cid)"

definition read_tai :: "os \<Rightarrow> world \<Rightarrow> (u64 \<times> world) option" where
  "read_tai os w = do { (ts, w) \<leftarrow> read_clock os CLOCK_TAI w; Some (tai_get_ns ts, w) }"

definition read_real :: "os \<Rightarrow> world \<Rightarrow> (u64 \<times> world) option" where
  "read_real os w = do { (ts, w) \<leftarrow> read_clock os CLOCK_REALTIME w; Some (real_get_ns ts, w) }"

definition read_ptp :: "os \<Rightarrow> int \<Rightarrow> world \<Rightarrow> u64 \<times> world" where
  "read_ptp os ptp_fd w = (get_ptp_ts_ns (os_ptp_clock os (w_tick w)) ptp_fd, tick w)"

text \<open>\<^verbatim>\<open>clock_nanosleep(cid, TIMER_ABSTIME, &ts, NULL)\<close>; \<open>w_sleep\<close> keeps what was waited for.\<close>

definition os_sleep_until :: "os \<Rightarrow> int \<Rightarrow> timespec \<Rightarrow> world \<Rightarrow> int \<times> world" where
  "os_sleep_until os cid ts w =
     (os_nanosleep os (w_tick w), (tick w)\<lparr>w_sleep := w_sleep w @ [(cid, ts)]\<rparr>)"

text \<open>\<^verbatim>\<open>free\<close> of an object; freeing what is not allocated faults.\<close>

definition free_ch :: "addr \<Rightarrow> world \<Rightarrow> world option" where
  "free_ch a w = (if w_ch w a = None then None else Some (w\<lparr>w_ch := (w_ch w)(a := None)\<rparr>))"

definition free_cb :: "addr option \<Rightarrow> world \<Rightarrow> world option" where
  "free_cb p w =
     (case p of
        None \<Rightarrow> Some w
      | Some a \<Rightarrow> if w_cb w a = None then None else Some (w\<lparr>w_cb := (w_cb w)(a := None)\<rparr>))"

definition free_nh :: "addr \<Rightarrow> world \<Rightarrow> world option" where
  "free_nh a w = (if w_nh w a = None then None else Some (w\<lparr>w_nh := (w_nh w)(a := None)\<rparr>))"

text \<open>The logger of a nethandler, called with the files of the world.\<close>

definition with_logger ::
  "(logc option \<Rightarrow> files \<Rightarrow> (logc option \<times> files) option) \<Rightarrow> addr \<Rightarrow> world \<Rightarrow> world option" where
  "with_logger f nh w = do {
     n \<leftarrow> w_nh w nh;
     (lg, fs) \<leftarrow> f (nh_logger n) (w_files w);
     Some (set_nh nh (n\<lparr>nh_logger := lg\<rparr>) (w\<lparr>w_files := fs\<rparr>))
   }"

section \<open>System calls on descriptors\<close>

text \<open>
  \<^verbatim>\<open>write\<close> on a pipe appends, and blocks while the kernel's buffer has no room: \<open>room\<close>
  is the kernel's decision, given the buffered bytes and the size of the write.  A write
  without a reader raises \<^verbatim>\<open>SIGPIPE\<close>.  \<^verbatim>\<open>read\<close> blocks on an empty pipe that still has a
  writer.  Descriptors that are no pipes (a closed one, or another kind of file) are
  answered by \<^verbatim>\<open>-1\<close>.
\<close>

definition os_write :: "(bytes \<Rightarrow> nat \<Rightarrow> bool) \<Rightarrow> int \<Rightarrow> bytes \<Rightarrow> world \<Rightarrow> (int \<times> world) option" where
  "os_write room fd data w =
     (case w_fds w fd of
        Some (Fd_pipe_w p) \<Rightarrow> do {
          pb \<leftarrow> w_pipes w p;
          if \<not> pb_ropen pb \<or> \<not> room (pb_buf pb) (length data) then None
          else Some (int (length data),
                     w\<lparr>w_pipes := (w_pipes w)(p \<mapsto> pb\<lparr>pb_buf := pb_buf pb @ data\<rparr>)\<rparr>)
        }
      | _ \<Rightarrow> Some (-1, w))"

definition os_read :: "int \<Rightarrow> nat \<Rightarrow> world \<Rightarrow> ((int \<times> bytes) \<times> world) option" where
  "os_read fd n w =
     (case w_fds w fd of
        Some (Fd_pipe_r p) \<Rightarrow> do {
          pb \<leftarrow> w_pipes w p;
          if pb_buf pb = [] \<and> pb_wopen pb then None
          else let got = take n (pb_buf pb)
               in Some ((int (length got), got),
                        w\<lparr>w_pipes := (w_pipes w)(p \<mapsto> pb\<lparr>pb_buf := drop n (pb_buf pb)\<rparr>)\<rparr>)
        }
      | _ \<Rightarrow> Some ((-1, []), w))"

definition os_close :: "int \<Rightarrow> world \<Rightarrow> world" where
  "os_close fd w =
     (let w' = w\<lparr>w_fds := (w_fds w)(fd := None)\<rparr>
      in case w_fds w fd of
           Some (Fd_pipe_r p) \<Rightarrow>
             w'\<lparr>w_pipes := (w_pipes w)(p := map_option (\<lambda>pb. pb\<lparr>pb_ropen := False\<rparr>) (w_pipes w p))\<rparr>
         | Some (Fd_pipe_w p) \<Rightarrow>
             w'\<lparr>w_pipes := (w_pipes w)(p := map_option (\<lambda>pb. pb\<lparr>pb_wopen := False\<rparr>) (w_pipes w p))\<rparr>
         | _ \<Rightarrow> w')"

text \<open>\<^verbatim>\<open>pipe(pfd)\<close> with the two descriptors the kernel chose.\<close>

definition os_pipe :: "int \<Rightarrow> int \<Rightarrow> world \<Rightarrow> world" where
  "os_pipe r wr w =
     w\<lparr>w_fds := (w_fds w)(r \<mapsto> Fd_pipe_r (w_fresh w), wr \<mapsto> Fd_pipe_w (w_fresh w)),
       w_pipes := (w_pipes w)(w_fresh w \<mapsto> \<lparr>pb_buf = [], pb_ropen = True, pb_wopen = True\<rparr>),
       w_fresh := w_fresh w + 1\<rparr>"

lemma os_close_heaps [simp]:
  "w_ch (os_close fd w) = w_ch w" "w_nh (os_close fd w) = w_nh w" "w_cb (os_close fd w) = w_cb w"
  "w_fresh (os_close fd w) = w_fresh w" "w_net (os_close fd w) = w_net w"
  "w_mrp (os_close fd w) = w_mrp w" "w_files (os_close fd w) = w_files w" "w_tick (os_close fd w) = w_tick w" "w_sleep (os_close fd w) = w_sleep w"
  by (simp_all add: os_close_def Let_def split: option.splits fdesc.splits)

lemma os_pipe_heaps [simp]:
  "w_ch (os_pipe r wr w) = w_ch w" "w_nh (os_pipe r wr w) = w_nh w" "w_cb (os_pipe r wr w) = w_cb w"
  "w_net (os_pipe r wr w) = w_net w" "w_mrp (os_pipe r wr w) = w_mrp w"
  "w_files (os_pipe r wr w) = w_files w" "w_tick (os_pipe r wr w) = w_tick w" "w_sleep (os_pipe r wr w) = w_sleep w" "w_fresh (os_pipe r wr w) = w_fresh w + 1"
  by (simp_all add: os_pipe_def)

lemma os_write_heaps:
  assumes "os_write room fd data w = Some (r, w')"
  shows "w_ch w' = w_ch w" "w_nh w' = w_nh w" "w_cb w' = w_cb w" "w_fresh w' = w_fresh w"
    "w_net w' = w_net w" "w_mrp w' = w_mrp w" "w_files w' = w_files w" "w_fds w' = w_fds w"
    "w_tick w' = w_tick w" "w_sleep w' = w_sleep w"
  using assms by (auto simp: os_write_def bind_Some_iff split: option.splits fdesc.splits if_splits)

lemma os_read_heaps:
  assumes "os_read fd n w = Some (r, w')"
  shows "w_ch w' = w_ch w" "w_nh w' = w_nh w" "w_cb w' = w_cb w" "w_fresh w' = w_fresh w"
    "w_net w' = w_net w" "w_mrp w' = w_mrp w" "w_files w' = w_files w" "w_fds w' = w_fds w"
    "w_tick w' = w_tick w" "w_sleep w' = w_sleep w"
  using assms
  by (auto simp: os_read_def bind_Some_iff Let_def split: option.splits fdesc.splits if_splits)

text \<open>A pipe with both ends open and what it holds: a write appends, a read takes from the front.\<close>

definition pipe_at :: "world \<Rightarrow> int \<Rightarrow> int \<Rightarrow> bytes \<Rightarrow> bool" where
  "pipe_at w r wr buf \<longleftrightarrow>
     (\<exists>p pb. w_fds w r = Some (Fd_pipe_r p) \<and> w_fds w wr = Some (Fd_pipe_w p)
        \<and> w_pipes w p = Some pb \<and> pb_buf pb = buf \<and> pb_ropen pb \<and> pb_wopen pb)"

lemma os_write_pipe:
  assumes "pipe_at w r wr buf" "room buf (length data)"
  shows "\<exists>w'. os_write room wr data w = Some (int (length data), w') \<and> pipe_at w' r wr (buf @ data)"
  using assms by (fastforce simp: os_write_def pipe_at_def)

lemma os_read_pipe:
  assumes "pipe_at w r wr buf" "buf \<noteq> []"
  shows "\<exists>w'. os_read r n w = Some ((int (length (take n buf)), take n buf), w')
    \<and> pipe_at w' r wr (drop n buf)"
  using assms by (fastforce simp: os_read_def pipe_at_def Let_def)

text \<open>A write that returns: the descriptor is no pipe, or its pipe has a reader and room.\<close>

definition can_write :: "os \<Rightarrow> world \<Rightarrow> int \<Rightarrow> nat \<Rightarrow> bool" where
  "can_write os w fd n \<longleftrightarrow>
     (\<forall>p. w_fds w fd = Some (Fd_pipe_w p) \<longrightarrow>
        (\<exists>pb. w_pipes w p = Some pb \<and> pb_ropen pb \<and> os_room os (pb_buf pb) n))"

lemma os_write_returns:
  "can_write os w fd (length d) \<Longrightarrow> \<exists>r w'. os_write (os_room os) fd d w = Some (r, w')"
  by (auto simp: can_write_def os_write_def split: option.splits fdesc.splits)

lemma can_write_pipe_at: "pipe_at w r wr buf \<Longrightarrow> os_room os buf n \<Longrightarrow> can_write os w wr n"
  by (auto simp: can_write_def pipe_at_def)

lemma can_write_cong:
  "w_fds w' = w_fds w \<Longrightarrow> w_pipes w' = w_pipes w \<Longrightarrow> can_write os w' fd n = can_write os w fd n"
  by (simp add: can_write_def)

lemma pipe_at_cong:
  "w_fds w' = w_fds w \<Longrightarrow> w_pipes w' = w_pipes w \<Longrightarrow> pipe_at w' r wr buf = pipe_at w r wr buf"
  by (simp add: pipe_at_def)

lemma read_clock_Some:
  "read_clock os cid w = Some (ts, w') \<longleftrightarrow> os_clock os (w_tick w) cid = Some ts \<and> w' = tick w"
  by (auto simp: read_clock_def)

end
