(* ===== verification/Chan_List.thy ===== *)
theory Chan_List
  imports World
begin

text \<open>
  The intrusive lists of Tx and Rx channels of a nethandler (\<^verbatim>\<open>src/netchan.c\<close>): length,
  append, unlink, removal, and the search by stream id.  A walk along \<^verbatim>\<open>next\<close> pointers is a
  \<open>partial_function\<close>: \<open>None\<close> when it meets a dangling pointer or runs in a circle.

  The locale \<open>channel_registry\<close> is the contract; \<open>linked_list\<close> derives it from the code's
  equations, once for both lists.
\<close>

section \<open>Operations\<close>

partial_function (option) get_len_loop :: "world \<Rightarrow> addr \<Rightarrow> int \<Rightarrow> int option" where
  "get_len_loop w head len = do {
     c \<leftarrow> w_ch w head;
     case ch_next c of
       None \<Rightarrow> Some (len + 1)
     | Some head' \<Rightarrow> get_len_loop w head' (len + 1)
   }"

definition i_nh_get_len :: "world \<Rightarrow> addr option \<Rightarrow> int option" where
  "i_nh_get_len w head = (case head of None \<Rightarrow> Some 0 | Some a \<Rightarrow> get_len_loop w a 0)"

definition nh_get_num_tx :: "world \<Rightarrow> addr option \<Rightarrow> int option" where
  "nh_get_num_tx w nh = do { n \<leftarrow> get_nh w nh; i_nh_get_len w (nh_tx_head n) }"

definition nh_get_num_rx :: "world \<Rightarrow> addr option \<Rightarrow> int option" where
  "nh_get_num_rx w nh = do { n \<leftarrow> get_nh w nh; i_nh_get_len w (nh_rx_head n) }"

definition nh_add_tx :: "addr option \<Rightarrow> addr option \<Rightarrow> world \<Rightarrow> (int \<times> world) option" where
  "nh_add_tx nhp dup w =
     (case (nhp, dup) of
        (Some nh, Some du) \<Rightarrow> do {
          n \<leftarrow> w_nh w nh;
          if nh_tx_head n = None
          then Some (0, set_nh nh (n\<lparr>nh_tx_head := Some du, nh_tx_tail := Some du\<rparr>) w)
          else do {
            t \<leftarrow> nh_tx_tail n;
            w \<leftarrow> upd_ch t (\<lambda>c. c\<lparr>ch_next := Some du\<rparr>) w;
            Some (0, set_nh nh (n\<lparr>nh_tx_tail := Some du\<rparr>) w)
          }
        }
      | _ \<Rightarrow> Some (- EINVAL, w))"

definition nh_add_rx :: "addr option \<Rightarrow> addr option \<Rightarrow> world \<Rightarrow> (int \<times> world) option" where
  "nh_add_rx nhp dup w =
     (case (nhp, dup) of
        (Some nh, Some du) \<Rightarrow> do {
          n \<leftarrow> w_nh w nh;
          if nh_rx_head n = None
          then Some (0, set_nh nh (n\<lparr>nh_rx_head := Some du, nh_rx_tail := Some du\<rparr>) w)
          else do {
            t \<leftarrow> nh_rx_tail n;
            w \<leftarrow> upd_ch t (\<lambda>c. c\<lparr>ch_next := Some du\<rparr>) w;
            Some (0, set_nh nh (n\<lparr>nh_rx_tail := Some du\<rparr>) w)
          }
        }
      | _ \<Rightarrow> Some (- EINVAL, w))"

partial_function (option) unlink_loop :: "addr \<Rightarrow> addr \<Rightarrow> world \<Rightarrow> (int \<times> world) option" where
  "unlink_loop head rem w = do {
     c \<leftarrow> w_ch w head;
     if ch_next c = Some rem
     then do {
       r \<leftarrow> w_ch w rem;
       Some (0, set_ch head (c\<lparr>ch_next := ch_next r\<rparr>) w)
     }
     else (case ch_next c of
             None \<Rightarrow> Some (- EINVAL, w)
           | Some head' \<Rightarrow> unlink_loop head' rem w)
   }"

definition i_nh_unlink_ch :: "addr option \<Rightarrow> addr option \<Rightarrow> world \<Rightarrow> (int \<times> world) option" where
  "i_nh_unlink_ch head rem w =
     (case (head, rem) of
        (Some h, Some r) \<Rightarrow> unlink_loop h r w
      | _ \<Rightarrow> Some (- ENOMEM, w))"

definition nh_remove_tx :: "addr option \<Rightarrow> world \<Rightarrow> (int \<times> world) option" where
  "nh_remove_tx chp w =
     (case chp of
        None \<Rightarrow> Some (- ENOMEM, w)
      | Some ch \<Rightarrow> do {
          c \<leftarrow> w_ch w ch;
          (case ch_nh c of
             None \<Rightarrow> Some (- ENOMEM, w)
           | Some nh \<Rightarrow> do {
               n \<leftarrow> w_nh w nh;
               (r, w) \<leftarrow>
                 (if nh_tx_head n = Some ch
                  then Some (0, set_nh nh (n\<lparr>nh_tx_head := ch_next c\<rparr>) w)
                  else i_nh_unlink_ch (nh_tx_head n) (Some ch) w);
               if r < 0 then Some (-1, w)
               else do {
                 w \<leftarrow> upd_ch ch (\<lambda>c. c\<lparr>ch_next := None, ch_nh := None\<rparr>) w;
                 Some (0, w)
               }
             })
        })"

definition nh_remove_rx :: "addr option \<Rightarrow> world \<Rightarrow> (int \<times> world) option" where
  "nh_remove_rx chp w =
     (case chp of
        None \<Rightarrow> Some (- ENOMEM, w)
      | Some ch \<Rightarrow> do {
          c \<leftarrow> w_ch w ch;
          (case ch_nh c of
             None \<Rightarrow> Some (- ENOMEM, w)
           | Some nh \<Rightarrow> do {
               n \<leftarrow> w_nh w nh;
               (r, w) \<leftarrow>
                 (if nh_rx_head n = Some ch
                  then Some (0, set_nh nh (n\<lparr>nh_rx_head := ch_next c\<rparr>) w)
                  else i_nh_unlink_ch (nh_rx_head n) (Some ch) w);
               if r < 0 then Some (-1, w)
               else do {
                 w \<leftarrow> upd_ch ch (\<lambda>c. c\<lparr>ch_next := None, ch_nh := None\<rparr>) w;
                 Some (0, w)
               }
             })
        })"

partial_function (option) find_sid_loop :: "world \<Rightarrow> addr \<Rightarrow> u64 \<Rightarrow> addr option option" where
  "find_sid_loop w ch stream = do {
     c \<leftarrow> w_ch w ch;
     if ch_sidw c = stream then Some (Some ch)
     else (case ch_next c of
             None \<Rightarrow> Some None
           | Some ch' \<Rightarrow> find_sid_loop w ch' stream)
   }"

text \<open>The inner \<open>option\<close> is the returned channel pointer.\<close>

definition get_tx_chan_from_sid :: "world \<Rightarrow> addr option \<Rightarrow> u64 \<Rightarrow> addr option option" where
  "get_tx_chan_from_sid w nhp stream = do {
     n \<leftarrow> get_nh w nhp;
     (case nh_tx_head n of None \<Rightarrow> Some None | Some ch \<Rightarrow> find_sid_loop w ch stream)
   }"

definition get_rx_chan_from_sid :: "world \<Rightarrow> addr option \<Rightarrow> u64 \<Rightarrow> addr option option" where
  "get_rx_chan_from_sid w nhp stream =
     (case nhp of
        None \<Rightarrow> do { idx \<leftarrow> get_hm_idx None stream; Some None }
      | Some nh \<Rightarrow> do {
          n \<leftarrow> w_nh w nh;
          idx \<leftarrow> get_hm_idx (Some (nh_hmap n)) stream;
          if idx < 0 then Some None
          else (case nh_rx_head n of None \<Rightarrow> Some None | Some ch \<Rightarrow> find_sid_loop w ch stream)
        })"

section \<open>Chains\<close>

type_synonym ch_heap = "addr \<Rightarrow> channel option"

primrec chain :: "ch_heap \<Rightarrow> addr option \<Rightarrow> addr list \<Rightarrow> bool" where
  "chain h p [] \<longleftrightarrow> p = None"
| "chain h p (a # as) \<longleftrightarrow> p = Some a \<and> (\<exists>c. h a = Some c \<and> chain h (ch_next c) as)"

text \<open>An open chain: from \<open>p\<close> along \<open>as\<close> to the pointer \<open>q\<close>.\<close>

primrec seg :: "ch_heap \<Rightarrow> addr option \<Rightarrow> addr list \<Rightarrow> addr option \<Rightarrow> bool" where
  "seg h p [] q \<longleftrightarrow> p = q"
| "seg h p (a # as) q \<longleftrightarrow> p = Some a \<and> (\<exists>c. h a = Some c \<and> seg h (ch_next c) as q)"

lemma chain_append: "chain h p (as @ bs) \<longleftrightarrow> (\<exists>q. seg h p as q \<and> chain h q bs)"
  by (induction as arbitrary: p) auto

lemma chain_unique: "chain h p as \<Longrightarrow> chain h p bs \<Longrightarrow> as = bs"
proof (induction as arbitrary: p bs)
  case Nil
  then show ?case by (cases bs) auto
next
  case (Cons a as)
  then show ?case by (cases bs) auto
qed

lemma chain_None_iff: "chain h None as \<longleftrightarrow> as = []"
  by (cases as) auto

lemma chain_alloc: "chain h p as \<Longrightarrow> a \<in> set as \<Longrightarrow> h a \<noteq> None"
  by (induction as arbitrary: p) auto

lemma chain_distinct: "chain h p as \<Longrightarrow> distinct as"
proof (induction as arbitrary: p)
  case (Cons a as)
  then obtain c where c: "h a = Some c" "chain h (ch_next c) as" by auto
  have "a \<notin> set as"
  proof
    assume "a \<in> set as"
    then obtain bs cs where as: "as = bs @ a # cs" by (auto simp: in_set_conv_decomp)
    with c(2) obtain q where "chain h q (a # cs)" by (auto simp: chain_append)
    with c(1) have "chain h (ch_next c) cs" by auto
    with c(2) have "as = cs" by (rule chain_unique)
    with as show False by (metis append_self_conv2 length_Cons length_append not_add_less2 lessI)
  qed
  with c Cons.IH show ?case by auto
qed simp

lemma chain_cong:
  "(\<And>a. a \<in> set as \<Longrightarrow> map_option ch_next (h a) = map_option ch_next (h' a)) \<Longrightarrow>
    chain h p as \<longleftrightarrow> chain h' p as"
proof (induction as arbitrary: p)
  case (Cons a as)
  from Cons.prems [of a] have "map_option ch_next (h a) = map_option ch_next (h' a)" by simp
  with Cons show ?case by (cases "h a"; cases "h' a") auto
qed simp

lemma seg_cong:
  "(\<And>a. a \<in> set as \<Longrightarrow> map_option ch_next (h a) = map_option ch_next (h' a)) \<Longrightarrow>
    seg h p as q \<longleftrightarrow> seg h' p as q"
proof (induction as arbitrary: p)
  case (Cons a as)
  from Cons.prems [of a] have "map_option ch_next (h a) = map_option ch_next (h' a)" by simp
  with Cons show ?case by (cases "h a"; cases "h' a") auto
qed simp

lemma chain_upd [simp]: "a \<notin> set as \<Longrightarrow> chain (h(a := x)) p as \<longleftrightarrow> chain h p as"
  by (rule chain_cong) auto

lemma seg_upd [simp]: "a \<notin> set as \<Longrightarrow> seg (h(a := x)) p as q \<longleftrightarrow> seg h p as q"
  by (rule seg_cong) auto

text \<open>The walks over a chain.\<close>

lemma get_len_loop_chain:
  "chain (w_ch w) (Some a) as \<Longrightarrow> get_len_loop w a len = Some (len + int (length as))"
proof (induction as arbitrary: a len)
  case (Cons b as)
  then obtain c where c: "b = a" "w_ch w a = Some c" "chain (w_ch w) (ch_next c) as" by auto
  show ?case
  proof (cases "ch_next c")
    case None
    with c show ?thesis by (simp add: get_len_loop.simps chain_None_iff)
  next
    case (Some a')
    with c Cons.IH [of a' "len + 1"] show ?thesis by (subst get_len_loop.simps) simp
  qed
qed simp

lemma i_nh_get_len_chain: "chain (w_ch w) p as \<Longrightarrow> i_nh_get_len w p = Some (int (length as))"
  by (cases p) (auto simp: i_nh_get_len_def chain_None_iff get_len_loop_chain)

lemma find_sid_loop_chain:
  "chain (w_ch w) (Some a) as \<Longrightarrow>
    find_sid_loop w a s = Some (find (\<lambda>x. map_option ch_sidw (w_ch w x) = Some s) as)"
proof (induction as arbitrary: a)
  case (Cons b as)
  then obtain c where c: "b = a" "w_ch w a = Some c" "chain (w_ch w) (ch_next c) as" by auto
  show ?case
  proof (cases "ch_next c")
    case None
    with c show ?thesis by (subst find_sid_loop.simps) (simp add: chain_None_iff)
  next
    case (Some a')
    with c Cons.IH [of a'] show ?thesis by (subst find_sid_loop.simps) simp
  qed
qed simp

lemma unlink_loop_found:
  assumes "chain (w_ch w) (Some h) (as @ x # r # bs)" "w_ch w x = Some cx" "w_ch w r = Some cr"
  shows "unlink_loop h r w = Some (0, set_ch x (cx\<lparr>ch_next := ch_next cr\<rparr>) w)"
  using assms
proof (induction as arbitrary: h)
  case Nil
  then show ?case by (subst unlink_loop.simps) auto
next
  case (Cons a as)
  from Cons.prems(1) have "distinct (a # as @ x # r # bs)" using chain_distinct by fastforce
  moreover from Cons.prems(1) obtain c where c: "h = a" "w_ch w a = Some c"
    "chain (w_ch w) (ch_next c) (as @ x # r # bs)" by auto
  moreover from c(3) obtain h' where h': "ch_next c = Some h'" "h' = hd (as @ [x])"
    by (cases as) auto
  ultimately have "h' \<noteq> r" by (cases as) auto
  with c h' Cons.IH [of h'] Cons.prems(2,3) show ?case
    by (subst unlink_loop.simps) simp
qed

lemma unlink_loop_missing:
  "chain (w_ch w) (Some h) as \<Longrightarrow> r \<notin> set as \<Longrightarrow> unlink_loop h r w = Some (- EINVAL, w)"
proof (induction as arbitrary: h)
  case (Cons a as)
  then obtain c where c: "h = a" "w_ch w a = Some c" "chain (w_ch w) (ch_next c) as" by auto
  show ?case
  proof (cases "ch_next c")
    case None
    with c show ?thesis by (subst unlink_loop.simps) simp
  next
    case (Some h')
    with c(3) have "h' \<in> set as" by (cases as) auto
    with Cons.prems have "h' \<noteq> r" by auto
    with Some c Cons.IH [of h'] Cons.prems show ?thesis by (subst unlink_loop.simps) simp
  qed
qed simp

section \<open>The contract of a channel registry\<close>

text \<open>
  \<open>repr w xs tp\<close>: the registry holds the channels \<open>xs\<close> in order, and its tail pointer is
  \<open>tp\<close>.  Removal leaves the tail pointer alone, so appending is promised only while the
  tail pointer names the last channel (\<open>tail_ok\<close>).
\<close>

definition tail_ok :: "addr list \<Rightarrow> addr option \<Rightarrow> bool" where
  "tail_ok xs tp \<longleftrightarrow> (xs \<noteq> [] \<longrightarrow> tp = Some (last xs))"

definition unlinked :: "world \<Rightarrow> addr \<Rightarrow> bool" where
  "unlinked w a \<longleftrightarrow> (\<exists>c. w_ch w a = Some c \<and> ch_next c = None)"

text \<open>The same channel, or none, but for the link to the next one.\<close>

definition relinked :: "channel option \<Rightarrow> channel option \<Rightarrow> bool" where
  "relinked x y \<longleftrightarrow> map_option (\<lambda>c. c\<lparr>ch_next := None\<rparr>) x = map_option (\<lambda>c. c\<lparr>ch_next := None\<rparr>) y"

lemma relinked_intros [simp, intro]: "relinked x x" "relinked (Some c) (Some (c\<lparr>ch_next := p\<rparr>))"
  by (simp_all add: relinked_def)

lemma relinked_trans: "relinked x y \<Longrightarrow> relinked y z \<Longrightarrow> relinked x z"
  by (simp add: relinked_def)

lemma relinked_Some: "relinked (Some c) y \<longleftrightarrow> (\<exists>p. y = Some (c\<lparr>ch_next := p\<rparr>))"
proof
  assume "relinked (Some c) y"
  then obtain d where d: "y = Some d" "c\<lparr>ch_next := None\<rparr> = d\<lparr>ch_next := None\<rparr>" by (cases y) (auto simp: relinked_def)
  then have "d = c\<lparr>ch_next := ch_next d\<rparr>" by (cases c; cases d) simp
  with d(1) show "\<exists>p. y = Some (c\<lparr>ch_next := p\<rparr>)" by blast
qed auto

lemma relinked_None [simp]: "relinked None y \<longleftrightarrow> y = None" "relinked x None \<longleftrightarrow> x = None"
  by (auto simp: relinked_def)

locale channel_registry =
  fixes repr :: "world \<Rightarrow> addr list \<Rightarrow> addr option \<Rightarrow> bool"
    and member :: "world \<Rightarrow> addr \<Rightarrow> bool"
    and add :: "addr \<Rightarrow> world \<Rightarrow> (int \<times> world) option"
    and remove :: "addr \<Rightarrow> world \<Rightarrow> (int \<times> world) option"
    and num :: "world \<Rightarrow> int option"
  assumes repr_distinct: "repr w xs tp \<Longrightarrow> distinct xs"
    and num_repr: "repr w xs tp \<Longrightarrow> num w = Some (int (length xs))"
    and add_repr: "repr w xs tp \<Longrightarrow> tail_ok xs tp \<Longrightarrow> unlinked w a \<Longrightarrow> a \<notin> set xs \<Longrightarrow>
      \<exists>w'. add a w = Some (0, w') \<and> repr w' (xs @ [a]) (Some a)
        \<and> (\<forall>b. b \<notin> set xs \<longrightarrow> unlinked w b \<longrightarrow> unlinked w' b)"
    and remove_repr: "repr w xs tp \<Longrightarrow> a \<in> set xs \<Longrightarrow> member w a \<Longrightarrow>
      \<exists>w'. remove a w = Some (0, w') \<and> repr w' (remove1 a xs) tp \<and> unlinked w' a"
    and remove_missing: "repr w xs tp \<Longrightarrow> xs \<noteq> [] \<Longrightarrow> a \<notin> set xs \<Longrightarrow> member w a \<Longrightarrow>
      remove a w = Some (-1, w)"
begin

primrec adds :: "addr list \<Rightarrow> world \<Rightarrow> world option" where
  "adds [] w = Some w"
| "adds (a # as) w = do { (r, w) \<leftarrow> add a w; if r = 0 then adds as w else None }"

lemma adds_repr:
  "repr w xs tp \<Longrightarrow> tail_ok xs tp \<Longrightarrow> \<forall>a \<in> set as. unlinked w a \<Longrightarrow> distinct (xs @ as) \<Longrightarrow>
    \<exists>w' tp'. adds as w = Some w' \<and> repr w' (xs @ as) tp' \<and> tail_ok (xs @ as) tp'
      \<and> num w' = Some (int (length xs + length as))"
proof (induction as arbitrary: w xs tp)
  case Nil
  then show ?case using num_repr by auto
next
  case (Cons a as)
  then obtain w1 where w1: "add a w = Some (0, w1)" "repr w1 (xs @ [a]) (Some a)"
    "\<forall>b. b \<notin> set xs \<longrightarrow> unlinked w b \<longrightarrow> unlinked w1 b"
    using add_repr [of w xs tp a] by auto
  have "\<exists>w' tp'. adds as w1 = Some w' \<and> repr w' ((xs @ [a]) @ as) tp'
    \<and> tail_ok ((xs @ [a]) @ as) tp' \<and> num w' = Some (int (length (xs @ [a]) + length as))"
    using w1 Cons.prems by (intro Cons.IH [of w1 "xs @ [a]" "Some a"]) (auto simp: tail_ok_def)
  with w1(1) show ?case by simp
qed

lemma remove_num:
  assumes "repr w xs tp" "a \<in> set xs" "member w a"
  shows "\<exists>w'. remove a w = Some (0, w') \<and> num w' = Some (int (length xs) - 1)"
proof -
  from remove_repr [OF assms] obtain w' where
    w': "remove a w = Some (0, w')" "repr w' (remove1 a xs) tp" by blast
  from assms(2) have "int (length (remove1 a xs)) = int (length xs) - 1"
    using length_pos_if_in_set [of a xs] by (simp add: length_remove1 del: length_greater_0_conv)
  with w' num_repr show ?thesis by auto
qed

lemma remove_inner_tail_ok:
  assumes "repr w xs tp" "tail_ok xs tp" "a \<noteq> last xs"
  shows "tail_ok (remove1 a xs) tp"
proof -
  have "last (remove1 a xs) = last xs" if "remove1 a xs \<noteq> []"
    using assms(3) that by (cases xs rule: rev_cases) (auto simp: remove1_append)
  with assms(2) show ?thesis by (auto simp: tail_ok_def)
qed

end

section \<open>The linked lists provide it\<close>

text \<open>
  The code of one list, over the head and tail field of the nethandler; the sublocale
  derives the contract from it.
\<close>

locale linked_list =
  fixes nh :: addr
    and hd_of tl_of :: "nethandler \<Rightarrow> addr option"
    and set_hd set_tl :: "addr option \<Rightarrow> nethandler \<Rightarrow> nethandler"
    and add :: "addr \<Rightarrow> world \<Rightarrow> (int \<times> world) option"
    and remove :: "addr \<Rightarrow> world \<Rightarrow> (int \<times> world) option"
    and num :: "world \<Rightarrow> int option"
  assumes lens: "hd_of (set_hd p n) = p" "tl_of (set_hd p n) = tl_of n"
      "hd_of (set_tl p n) = hd_of n" "tl_of (set_tl p n) = p"
    and set_hd_same: "set_hd (hd_of n) n = n"
    and add_code: "w_nh w nh = Some n \<Longrightarrow> add a w =
      (if hd_of n = None then Some (0, set_nh nh (set_tl (Some a) (set_hd (Some a) n)) w)
       else do { t \<leftarrow> tl_of n; w \<leftarrow> upd_ch t (\<lambda>c. c\<lparr>ch_next := Some a\<rparr>) w;
                 Some (0, set_nh nh (set_tl (Some a) n) w) })"
    and remove_code: "w_nh w nh = Some n \<Longrightarrow> w_ch w a = Some c \<Longrightarrow> ch_nh c = Some nh \<Longrightarrow>
      remove a w =
        do { (r, w) \<leftarrow> (if hd_of n = Some a then Some (0, set_nh nh (set_hd (ch_next c) n) w)
                        else i_nh_unlink_ch (hd_of n) (Some a) w);
             if r < 0 then Some (-1, w)
             else do { w \<leftarrow> upd_ch a (\<lambda>c. c\<lparr>ch_next := None, ch_nh := None\<rparr>) w; Some (0, w) } }"
    and num_code: "w_nh w nh = Some n \<Longrightarrow> num w = i_nh_get_len w (hd_of n)"
begin

definition repr :: "world \<Rightarrow> addr list \<Rightarrow> addr option \<Rightarrow> bool" where
  "repr w xs tp \<longleftrightarrow> (\<exists>n. w_nh w nh = Some n \<and> chain (w_ch w) (hd_of n) xs \<and> tl_of n = tp)"

definition member :: "world \<Rightarrow> addr \<Rightarrow> bool" where
  "member w a \<longleftrightarrow> (\<exists>c. w_ch w a = Some c \<and> ch_nh c = Some nh)"

lemma add_linked:
  assumes "repr w xs tp" "tail_ok xs tp" "unlinked w a" "a \<notin> set xs"
  shows "\<exists>w'. add a w = Some (0, w') \<and> repr w' (xs @ [a]) (Some a)
    \<and> (\<forall>b. b \<notin> set xs \<longrightarrow> unlinked w b \<longrightarrow> unlinked w' b)"
proof -
  from assms obtain n c where n: "w_nh w nh = Some n" "chain (w_ch w) (hd_of n) xs" "tl_of n = tp"
    and c: "w_ch w a = Some c" "ch_next c = None" by (auto simp: repr_def unlinked_def)
  show ?thesis
  proof (cases xs rule: rev_cases)
    case Nil
    with n c assms(3) show ?thesis by (auto simp: add_code repr_def lens unlinked_def)
  next
    case (snoc ys t)
    from snoc n(2) obtain ct where ct: "w_ch w t = Some ct" "seg (w_ch w) (hd_of n) ys (Some t)"
      by (auto simp: chain_append)
    have "hd_of n \<noteq> None" using snoc n(2) by (cases ys) auto
    moreover have "t \<notin> set ys" using snoc n(2) chain_distinct by fastforce
    moreover have "tl_of n = Some t" using snoc n(3) assms(2) by (simp add: tail_ok_def)
    ultimately show ?thesis
      using snoc n c ct assms(4)
      by (auto simp: add_code repr_def lens chain_append unlinked_def)
  qed
qed

lemma remove_linked:
  assumes "repr w xs tp" "a \<in> set xs" "member w a"
  shows "\<exists>w'. remove a w = Some (0, w') \<and> repr w' (remove1 a xs) tp \<and> unlinked w' a"
proof -
  from assms obtain n c where n: "w_nh w nh = Some n" "chain (w_ch w) (hd_of n) xs" "tl_of n = tp"
    and c: "w_ch w a = Some c" "ch_nh c = Some nh" by (auto simp: repr_def member_def)
  have dist: "distinct xs" by (rule chain_distinct [OF n(2)])
  obtain ys zs where xs: "xs = ys @ a # zs" "a \<notin> set ys"
    using split_list_first [OF assms(2)] by blast
  with dist have az: "a \<notin> set zs" by simp
  have zs: "chain (w_ch w) (ch_next c) zs" "seg (w_ch w) (hd_of n) ys (Some a)"
    using n(2) c(1) xs by (auto simp: chain_append)
  show ?thesis
  proof (cases ys rule: rev_cases)
    case Nil
    with n c xs zs az show ?thesis
      by (auto simp: remove_code repr_def lens unlinked_def)
  next
    case (snoc us x)
    from snoc zs(2) have "hd_of n \<noteq> Some a" using xs(2) by (cases us) auto
    moreover from snoc zs(2) obtain h where h: "hd_of n = Some h" by (cases us) auto
    moreover from snoc n(2) xs obtain cx where cx: "w_ch w x = Some cx"
      using chain_alloc [OF n(2), of x] by auto
    moreover have "unlink_loop h a w = Some (0, set_ch x (cx\<lparr>ch_next := ch_next c\<rparr>) w)"
      using n(2) h snoc xs(1) cx c(1) by (intro unlink_loop_found [of w h us x a zs]) auto
    moreover have "x \<noteq> a" "x \<notin> set us" "x \<notin> set zs" "a \<notin> set us" using dist snoc xs by auto
    moreover from n(2) snoc xs cx have "seg (w_ch w) (hd_of n) us (Some x)"
      by (auto simp: chain_append)
    ultimately show ?thesis
      using n c xs zs az snoc
      by (auto simp: remove_code repr_def i_nh_unlink_ch_def chain_append unlinked_def
          remove1_append)
  qed
qed

lemma remove_unknown:
  assumes "repr w xs tp" "xs \<noteq> []" "a \<notin> set xs" "member w a"
  shows "remove a w = Some (-1, w)"
proof -
  from assms obtain n c where n: "w_nh w nh = Some n" "chain (w_ch w) (hd_of n) xs"
    and c: "w_ch w a = Some c" "ch_nh c = Some nh" by (auto simp: repr_def member_def)
  from n(2) assms(2) obtain h where h: "hd_of n = Some h" "h \<in> set xs" by (cases xs) auto
  with n(2) assms(3) have "unlink_loop h a w = Some (- EINVAL, w)" "h \<noteq> a"
    by (auto intro: unlink_loop_missing)
  with n c h show ?thesis by (simp add: remove_code i_nh_unlink_ch_def EINVAL_def)
qed

text \<open>What appending does to the new channel, to the others and to the nethandler.\<close>

lemma add_new:
  assumes "repr w xs tp" "tail_ok xs tp" "w_ch w a = Some c" "ch_next c = None" "a \<notin> set xs" "w_nh w nh = Some n"
  shows "\<exists>w' h. add a w = Some (0, w') \<and> repr w' (xs @ [a]) (Some a) \<and> w_ch w' a = Some c
    \<and> w_nh w' = (w_nh w)(nh \<mapsto> set_tl (Some a) (set_hd h n))
    \<and> w' = w\<lparr>w_ch := w_ch w', w_nh := w_nh w'\<rparr> \<and> (\<forall>b. relinked (w_ch w b) (w_ch w' b))"
proof -
  have "unlinked w a" using assms(3,4) by (simp add: unlinked_def)
  with add_linked [OF assms(1,2) _ assms(5)] obtain w' where
    w': "add a w = Some (0, w')" "repr w' (xs @ [a]) (Some a)" by blast
  have "w_ch w' a = Some c \<and> (\<exists>h. w_nh w' = (w_nh w)(nh \<mapsto> set_tl (Some a) (set_hd h n)))
    \<and> w' = w\<lparr>w_ch := w_ch w', w_nh := w_nh w'\<rparr> \<and> (\<forall>b. relinked (w_ch w b) (w_ch w' b))"
  proof (cases xs rule: rev_cases)
    case Nil
    then have "hd_of n = None" using assms(1,6) by (simp add: repr_def)
    with w'(1) assms(3,6) show ?thesis by (auto simp: add_code intro!: exI [of _ "Some a"])
  next
    case (snoc ys t)
    have "hd_of n \<noteq> None" using snoc assms(1,6) by (cases ys) (auto simp: repr_def)
    moreover have "tl_of n = Some t" using snoc assms(1,2,6) by (auto simp: repr_def tail_ok_def)
    moreover have "t \<noteq> a" "w_ch w t \<noteq> None"
      using snoc assms(1,5) chain_alloc [of "w_ch w" _ xs t] by (auto simp: repr_def)
    ultimately show ?thesis using w'(1) assms(3,6) set_hd_same [of n]
      by (auto simp: add_code intro!: exI [of _ "hd_of n"])
  qed
  with w' show ?thesis by blast
qed

text \<open>What a stale tail pointer costs: the channel just added is not in the registry.\<close>

lemma add_stale_tail:
  assumes "repr w xs (Some t)" "xs \<noteq> []" "t \<notin> set xs" "w_ch w t = Some ct"
  shows "\<exists>w'. add a w = Some (0, w') \<and> repr w' xs (Some a)"
proof -
  from assms obtain n where n: "w_nh w nh = Some n" "chain (w_ch w) (hd_of n) xs" "tl_of n = Some t"
    by (auto simp: repr_def)
  moreover from n(2) assms(2) have "hd_of n \<noteq> None" by (cases xs) auto
  ultimately show ?thesis using assms by (auto simp: add_code repr_def lens)
qed

end

sublocale linked_list \<subseteq> registry: channel_registry repr member add remove num
proof unfold_locales
  fix w xs tp assume r: "repr w xs tp"
  then show "distinct xs" by (auto simp: repr_def intro: chain_distinct)
  from r show "num w = Some (int (length xs))"
    by (auto simp: repr_def num_code i_nh_get_len_chain)
qed (fact add_linked remove_linked remove_unknown)+

interpretation tx_list: linked_list nh nh_tx_head nh_tx_tail
  "\<lambda>p n. n\<lparr>nh_tx_head := p\<rparr>" "\<lambda>p n. n\<lparr>nh_tx_tail := p\<rparr>"
  "\<lambda>a. nh_add_tx (Some nh) (Some a)" "\<lambda>a. nh_remove_tx (Some a)"
  "\<lambda>w. nh_get_num_tx w (Some nh)" for nh
  by unfold_locales (auto simp: nh_add_tx_def nh_remove_tx_def nh_get_num_tx_def)

interpretation rx_list: linked_list nh nh_rx_head nh_rx_tail
  "\<lambda>p n. n\<lparr>nh_rx_head := p\<rparr>" "\<lambda>p n. n\<lparr>nh_rx_tail := p\<rparr>"
  "\<lambda>a. nh_add_rx (Some nh) (Some a)" "\<lambda>a. nh_remove_rx (Some a)"
  "\<lambda>w. nh_get_num_rx w (Some nh)" for nh
  by unfold_locales (auto simp: nh_add_rx_def nh_remove_rx_def nh_get_num_rx_def)

section \<open>The two registries, written out\<close>

definition tx_chans :: "world \<Rightarrow> addr \<Rightarrow> addr list \<Rightarrow> addr option \<Rightarrow> bool" where
  "tx_chans w nh xs tp \<longleftrightarrow>
     (\<exists>n. w_nh w nh = Some n \<and> chain (w_ch w) (nh_tx_head n) xs \<and> nh_tx_tail n = tp)"

definition rx_chans :: "world \<Rightarrow> addr \<Rightarrow> addr list \<Rightarrow> addr option \<Rightarrow> bool" where
  "rx_chans w nh xs tp \<longleftrightarrow>
     (\<exists>n. w_nh w nh = Some n \<and> chain (w_ch w) (nh_rx_head n) xs \<and> nh_rx_tail n = tp)"

lemma tx_repr [simp]: "tx_list.repr nh w xs tp = tx_chans w nh xs tp"
  and rx_repr [simp]: "rx_list.repr nh w xs tp = rx_chans w nh xs tp"
  by (simp_all add: tx_list.repr_def rx_list.repr_def tx_chans_def rx_chans_def)

definition belongs :: "world \<Rightarrow> addr \<Rightarrow> addr \<Rightarrow> bool" where
  "belongs w nh a \<longleftrightarrow> (\<exists>c. w_ch w a = Some c \<and> ch_nh c = Some nh)"

lemma member_belongs [simp]: "tx_list.member nh w a = belongs w nh a"
  by (simp add: tx_list.member_def belongs_def)

text \<open>A nethandler with two Tx channels at 2 and 3 and an unlinked channel at 4, for examples.\<close>

definition demo_lists :: world where
  "demo_lists = empty_world
     \<lparr>w_nh := [1 \<mapsto> zero_nethandler\<lparr>nh_tx_head := Some 2, nh_tx_tail := Some 3\<rparr>],
      w_ch := [2 \<mapsto> (zero_channel 0)\<lparr>ch_nh := Some 1, ch_next := Some 3\<rparr>,
               3 \<mapsto> (zero_channel 0)\<lparr>ch_nh := Some 1\<rparr>, 4 \<mapsto> (zero_channel 0)\<lparr>ch_nh := Some 1\<rparr>]\<rparr>"

lemma demo_lists_facts:
  "tx_chans demo_lists 1 [2, 3] (Some 3)" "belongs demo_lists 1 2" "belongs demo_lists 1 3"
  "unlinked demo_lists 4"
  by (auto simp: demo_lists_def zero_channel_def tx_chans_def belongs_def unlinked_def)

section \<open>Properties\<close>

text \<open>Adding any number of channels to a nethandler whose tail pointer is in order appends them
  to its Tx list in the order of the calls, and the reported number of Tx channels grows by as
  many.\<close>

lemma nh_add_tx_appends:
  assumes "tx_chans w nh xs tp" "tail_ok xs tp" "\<forall>a \<in> set as. unlinked w a" "distinct (xs @ as)"
  shows "\<exists>w' tp'. tx_list.registry.adds nh as w = Some w' \<and> tx_chans w' nh (xs @ as) tp'
    \<and> tail_ok (xs @ as) tp' \<and> nh_get_num_tx w' (Some nh) = Some (int (length xs + length as))"
  using tx_list.registry.adds_repr [of nh w xs tp as] assms by simp

text \<open>Removing a Tx channel of a nethandler succeeds, takes exactly that channel out of the
  list, unlinks it, and the reported number drops by one; a channel that is not in a non-empty list
  is refused without any change.\<close>

lemma nh_remove_tx_removes:
  assumes "tx_chans w nh xs tp" "belongs w nh a"
  shows "(a \<in> set xs \<longrightarrow>
      (\<exists>w'. nh_remove_tx (Some a) w = Some (0, w') \<and> tx_chans w' nh (remove1 a xs) tp \<and> unlinked w' a
        \<and> nh_get_num_tx w' (Some nh) = Some (int (length xs) - 1)))
    \<and> (a \<notin> set xs \<longrightarrow> xs \<noteq> [] \<longrightarrow> nh_remove_tx (Some a) w = Some (-1, w))"
  using tx_list.registry.remove_repr [of nh w xs tp a] tx_list.registry.remove_num [of nh w xs tp a]
    tx_list.registry.remove_missing [of nh w xs tp a] assms
  by auto

text \<open>C22: Removal does not move the tail pointer: after the last of several Tx channels has been
  removed, the next channel that is added is reported as added but is not in the list, and the
  number of Tx channels does not change.\<close>

theorem nh_add_tx_after_removing_last_is_lost:
  assumes "tx_chans w nh (xs @ [a]) (Some a)" "xs \<noteq> []" "belongs w nh a"
  shows "\<exists>w1 w2. nh_remove_tx (Some a) w = Some (0, w1) \<and> nh_add_tx (Some nh) (Some b) w1 = Some (0, w2)
    \<and> tx_chans w2 nh xs (Some b) \<and> nh_get_num_tx w2 (Some nh) = Some (int (length xs))"
proof -
  have "distinct (xs @ [a])" using assms(1) tx_list.registry.repr_distinct [of nh w "xs @ [a]"] by simp
  then have "remove1 a (xs @ [a]) = xs" by (simp add: remove1_append)
  with assms tx_list.registry.remove_repr [of nh w "xs @ [a]" "Some a" a] obtain w1 where
    w1: "nh_remove_tx (Some a) w = Some (0, w1)" "tx_chans w1 nh xs (Some a)" "unlinked w1 a"
    by auto
  with \<open>distinct (xs @ [a])\<close> assms(2) tx_list.add_stale_tail [of nh w1 xs a _ b] obtain w2 where
    "nh_add_tx (Some nh) (Some b) w1 = Some (0, w2)" "tx_chans w2 nh xs (Some b)"
    by (auto simp: unlinked_def)
  with w1 tx_list.registry.num_repr [of nh w2 xs] show ?thesis by auto
qed

theorem nh_add_tx_after_removing_last_is_lost_witness:
  "\<exists>w1 w2. nh_remove_tx (Some 3) demo_lists = Some (0, w1) \<and> nh_add_tx (Some 1) (Some 4) w1 = Some (0, w2)
     \<and> tx_chans w2 1 [2] (Some 4) \<and> nh_get_num_tx w2 (Some 1) = Some 1"
  using nh_add_tx_after_removing_last_is_lost [of demo_lists 1 "[2]" 3 4] demo_lists_facts
  by auto

end
