(* ===== verification/Srp_Messages.thy ===== *)
theory Srp_Messages
  imports Chan_List
begin

text \<open>
  The messages NetChan sends to the MRP daemon (\<^verbatim>\<open>src/netchan_srp_helper.c\<close>, sending side)
  and the per-channel operations of \<^verbatim>\<open>src/netchan_srp_client.c\<close> that send them: announce and
  withdraw a talker, withdraw a listener.  A message that the socket accepted is appended to
  \<open>w_mrp\<close> with the socket it was sent on, as the C string in the buffer; the zero bytes that pad
  some datagrams to the size of their buffer are left out.
\<close>

section \<open>Sending\<close>

text \<open>\<^verbatim>\<open>snprintf(buf, n, ...)\<close> keeps at most \<open>n - 1\<close> characters; \<open>%x\<close> prints an \<^verbatim>\<open>int\<close> as unsigned.\<close>

definition snprintf :: "nat \<Rightarrow> string \<Rightarrow> string" where
  "snprintf n s = take (n - 1) s"

definition hex_int :: "bool \<Rightarrow> nat \<Rightarrow> int \<Rightarrow> string" where
  "hex_int upper wd x = hexn upper wd (nat (x mod 2 ^ 32))"

definition hex_bytes :: "bool \<Rightarrow> bytes \<Rightarrow> string" where
  "hex_bytes upper bs = concat (map (\<lambda>b. hexn upper 2 (unat b)) bs)"

definition i_send_msg :: "os \<Rightarrow> srp option \<Rightarrow> string \<Rightarrow> world \<Rightarrow> int \<times> world" where
  "i_send_msg os srp data w =
     (case srp of
        None \<Rightarrow> (-1, w)
      | Some s \<Rightarrow>
          if srp_sock s < 0 then (-1, w)
          else
            let r = os_mrp_send os (w_tick w) (srp_sock s) data
            in (r, (if r < 0 then tick w else (tick w)\<lparr>w_mrp := w_mrp w @ [(srp_sock s, data)]\<rparr>)))"

text \<open>The functions that read fields of the container fault on a null one (\<open>None\<close>).\<close>

definition nc_mrp_join_vlan :: "os \<Rightarrow> srp option \<Rightarrow> world \<Rightarrow> (bool \<times> world) option" where
  "nc_mrp_join_vlan os srp w = do {
     s \<leftarrow> srp;
     let (res, w) = i_send_msg os srp (snprintf 32 (''V++:I='' @ hex_int False 4 (srp_vid_a s))) w;
     Some (res > 0, w)
   }"

definition nc_mrp_leave_vlan :: "os \<Rightarrow> srp option \<Rightarrow> world \<Rightarrow> (bool \<times> world) option" where
  "nc_mrp_leave_vlan os srp w = do {
     s \<leftarrow> srp;
     let (res, w) = i_send_msg os srp
       (snprintf 32 (''V--:I='' @ hex_int False 4 (srp_vid_a s) @ [CHR 0x0A])) w;
     Some (res > 0, w)
   }"

text \<open>The byte view of a stream id (\<^verbatim>\<open>union stream_id_wrapper\<close>) is its memory order.\<close>

definition i_advertise_stream ::
  "os \<Rightarrow> srp option \<Rightarrow> bool \<Rightarrow> bool \<Rightarrow> u64 \<Rightarrow> bytes \<Rightarrow> int \<Rightarrow> int \<Rightarrow> int \<Rightarrow> world
    \<Rightarrow> (bool \<times> world) option" where
  "i_advertise_stream os srp advertise class_a sidw dst pktsz interval latency w = do {
     s \<leftarrow> srp;
     let msg = snprintf 129
       (''S'' @ (if advertise then ''++'' else ''--'')
        @ '':S='' @ hex_bytes True (le_bytes 8 sidw)
        @ '',A='' @ hex_bytes True (take 6 dst)
        @ '',V='' @ hex_int True 4 (if class_a then srp_vid_a s else srp_vid_b s)
        @ '',Z='' @ dec_int pktsz
        @ '',I='' @ dec_int interval
        @ '',P='' @ dec_int ((if class_a then srp_prio_a s else srp_prio_b s) * 2 ^ 5)
        @ '',L='' @ dec_int latency);
     let (res, w) = i_send_msg os srp msg w;
     Some (res > 0, w)
   }"

definition nc_mrp_advertise_stream_class_a ::
  "os \<Rightarrow> srp option \<Rightarrow> u64 \<Rightarrow> bytes \<Rightarrow> int \<Rightarrow> int \<Rightarrow> int \<Rightarrow> world \<Rightarrow> (bool \<times> world) option" where
  "nc_mrp_advertise_stream_class_a os srp sidw dst pktsz interval latency w =
     i_advertise_stream os srp True True sidw dst pktsz interval latency w"

definition nc_mrp_unadvertise_stream_class_a ::
  "os \<Rightarrow> srp option \<Rightarrow> u64 \<Rightarrow> bytes \<Rightarrow> int \<Rightarrow> int \<Rightarrow> int \<Rightarrow> world \<Rightarrow> (bool \<times> world) option" where
  "nc_mrp_unadvertise_stream_class_a os srp sidw dst pktsz interval latency w =
     i_advertise_stream os srp False True sidw dst pktsz interval latency w"

definition i_listener_join_stream :: "os \<Rightarrow> srp option \<Rightarrow> bool \<Rightarrow> u64 \<Rightarrow> world \<Rightarrow> bool \<times> world" where
  "i_listener_join_stream os srp advertise sidw w =
     (let msg = snprintf 128
        (''S'' @ (if advertise then ''+'' else ''-'') @ ''L:L='' @ hex_bytes False (le_bytes 8 sidw)
         @ '', D='' @ dec_int (if advertise then 2 else 3));
          (res, w) = i_send_msg os srp msg w
      in (res > 0, w))"

definition nc_mrp_send_ready :: "os \<Rightarrow> srp option \<Rightarrow> u64 \<Rightarrow> world \<Rightarrow> bool \<times> world" where
  "nc_mrp_send_ready os srp sidw w = i_listener_join_stream os srp True sidw w"

definition nc_mrp_send_leave :: "os \<Rightarrow> srp option \<Rightarrow> u64 \<Rightarrow> world \<Rightarrow> bool \<times> world" where
  "nc_mrp_send_leave os srp sidw w = i_listener_join_stream os srp False sidw w"

definition i_mrp_update_domain :: "os \<Rightarrow> srp \<Rightarrow> bool \<Rightarrow> bool \<Rightarrow> world \<Rightarrow> bool \<times> world" where
  "i_mrp_update_domain os s class_a reg w =
     (let msg = snprintf 64
        (''S'' @ (if reg then ''+'' else ''-'') @ ''D:C='' @ dec_int (if class_a then srp_id_a s else srp_id_b s)
         @ '',P='' @ dec_int (if class_a then srp_prio_a s else srp_id_b s)
         @ '',V='' @ hex_int False 4 (srp_vid_a s));
          (res, w) = i_send_msg os (Some s) msg w
      in (res > 0, w))"

definition nc_mrp_register_domain_class_a :: "os \<Rightarrow> srp option \<Rightarrow> world \<Rightarrow> bool \<times> world" where
  "nc_mrp_register_domain_class_a os srp w =
     (case srp of None \<Rightarrow> (False, w) | Some s \<Rightarrow> i_mrp_update_domain os s True True w)"

definition nc_mrp_register_domain_class_b :: "os \<Rightarrow> srp option \<Rightarrow> world \<Rightarrow> bool \<times> world" where
  "nc_mrp_register_domain_class_b os srp w =
     (case srp of None \<Rightarrow> (False, w) | Some s \<Rightarrow> i_mrp_update_domain os s False True w)"

definition nc_mrp_unregister_domain_class_a :: "os \<Rightarrow> srp option \<Rightarrow> world \<Rightarrow> bool \<times> world" where
  "nc_mrp_unregister_domain_class_a os srp w =
     (case srp of None \<Rightarrow> (False, w) | Some s \<Rightarrow> i_mrp_update_domain os s True False w)"

definition nc_mrp_unregister_domain_class_b :: "os \<Rightarrow> srp option \<Rightarrow> world \<Rightarrow> bool \<times> world" where
  "nc_mrp_unregister_domain_class_b os srp w =
     (case srp of None \<Rightarrow> (False, w) | Some s \<Rightarrow> i_mrp_update_domain os s False False w)"

section \<open>Talkers and listeners\<close>

definition nc_srp_new_talker :: "os \<Rightarrow> addr option \<Rightarrow> world \<Rightarrow> (bool \<times> world) option" where
  "nc_srp_new_talker os chp w =
     (case chp of
        None \<Rightarrow> Some (False, w)
      | Some ch \<Rightarrow> do {
          c \<leftarrow> w_ch w ch;
          (case ch_nh c of
             None \<Rightarrow> Some (False, w)
           | Some nh \<Rightarrow> do {
               n \<leftarrow> w_nh w nh;
               if nh_srp n = None then Some (False, w)
               else if ch_stopping c then Some (False, w)
               else do {
                 (ok, w) \<leftarrow> nc_mrp_advertise_stream_class_a os (nh_srp n) (ch_sidw c) (ch_dst c)
                              (uint (ch_full_size c)) 1 3900 w;
                 if \<not> ok then Some (False, w) else Some (True, w)
               }
             })
        })"

definition nc_srp_remove_talker :: "os \<Rightarrow> addr option \<Rightarrow> world \<Rightarrow> (bool \<times> world) option" where
  "nc_srp_remove_talker os chp w =
     (case chp of
        None \<Rightarrow> Some (False, w)
      | Some ch \<Rightarrow> do {
          c \<leftarrow> w_ch w ch;
          (case ch_nh c of
             None \<Rightarrow> Some (False, w)
           | Some nh \<Rightarrow> do {
               n \<leftarrow> w_nh w nh;
               if nh_srp n = None then Some (False, w)
               else do {
                 (ok, w) \<leftarrow> nc_mrp_unadvertise_stream_class_a os (nh_srp n) (ch_sidw c) (ch_dst c)
                              (uint (ch_full_size c)) 1 3900 w;
                 if \<not> ok then Some (False, w) else Some (True, w)
               }
             })
        })"

definition nc_srp_remove_listener :: "os \<Rightarrow> addr option \<Rightarrow> world \<Rightarrow> (bool \<times> world) option" where
  "nc_srp_remove_listener os chp w =
     (case chp of
        None \<Rightarrow> Some (False, w)
      | Some ch \<Rightarrow> do {
          c \<leftarrow> w_ch w ch;
          nh \<leftarrow> ch_nh c;
          n \<leftarrow> w_nh w nh;
          let (ok, w) = nc_mrp_send_leave os (nh_srp n) (ch_sidw c) w;
          if \<not> ok then Some (False, w) else Some (True, w)
        })"

section \<open>Facts\<close>

text \<open>Messages change nothing but the message list and the tick.\<close>

definition only_mrp :: "world \<Rightarrow> world \<Rightarrow> bool" where
  "only_mrp w w' \<longleftrightarrow> w' = w\<lparr>w_mrp := w_mrp w', w_tick := w_tick w'\<rparr>"

lemma only_mrp_fields:
  assumes "only_mrp w w'"
  shows "w_ch w' = w_ch w" "w_nh w' = w_nh w" "w_cb w' = w_cb w" "w_fresh w' = w_fresh w"
    "w_fds w' = w_fds w" "w_pipes w' = w_pipes w" "w_net w' = w_net w" "w_files w' = w_files w"
    "w_sleep w' = w_sleep w"
  by (subst assms [unfolded only_mrp_def], simp)+

lemma only_mrp_refl [simp]: "only_mrp w w"
  by (simp add: only_mrp_def)

lemma i_send_msg_only_mrp [simp]: "only_mrp w (snd (i_send_msg os srp d w))"
  by (simp add: i_send_msg_def only_mrp_def tick_def Let_def split: option.split)

lemma listener_msg_only_mrp [simp]: "only_mrp w (snd (i_listener_join_stream os srp adv sid w))"
  by (simp add: i_listener_join_stream_def Let_def case_prod_unfold)

lemma i_advertise_stream_only_mrp:
  "i_advertise_stream os srp adv ca sid dst sz i l w = Some (r, w') \<Longrightarrow> only_mrp w w'"
  by (auto simp: i_advertise_stream_def bind_Some_iff Let_def case_prod_unfold)

lemmas talker_msg_defs = nc_mrp_advertise_stream_class_a_def nc_mrp_unadvertise_stream_class_a_def

lemma srp_channel_ops_only_mrp:
  "nc_srp_new_talker os chp w = Some (r, w') \<Longrightarrow> only_mrp w w'"
  "nc_srp_remove_talker os chp w = Some (r, w') \<Longrightarrow> only_mrp w w'"
  "nc_srp_remove_listener os chp w = Some (r, w') \<Longrightarrow> only_mrp w w'"
  by (auto simp: nc_srp_new_talker_def nc_srp_remove_talker_def nc_srp_remove_listener_def
      nc_mrp_send_leave_def talker_msg_defs bind_Some_iff Let_def case_prod_unfold
      dest: i_advertise_stream_only_mrp split: option.splits if_splits)

text \<open>They return whenever the nethandler is there.\<close>

lemma nc_srp_remove_talker_returns:
  "w_ch w ch = Some c \<Longrightarrow> ch_nh c = Some nh \<Longrightarrow> w_nh w nh = Some n \<Longrightarrow>
    \<exists>r w'. nc_srp_remove_talker os (Some ch) w = Some (r, w')"
  by (cases "nh_srp n")
    (auto simp: nc_srp_remove_talker_def talker_msg_defs i_advertise_stream_def Let_def split: prod.splits)

lemma nc_srp_remove_listener_returns:
  "w_ch w ch = Some c \<Longrightarrow> ch_nh c = Some nh \<Longrightarrow> w_nh w nh = Some n \<Longrightarrow>
    \<exists>r w'. nc_srp_remove_listener os (Some ch) w = Some (r, w')"
  by (auto simp: nc_srp_remove_listener_def Let_def split: prod.splits)

end
