(* ===== verification/Channel.thy ===== *)
theory Channel
  imports Srp_Messages
begin

text \<open>
  A channel once it exists (\<^verbatim>\<open>src/netchan.c\<close>): readiness, stopping, destruction, the
  validity test every data operation starts with, updating the frame, and the waiting
  operations.  Creation is in \<open>Chan_Create\<close>, sending in \<open>Sockets\<close>, reading in \<open>Chan_Read\<close>.
  Diagnostics (\<^verbatim>\<open>printf\<close>, \<^verbatim>\<open>nh_debug\<close>, \<^verbatim>\<open>tb_tag\<close>) have no effect on the modelled state.
\<close>

section \<open>Readiness\<close>

definition chan_ready :: "world \<Rightarrow> addr option \<Rightarrow> bool option" where
  "chan_ready w chp =
     (case chp of None \<Rightarrow> Some False | Some ch \<Rightarrow> map_option ch_ready (w_ch w ch))"

definition chan_ready_timedwait :: "os \<Rightarrow> addr option \<Rightarrow> u64 \<Rightarrow> world \<Rightarrow> (int \<times> world) option" where
  "chan_ready_timedwait os chp timeout_ns w =
     (case chp of
        None \<Rightarrow> Some (- EINVAL, w)
      | Some ch \<Rightarrow> do {
          c \<leftarrow> w_ch w ch;
          (case ch_nh c of
             None \<Rightarrow> Some (- EINVAL, w)
           | Some nh \<Rightarrow> do {
               n \<leftarrow> w_nh w nh;
               if \<not> nh_running n \<or> ch_stopping c then Some (- EINVAL, w)
               else do {
                 (ts, w) \<leftarrow> read_clock os CLOCK_REALTIME w;
                 let ts = ts_normalize_loop (ts\<lparr>tv_nsec := to_long (tv_nsec ts + uint timeout_ns)\<rparr>);
                 if ch_ready c then Some (0, w)
                 else
                   let ret = os_cond_timedwait os (w_tick w);
                       w = (tick w)\<lparr>w_sleep := w_sleep w @ [(CLOCK_REALTIME, ts)]\<rparr>
                   in Some ((if ret = 0 then 0 else - ret), w)
               }
             })
        })"

section \<open>Stopping and destroying\<close>

definition chan_stop :: "os \<Rightarrow> addr option \<Rightarrow> world \<Rightarrow> (bool \<times> world) option" where
  "chan_stop os chp w =
     (case chp of
        None \<Rightarrow> Some (False, w)
      | Some ch \<Rightarrow> do {
          c \<leftarrow> w_ch w ch;
          (case ch_nh c of
             None \<Rightarrow> Some (False, w)
           | Some nh \<Rightarrow> do {
               w \<leftarrow> upd_ch ch (\<lambda>c. c\<lparr>ch_ready := False\<rparr>) w;
               if ch_stopping c then Some (False, w)
               else do {
                 w \<leftarrow> upd_ch ch (\<lambda>c. c\<lparr>ch_stopping := True\<rparr>) w;
                 n \<leftarrow> w_nh w nh;
                 w \<leftarrow> (if nh_use_srp n
                       then map_option snd
                              (if ch_tx_sock c \<ge> 0 then nc_srp_remove_talker os (Some ch) w
                               else nc_srp_remove_listener os (Some ch) w)
                       else Some w);
                 let dummy_ok = os_malloc os (w_tick w);
                 let w = tick w;
                 (_, w) \<leftarrow> (if dummy_ok
                            then os_write (os_room os) (ch_fd_w c) (replicate (unat (ch_payload_size c)) 0) w
                            else Some (-1, w));
                 Some (True, w)
               }
             })
        })"

definition i_chan_destroy :: "os \<Rightarrow> addr \<Rightarrow> bool \<Rightarrow> world \<Rightarrow> world option" where
  "i_chan_destroy os ch unlink w = do {
     (_, w) \<leftarrow> chan_stop os (Some ch) w;
     c \<leftarrow> w_ch w ch;
     let w = (if ch_fd_r c \<ge> 0 then os_close (ch_fd_r c) w else w);
     let w = (if ch_fd_w c \<ge> 0 then os_close (ch_fd_w c) w else w);
     w \<leftarrow> (if ch_tx_sock c \<ge> 0
           then do {
             w \<leftarrow> (if unlink then map_option snd (nh_remove_tx (Some ch) w) else Some w);
             let w = os_close (ch_tx_sock c) w;
             upd_ch ch (\<lambda>c. c\<lparr>ch_tx_sock := -1\<rparr>) w
           }
           else if unlink then map_option snd (nh_remove_rx (Some ch) w) else Some w);
     w \<leftarrow> free_cb (ch_cbp c) w;
     free_ch ch w
   }"

text \<open>The caller's pointer after the call, and the world.\<close>

definition chan_destroy :: "os \<Rightarrow> addr option \<Rightarrow> world \<Rightarrow> (addr option \<times> world) option" where
  "chan_destroy os chp w =
     (case chp of
        None \<Rightarrow> Some (None, w)
      | Some ch \<Rightarrow> map_option (\<lambda>w. (None, w)) (i_chan_destroy os ch True w))"

section \<open>Validity and update\<close>

definition chan_valid :: "world \<Rightarrow> addr option \<Rightarrow> bool option" where
  "chan_valid w chp =
     (case chp of
        None \<Rightarrow> Some False
      | Some ch \<Rightarrow> do {
          c \<leftarrow> w_ch w ch;
          (case ch_nh c of
             None \<Rightarrow> Some False
           | Some nh \<Rightarrow>
               if \<not> ch_ready c then Some False
               else do {
                 n \<leftarrow> w_nh w nh;
                 if nh_rx_sock n < 0 then Some False
                 else if ch_tx_sock c > 0 \<and> (ch_cbp c \<noteq> None \<or> ch_interval_ns c \<le> 0) then Some False
                 else if \<not> ch_tx_sock c > 0 \<and> ch_cbp c = None then Some False
                 else if ch_sidw c = 0 \<or> p_stream_id (ch_pdu c) = 0 then Some False
                 else if ch_payload_size c \<le> 0 then Some False
                 else if ch_fd_w c = 0 \<and> ch_fd_r c = 0 then Some False
                 else Some True
               })
        })"

text \<open>\<open>data\<close> is the memory the caller's pointer points to; too little of it is read out of bounds.\<close>

definition chan_update :: "addr option \<Rightarrow> u64 \<Rightarrow> bytes option \<Rightarrow> world \<Rightarrow> (int \<times> world) option" where
  "chan_update chp ts data w = do {
     v \<leftarrow> chan_valid w chp;
     if \<not> v then Some (- ENOMEM, w)
     else (case data of
             None \<Rightarrow> Some (- ENOMEM, w)
           | Some d \<Rightarrow> do {
               ch \<leftarrow> chp;
               c \<leftarrow> w_ch w ch;
               if length d < unat (ch_payload_size c) then None
               else do {
                 w \<leftarrow> upd_ch ch (\<lambda>c. c\<lparr>
                   ch_sample_ns := ts,
                   ch_pdu := (ch_pdu c)\<lparr>p_seqnr := p_seqnr (ch_pdu c) + 1,
                     p_avtp_timestamp := htonl (tai_to_avtp_ns ts),
                     p_tv := 1,
                     p_sdl := htons (ch_payload_size c)\<rparr>,
                   ch_payload := overwrite (ch_payload c) (take (unat (ch_payload_size c)) d)\<rparr>) w;
                 Some (0, w)
               }
             })
   }"

section \<open>Waiting\<close>

definition wait_for_tx_slot :: "os \<Rightarrow> addr option \<Rightarrow> world \<Rightarrow> (int \<times> world) option" where
  "wait_for_tx_slot os chp w = do {
     v \<leftarrow> chan_valid w chp;
     if \<not> v then Some (- EINVAL, w)
     else do {
       c \<leftarrow> get_ch w chp;
       (ts_tai, w) \<leftarrow> read_tai os w;
       if ts_tai > ch_next_tx_ns c then Some (0, w)
       else do {
         ts \<leftarrow> ts_normalize (Some \<lparr>tv_sec = uint (ch_next_tx_ns c) div 1000000000,
                                  tv_nsec = uint (ch_next_tx_ns c) mod 1000000000\<rparr>);
         ts \<leftarrow> ts_subtract_ns (Some ts) 100000;
         Some (os_sleep_until os CLOCK_TAI ts w)
       }
     }
   }"

definition chan_delay :: "os \<Rightarrow> addr option \<Rightarrow> u64 \<Rightarrow> world \<Rightarrow> (int \<times> world) option" where
  "chan_delay os dup ptp_target_delay_ns w = do {
     c \<leftarrow> get_ch w dup;
     nh \<leftarrow> ch_nh c;
     n \<leftarrow> w_nh w nh;
     let (now_ptp_ns, w) = read_ptp os (nh_ptp_fd n) w;
     if ptp_target_delay_ns < now_ptp_ns then Some (sint (ptp_target_delay_ns - now_ptp_ns), w)
     else
       let rel_delay_ns = ptp_target_delay_ns - now_ptp_ns
       in case read_clock os CLOCK_MONOTONIC w of
            None \<Rightarrow> Some (-1, tick w)
          | Some (ts_cpu, w) \<Rightarrow> do {
              let ts_cpu = ts_normalize_loop (ts_cpu\<lparr>tv_nsec := to_long (tv_nsec ts_cpu + uint rel_delay_ns)\<rparr>);
              let cpu_target_delay_ns = ts_u64 ts_cpu;
              let (_, w) = os_sleep_until os CLOCK_MONOTONIC ts_cpu w;
              let (ts_wakeup, w) =
                (case read_clock os CLOCK_MONOTONIC w of
                   None \<Rightarrow> (\<lparr>tv_sec = 0, tv_nsec = 0\<rparr>, tick w) | Some r \<Rightarrow> r);
              let cpu_wakeup_ns = ts_u64 ts_wakeup;
              let error_cpu_ns = sint (cpu_target_delay_ns - cpu_wakeup_ns);
              w \<leftarrow> with_logger (\<lambda>lg. log_wakeup_delay (os_fopen os) lg ptp_target_delay_ns
                                    cpu_target_delay_ns cpu_wakeup_ns) nh w;
              Some (error_cpu_ns, w)
            }
   }"

definition chan_time_to_tx :: "os \<Rightarrow> addr option \<Rightarrow> world \<Rightarrow> (u64 \<times> world) option" where
  "chan_time_to_tx os chp w = do {
     v \<leftarrow> chan_valid w chp;
     if \<not> v then Some (- 1, w)
     else do {
       c \<leftarrow> get_ch w chp;
       (tai_now, w) \<leftarrow> read_tai os w;
       Some ((if tai_now > ch_next_tx_ns c then 0 else ch_next_tx_ns c - tai_now), w)
     }
   }"

definition get_class_delay_bound_ns :: "world \<Rightarrow> addr option \<Rightarrow> u64 option" where
  "get_class_delay_bound_ns w dup =
     (case dup of
        None \<Rightarrow> Some 0
      | Some du \<Rightarrow> do {
          c \<leftarrow> w_ch w du;
          Some (case ch_sc c of
                  SC_TAS \<Rightarrow> 100 * word_of_int NS_IN_US
                | SC_CLASS_A \<Rightarrow> 2 * word_of_int NS_IN_MS
                | SC_CLASS_B \<Rightarrow> 50 * word_of_int NS_IN_MS
                | SC_undeclared _ \<Rightarrow> 0)
        })"

definition chan_get_payload :: "world \<Rightarrow> addr option \<Rightarrow> bytes option option" where
  "chan_get_payload w chp =
     (case chp of None \<Rightarrow> Some None | Some ch \<Rightarrow> map_option (\<lambda>c. Some (ch_payload c)) (w_ch w ch))"

section \<open>Facts\<close>

text \<open>A live channel: it and its nethandler are allocated.\<close>

definition live :: "world \<Rightarrow> addr \<Rightarrow> channel \<Rightarrow> addr \<Rightarrow> nethandler \<Rightarrow> bool" where
  "live w ch c nh n \<longleftrightarrow> w_ch w ch = Some c \<and> ch_nh c = Some nh \<and> w_nh w nh = Some n"

text \<open>The conjuncts of \<open>chan_valid\<close> on a live channel.\<close>

definition valid_state :: "channel \<Rightarrow> nethandler \<Rightarrow> bool" where
  "valid_state c n \<longleftrightarrow> ch_ready c \<and> 0 \<le> nh_rx_sock n
     \<and> (if ch_tx_sock c > 0 then ch_cbp c = None \<and> ch_interval_ns c \<noteq> 0 else ch_cbp c \<noteq> None)
     \<and> ch_sidw c \<noteq> 0 \<and> p_stream_id (ch_pdu c) \<noteq> 0 \<and> ch_payload_size c \<noteq> 0
     \<and> \<not> (ch_fd_w c = 0 \<and> ch_fd_r c = 0)"

lemma chan_valid_live: "live w ch c nh n \<Longrightarrow> chan_valid w (Some ch) = Some (valid_state c n)"
  by (auto simp: live_def chan_valid_def valid_state_def)

lemma chan_valid_True:
  assumes "chan_valid w chp = Some True"
  obtains ch c nh n where "chp = Some ch" "live w ch c nh n" "valid_state c n"
  using assms chan_valid_live
  by (fastforce simp: live_def chan_valid_def bind_Some_iff valid_state_def
      split: option.splits if_splits)

lemma chan_valid_not_ready:
  assumes "w_ch w ch = Some c" "\<not> ch_ready c"
  shows "chan_valid w (Some ch) = Some False"
  using assms by (simp add: chan_valid_def split: option.split)

text \<open>Stopping.\<close>

definition stopped :: "channel \<Rightarrow> channel" where
  "stopped c = c\<lparr>ch_ready := False, ch_stopping := True\<rparr>"

lemma stopped_simps [simp]:
  "ch_ready (stopped c) = False" "ch_stopping (stopped c) = True" "ch_nh (stopped c) = ch_nh c"
  "ch_next (stopped c) = ch_next c" "ch_tx_sock (stopped c) = ch_tx_sock c"
  "ch_fd_w (stopped c) = ch_fd_w c" "ch_fd_r (stopped c) = ch_fd_r c" "ch_cbp (stopped c) = ch_cbp c"
  "ch_payload_size (stopped c) = ch_payload_size c" "ch_sidw (stopped c) = ch_sidw c"
  by (simp_all add: stopped_def)

lemma chan_stop_srp_part:
  assumes "live w ch c nh n"
  shows "\<exists>w'. (if nh_use_srp n
      then map_option snd (if ch_tx_sock c \<ge> 0 then nc_srp_remove_talker os (Some ch) w
                           else nc_srp_remove_listener os (Some ch) w)
      else Some w) = Some w' \<and> only_mrp w w'"
  using assms nc_srp_remove_talker_returns [of w ch c nh n os]
    nc_srp_remove_listener_returns [of w ch c nh n os]
  by (auto simp: live_def dest: srp_channel_ops_only_mrp)

lemma chan_stop_first:
  assumes live: "live w ch c nh n" and "\<not> ch_stopping c"
    and "can_write os w (ch_fd_w c) (unat (ch_payload_size c))"
  shows "\<exists>w1 r w'. only_mrp (set_ch ch (stopped c) w) w1
    \<and> (if os_malloc os (w_tick w1)
       then os_write (os_room os) (ch_fd_w c) (replicate (unat (ch_payload_size c)) 0) (tick w1)
       else Some (-1, tick w1)) = Some (r, w')
    \<and> chan_stop os (Some ch) w = Some (True, w')
    \<and> w_ch w' = (w_ch w)(ch \<mapsto> stopped c) \<and> w_nh w' = w_nh w \<and> w_cb w' = w_cb w
    \<and> w_fds w' = w_fds w \<and> w_fresh w' = w_fresh w \<and> w_net w' = w_net w"
proof -
  let ?w0 = "set_ch ch (stopped c) w"
  have live0: "live ?w0 ch (stopped c) nh n" using live by (simp add: live_def)
  obtain w1 where w1: "(if nh_use_srp n
      then map_option snd (if ch_tx_sock c \<ge> 0 then nc_srp_remove_talker os (Some ch) ?w0
                           else nc_srp_remove_listener os (Some ch) ?w0)
      else Some ?w0) = Some w1" "only_mrp ?w0 w1"
    using chan_stop_srp_part [OF live0, of os, unfolded stopped_simps] by blast
  note f = only_mrp_fields [OF w1(2)]
  have "can_write os (tick w1) (ch_fd_w c) (length (replicate (unat (ch_payload_size c)) (0 :: u8)))"
    using assms(3) f by (simp add: can_write_def)
  then obtain r w' where w': "(if os_malloc os (w_tick w1)
       then os_write (os_room os) (ch_fd_w c) (replicate (unat (ch_payload_size c)) 0) (tick w1)
       else Some (-1, tick w1)) = Some (r, w')"
    using os_write_returns [of os "tick w1" "ch_fd_w c" "replicate (unat (ch_payload_size c)) 0"]
    by (cases "os_malloc os (w_tick w1)") auto
  have "w_ch w' = w_ch w1 \<and> w_nh w' = w_nh w1 \<and> w_cb w' = w_cb w1 \<and> w_fds w' = w_fds w1
    \<and> w_fresh w' = w_fresh w1 \<and> w_net w' = w_net w1"
    using w' by (auto split: if_splits dest: os_write_heaps)
  moreover have "chan_stop os (Some ch) w = Some (True, w')"
    using live assms(2) w1(1) w'
    by (cases "nh_use_srp n"; cases "0 \<le> ch_tx_sock c"; cases "os_malloc os (w_tick w1)")
      (auto simp: chan_stop_def live_def stopped_def)
  ultimately show ?thesis using w1(2) w' f by auto
qed

lemma chan_stop_again:
  assumes "w_ch w ch = Some c" "ch_nh c = Some nh" "ch_stopping c"
  shows "chan_stop os (Some ch) w = Some (False, set_ch ch (c\<lparr>ch_ready := False\<rparr>) w)"
  using assms by (simp add: chan_stop_def)

text \<open>Updating.\<close>

definition updated :: "u64 \<Rightarrow> bytes \<Rightarrow> channel \<Rightarrow> channel" where
  "updated ts d c = c\<lparr>ch_sample_ns := ts,
     ch_pdu := (ch_pdu c)\<lparr>p_seqnr := p_seqnr (ch_pdu c) + 1, p_avtp_timestamp := htonl (tai_to_avtp_ns ts),
       p_tv := 1, p_sdl := htons (ch_payload_size c)\<rparr>,
     ch_payload := overwrite (ch_payload c) (take (unat (ch_payload_size c)) d)\<rparr>"

lemma chan_update_valid:
  assumes "live w ch c nh n" "valid_state c n" "unat (ch_payload_size c) \<le> length d"
  shows "chan_update (Some ch) ts (Some d) w = Some (0, set_ch ch (updated ts d c) w)"
  using assms chan_valid_live [OF assms(1)]
  by (simp add: chan_update_def live_def updated_def not_less [symmetric])

lemma updated_valid_state [simp]: "valid_state (updated ts d c) n = valid_state c n"
  by (simp add: valid_state_def updated_def)

lemma updated_simps [simp]:
  "ch_payload_size (updated ts d c) = ch_payload_size c" "ch_nh (updated ts d c) = ch_nh c"
  "ch_sidw (updated ts d c) = ch_sidw c" "ch_tx_sock (updated ts d c) = ch_tx_sock c"
  "ch_next_tx_ns (updated ts d c) = ch_next_tx_ns c" "ch_interval_ns (updated ts d c) = ch_interval_ns c"
  "ch_sk_addr (updated ts d c) = ch_sk_addr c" "ch_ops (updated ts d c) = ch_ops c"
  by (simp_all add: updated_def)

text \<open>Several updates in a row, each with its timestamp and data.\<close>

fun chan_updates :: "addr \<Rightarrow> (u64 \<times> bytes) list \<Rightarrow> world \<Rightarrow> world option" where
  "chan_updates ch [] w = Some w"
| "chan_updates ch ((ts, d) # us) w =
     do { (r, w) \<leftarrow> chan_update (Some ch) ts (Some d) w; if r = 0 then chan_updates ch us w else None }"

lemma chan_updates_valid:
  "live w ch c nh n \<Longrightarrow> valid_state c n \<Longrightarrow> \<forall>(ts, d) \<in> set us. unat (ch_payload_size c) \<le> length d \<Longrightarrow>
    chan_updates ch us w = Some (w\<lparr>w_ch := (w_ch w)(ch \<mapsto> fold (\<lambda>(ts, d). updated ts d) us c)\<rparr>)"
proof (induction us arbitrary: w c)
  case Nil
  then show ?case by (auto simp: live_def fun_upd_idem)
next
  case (Cons u us)
  obtain ts d where u: "u = (ts, d)" by (cases u)
  have "live (set_ch ch (updated ts d c) w) ch (updated ts d c) nh n"
    using Cons.prems(1) by (auto simp: live_def)
  with Cons.prems u Cons.IH [of "set_ch ch (updated ts d c) w" "updated ts d c"]
    chan_update_valid [OF Cons.prems(1,2), of d ts]
  show ?case by (simp add: u cong: if_cong)
qed

lemma fold_updated_seqnr:
  "p_seqnr (ch_pdu (fold (\<lambda>(ts, d). updated ts d) us c)) = p_seqnr (ch_pdu c) + of_nat (length us)"
  by (induction us arbitrary: c) (auto simp: updated_def split: prod.splits)

section \<open>An example world\<close>

text \<open>
  A nethandler at 1 with a TAS talker at 2 (stream 42, pipe 20/21) and a listener at 3 (stream
  43, pipe 22/23, callback area 10), 8 bytes of payload each, one frame per millisecond.
\<close>

definition demo_tx :: channel where
  "demo_tx = (zero_channel 8)\<lparr>ch_nh := Some 1, ch_dst := [1, 0, 0x5E, 1, 2, 3], ch_sidw := 42, ch_sc := SC_TAS,
     ch_ready := True, ch_tx_sock := 7, ch_ops := Some tas_ops, ch_fd_r := 20, ch_fd_w := 21,
     ch_payload_size := 8, ch_full_size := 74, ch_interval_ns := 1000000, ch_next_tx_ns := 2000000000000,
     ch_pdu := (pdu_of_bytes (replicate 24 0))\<lparr>p_subtype := AVTP_SUBTYPE_NETCHAN, p_stream_id := htobe64 42,
       p_sv := 1, p_seqnr := 0xff\<rparr>\<rparr>"

definition demo_rx :: channel where
  "demo_rx = (zero_channel 8)\<lparr>ch_nh := Some 1, ch_dst := [1, 0, 0x5E, 1, 2, 3], ch_sidw := 43, ch_sc := SC_CLASS_A,
     ch_ready := True, ch_tx_sock := -1, ch_cbp := Some 10, ch_fd_r := 22, ch_fd_w := 23,
     ch_payload_size := 8, ch_full_size := 74, ch_interval_ns := 1000000,
     ch_pdu := (pdu_of_bytes (replicate 24 0))\<lparr>p_subtype := AVTP_SUBTYPE_NETCHAN, p_stream_id := htobe64 43,
       p_sv := 1, p_seqnr := 0xff\<rparr>\<rparr>"

definition demo_srp :: srp where
  "demo_srp = \<lparr>srp_tid = 0, srp_announcer = 0, srp_prio_a = 3, srp_id_a = 6, srp_valid_a = True, srp_vid_a = 2,
     srp_prio_b = 2, srp_id_b = 5, srp_valid_b = True, srp_prio_tas = 0, srp_vid_b = 2, srp_sock = 9\<rparr>"

definition demo_nh :: nethandler where
  "demo_nh = zero_nethandler\<lparr>nh_tx_head := Some 2, nh_tx_tail := Some 2, nh_rx_head := Some 3, nh_rx_tail := Some 3,
     nh_rx_sock := 5, nh_link_speed := 1000000000, nh_running := True, nh_ptp_fd := 6,
     nh_hmap := [\<lparr>ce_stream_id = 43, ce_priv_data = Some 10, ce_cb = Some Std_cb\<rparr>]\<rparr>"

definition demo_cb :: cb_priv where
  "demo_cb = \<lparr>cb_sz = 8, cb_fd = 23,
     cb_meta = \<lparr>m_ts_rx_ns = 0, m_ts_recv_ptp_ns = 0, m_avtp_timestamp = 0\<rparr>, cb_payload = replicate 8 0\<rparr>"

definition open_pipe :: pipe where
  "open_pipe = \<lparr>pb_buf = [], pb_ropen = True, pb_wopen = True\<rparr>"

definition demo_world :: world where
  "demo_world = empty_world\<lparr>w_nh := [1 \<mapsto> demo_nh], w_ch := [2 \<mapsto> demo_tx, 3 \<mapsto> demo_rx], w_cb := [10 \<mapsto> demo_cb],
     w_fds := [20 \<mapsto> Fd_pipe_r 30, 21 \<mapsto> Fd_pipe_w 30, 22 \<mapsto> Fd_pipe_r 31, 23 \<mapsto> Fd_pipe_w 31, 7 \<mapsto> Fd_other],
     w_pipes := [30 \<mapsto> open_pipe, 31 \<mapsto> open_pipe]\<rparr>"

text \<open>An operating system where everything works and every clock shows 1000 s.\<close>

definition demo_os :: os where
  "demo_os = \<lparr>os_clock = (\<lambda>_ _. Some \<lparr>tv_sec = 1000, tv_nsec = 0\<rparr>),
     os_ptp_clock = (\<lambda>_ _. Some \<lparr>tv_sec = 1000, tv_nsec = 0\<rparr>),
     os_nanosleep = (\<lambda>_. 0), os_cond_timedwait = (\<lambda>_. ETIMEDOUT), os_malloc = (\<lambda>_. True),
     os_heap_byte = (\<lambda>_ _. 0xA5), os_mutex_init = (\<lambda>_. 0), os_pipe_fds = (\<lambda>_. Some (40, 41)),
     os_socket = (\<lambda>_. 50), os_setsockopt = (\<lambda>_. 0), os_room = (\<lambda>_ _. True),
     os_send = (\<lambda>_ f. int (length (fr_bytes f))), os_poll_err = (\<lambda>_. False), os_errqueue = (\<lambda>_. None),
     os_mrp_send = (\<lambda>_ _ m. int (length m)), os_fopen = (\<lambda>_. True), os_log_allocs = (\<lambda>_. all_allocs),
     os_pthread_create = (\<lambda>_. Some 1), os_open = (\<lambda>_ _. 60), os_ioctl = (\<lambda>_ _. Some []), os_call = (\<lambda>_ _. 0)\<rparr>"

lemma demo_live: "live demo_world 2 demo_tx 1 demo_nh" "live demo_world 3 demo_rx 1 demo_nh"
  by (simp_all add: live_def demo_world_def demo_tx_def demo_rx_def)

lemma demo_valid: "valid_state demo_tx demo_nh" "valid_state demo_rx demo_nh"
  by (simp_all add: valid_state_def demo_tx_def demo_rx_def demo_nh_def zero_channel_def)

lemma demo_fields:
  "ch_payload_size demo_tx = 8" "length (ch_payload demo_tx) = 8" "p_seqnr (ch_pdu demo_tx) = 0xff"
  "ch_payload_size demo_rx = 8" "ch_stopping demo_tx = False" "ch_stopping demo_rx = False"
  "ch_next_tx_ns demo_tx = 2000000000000" "ch_interval_ns demo_tx = 1000000" "ch_cbp demo_rx = Some 10"
  "ch_tx_sock demo_tx = 7" "ch_tx_sock demo_rx = -1" "ch_fd_r demo_rx = 22" "ch_fd_w demo_rx = 23"
  "ch_nh demo_rx = Some 1" "ch_nh demo_tx = Some 1" "ch_ops demo_tx = Some tas_ops"
  by (simp_all add: demo_tx_def demo_rx_def zero_channel_def)

lemma demo_can_write: "can_write demo_os demo_world fd n"
  by (simp add: can_write_def demo_world_def demo_os_def open_pipe_def)

section \<open>Properties\<close>

text \<open>C5: Any number of updates of a valid channel all succeed; afterwards the frame has the last
  timestamp (low 32 bits, network order), the payload size and exactly the last payload, its sequence
  number has grown by the number of updates modulo 256, and the stream id is untouched.\<close>

theorem chan_updates_frame:
  assumes "live w ch c nh n" and "valid_state c n"
    and "length (ch_payload c) = unat (ch_payload_size c)"
    and "\<forall>(t, d) \<in> set (us @ [(ts, data)]). unat (ch_payload_size c) \<le> length d"
  shows "\<exists>w' c'. chan_updates ch (us @ [(ts, data)]) w = Some w' \<and> w_ch w' ch = Some c'
    \<and> ch_payload c' = take (unat (ch_payload_size c)) data \<and> ch_sample_ns c' = ts
    \<and> p_avtp_timestamp (ch_pdu c') = htonl (ucast ts) \<and> p_tv (ch_pdu c') = 1
    \<and> p_sdl (ch_pdu c') = htons (ch_payload_size c)
    \<and> p_seqnr (ch_pdu c') = p_seqnr (ch_pdu c) + of_nat (Suc (length us))
    \<and> p_stream_id (ch_pdu c') = p_stream_id (ch_pdu c) \<and> ch_payload_size c' = ch_payload_size c"
proof -
  let ?c = "fold (\<lambda>(ts, d). updated ts d) us c"
  have keep: "ch_payload_size ?c = ch_payload_size c \<and> p_stream_id (ch_pdu ?c) = p_stream_id (ch_pdu c)
    \<and> length (ch_payload ?c) = unat (ch_payload_size c)"
    using assms(3,4)
  proof (induction us arbitrary: c)
    case (Cons u us)
    obtain t d where u: "u = (t, d)" by (cases u)
    from Cons.prems u have "length (ch_payload (updated t d c)) = unat (ch_payload_size c)"
      by (simp add: updated_def)
    with Cons.prems Cons.IH [of "updated t d c"] show ?case
      by (simp add: u updated_def)
  qed simp
  from assms(4) have "length (take (unat (ch_payload_size c)) data) = unat (ch_payload_size c)" by auto
  with keep have "ch_payload (updated ts data ?c) = take (unat (ch_payload_size c)) data"
    by (simp add: updated_def overwrite_def)
  with chan_updates_valid [OF assms(1,2), of "us @ [(ts, data)]"] assms(4) keep
    fold_updated_seqnr [of us c]
  show ?thesis by (simp add: updated_def tai_to_avtp_ns_ucast)
qed

theorem chan_updates_frame_witness:
  "\<exists>w' c'. chan_updates 2 [(5, replicate 8 1), (7, [1, 2, 3, 4, 5, 6, 7, 8])] demo_world = Some w'
     \<and> w_ch w' 2 = Some c' \<and> ch_payload c' = [1, 2, 3, 4, 5, 6, 7, 8] \<and> p_seqnr (ch_pdu c') = 1
     \<and> p_avtp_timestamp (ch_pdu c') = htonl 7"
  using chan_updates_frame [OF demo_live(1) demo_valid(1), of "[(5, replicate 8 1)]" 7
      "[1, 2, 3, 4, 5, 6, 7, 8]"]
  by (auto simp: demo_fields)

text \<open>C18: Stopping a live channel succeeds once; from then on the channel is invalid, stopping it
  again is refused and changes nothing, an update is refused with \<open>ENOMEM\<close>, and no other channel was
  touched.\<close>

theorem chan_stop_once:
  assumes "live w ch c nh n" and "\<not> ch_stopping c"
    and "can_write os w (ch_fd_w c) (unat (ch_payload_size c))"
  shows "\<exists>w'. chan_stop os (Some ch) w = Some (True, w')
    \<and> chan_valid w' (Some ch) = Some False
    \<and> chan_stop os' (Some ch) w' = Some (False, w')
    \<and> chan_update (Some ch) ts data w' = Some (- ENOMEM, w')
    \<and> (\<forall>a. a \<noteq> ch \<longrightarrow> w_ch w' a = w_ch w a)"
proof -
  obtain w' where w': "chan_stop os (Some ch) w = Some (True, w')"
    "w_ch w' = (w_ch w)(ch \<mapsto> stopped c)"
    using chan_stop_first [OF assms] by blast
  have ch: "w_ch w' ch = Some (stopped c)" by (simp add: w'(2))
  have valid: "chan_valid w' (Some ch) = Some False" by (rule chan_valid_not_ready [OF ch]) simp
  have "(stopped c)\<lparr>ch_ready := False\<rparr> = stopped c" by (simp add: stopped_def)
  then have "set_ch ch ((stopped c)\<lparr>ch_ready := False\<rparr>) w' = w'"
    using ch by (simp add: fun_upd_idem)
  with chan_stop_again [OF ch, of nh os'] assms(1)
  have "chan_stop os' (Some ch) w' = Some (False, w')" by (simp add: live_def)
  with w' valid show ?thesis by (simp add: chan_update_def)
qed

theorem chan_stop_once_witness:
  "\<exists>w'. chan_stop demo_os (Some 2) demo_world = Some (True, w') \<and> chan_valid w' (Some 2) = Some False
     \<and> chan_stop demo_os (Some 2) w' = Some (False, w')"
  using chan_stop_once [OF demo_live(1) _ demo_can_write, of demo_os 0 None]
  by (auto simp: demo_fields)

text \<open>Waiting for the transmit slot of a valid channel returns at once when the slot has already
  opened, and otherwise sleeps on the TAI clock until exactly 100 us before the slot.\<close>

lemma wait_for_tx_slot_deadline:
  assumes "live w ch c nh n" and "valid_state c n" and "os_clock os (w_tick w) CLOCK_TAI = Some now"
  shows "if ts_u64 now > ch_next_tx_ns c then wait_for_tx_slot os (Some ch) w = Some (0, tick w)
    else \<exists>r w' ts. wait_for_tx_slot os (Some ch) w = Some (r, w') \<and> w_sleep w' = w_sleep w @ [(CLOCK_TAI, ts)]
      \<and> ts_normal ts \<and> ts_ns ts = uint (ch_next_tx_ns c) - 100000"
proof -
  let ?t = "\<lparr>tv_sec = uint (ch_next_tx_ns c) div 1000000000, tv_nsec = uint (ch_next_tx_ns c) mod 1000000000\<rparr>"
  have t: "ts_normal ?t" "ts_ns ?t = uint (ch_next_tx_ns c)" by (simp_all add: ts_normal_def ts_ns_def)
  then have norm: "ts_normalize_loop ?t = ?t"
    by (intro ts_normal_unique) (simp_all add: ts_normalize_loop_normal)
  obtain ts where ts: "ts_subtract_ns (Some ?t) 100000 = Some ts" "ts_normal ts"
    "ts_ns ts = uint (ch_next_tx_ns c) - 100000"
    using ts_subtract_ns_Some [OF t(1), of 100000] t(2) by auto
  have "wait_for_tx_slot os (Some ch) w =
    (if ts_u64 now > ch_next_tx_ns c then Some (0, tick w) else Some (os_sleep_until os CLOCK_TAI ts (tick w)))"
    using assms norm ts(1) chan_valid_live [OF assms(1)]
    by (auto simp: wait_for_tx_slot_def live_def read_tai_def read_clock_def tai_get_ns_def ts_normalize_def)
  with ts(2,3) show ?thesis by (simp add: os_sleep_until_def)
qed

text \<open>Delaying a channel until a PTP time that has not passed sleeps on the monotonic clock for
  exactly the time that remained on the PTP clock, whatever the offset between the two clocks, and the
  returned error is target minus wakeup on the monotonic clock.\<close>

lemma chan_delay_sleeps:
  assumes "live w ch c nh n" and "nh_logger n = None" and "0 \<le> nh_ptp_fd n"
    and "os_ptp_clock os (w_tick w) (get_clockid (nh_ptp_fd n)) = Some ptp"
    and "os_clock os (Suc (w_tick w)) CLOCK_MONOTONIC = Some mon"
    and "os_clock os (Suc (Suc (Suc (w_tick w)))) CLOCK_MONOTONIC = Some woke"
    and "ts_normal mon" and "ts_u64 ptp \<le> target" and "uint (target - ts_u64 ptp) < 2 ^ 62"
  shows "\<exists>w' ts. chan_delay os (Some ch) target w = Some (sint (ts_u64 ts - ts_u64 woke), w')
    \<and> w_sleep w' = w_sleep w @ [(CLOCK_MONOTONIC, ts)]
    \<and> ts_normal ts \<and> ts_ns ts = ts_ns mon + (uint target - uint (ts_u64 ptp))"
proof -
  let ?d = "target - ts_u64 ptp"
  have d: "uint ?d = uint target - uint (ts_u64 ptp)"
    using assms(8) uint_minus_simple_alt by blast
  obtain ts where ts: "ts_add_ns (Some mon) ?d = Some ts" "ts_normal ts" "ts_ns ts = ts_ns mon + uint ?d"
    using ts_add_ns_Some [OF assms(7), of ?d] assms(9) by auto
  have "read_ptp os (nh_ptp_fd n) w = (ts_u64 ptp, tick w)"
    using assms(3,4) by (simp add: read_ptp_def get_ptp_ts_ns_def)
  moreover have "\<not> target < ts_u64 ptp" using assms(8) by simp
  ultimately show ?thesis
    using assms(1,2,5,6) ts d
    by (auto simp: chan_delay_def live_def read_clock_def os_sleep_until_def with_logger_def
        log_wakeup_delay_def ts_add_ns_def)
qed

end
