(* ===== verification/Sscanf.thy ===== *)
theory Sscanf
  imports Cprintf
begin

text \<open>
  The conversions of \<^verbatim>\<open>sscanf\<close> that the SRP parsers use (\<^verbatim>\<open>%d\<close>, \<^verbatim>\<open>%x\<close> and \<^verbatim>\<open>%02x\<close> into an
  \<^verbatim>\<open>unsigned int\<close>), on the memory from the scanned position to the end of the buffer.  The outer
  \<open>option\<close> of a result is \<open>None\<close> when the scan runs over the end of the buffer, the inner one
  when nothing matches and the variable is left alone.
\<close>

section \<open>Scanning\<close>

definition isspace :: "char \<Rightarrow> bool" where
  "isspace c \<longleftrightarrow> of_char c \<in> {9, 10, 11, 12, 13, 32 :: nat}"

fun skip_space :: "string \<Rightarrow> string option" where
  "skip_space [] = None"
| "skip_space (c # s) = (if isspace c then skip_space s else Some (c # s))"

definition digit_value :: "nat \<Rightarrow> char \<Rightarrow> nat option" where
  "digit_value base c =
     (case unhex_digit c of None \<Rightarrow> None | Some d \<Rightarrow> if d < base then Some d else None)"

text \<open>At most \<open>width\<close> digits; \<open>acc\<close> is the value read so far, if any.\<close>

fun scan_digits :: "nat \<Rightarrow> nat \<Rightarrow> nat option \<Rightarrow> string \<Rightarrow> nat option option" where
  "scan_digits base 0 acc s = Some acc"
| "scan_digits base (Suc width) acc [] = None"
| "scan_digits base (Suc width) acc (c # s) =
     (case digit_value base c of
        None \<Rightarrow> Some acc
      | Some d \<Rightarrow> scan_digits base width (Some (base * (case acc of None \<Rightarrow> 0 | Some a \<Rightarrow> a) + d)) s)"

text \<open>A sign, the prefix \<^verbatim>\<open>0x\<close> of a hexadecimal number, and the digits: sign and magnitude.\<close>

definition scan_sign :: "nat \<Rightarrow> string \<Rightarrow> (bool \<times> nat \<times> string) option" where
  "scan_sign width s =
     (case s of
        [] \<Rightarrow> None
      | c # s' \<Rightarrow>
          if c = CHR ''-'' then Some (True, width - 1, s')
          else if c = CHR ''+'' then Some (False, width - 1, s')
          else Some (False, width, s))"

definition scan_prefix :: "nat \<Rightarrow> nat \<Rightarrow> string \<Rightarrow> (nat option \<times> nat \<times> string) option" where
  "scan_prefix base width s =
     (if base = 16 \<and> 2 \<le> width
      then (case s of
              [] \<Rightarrow> None
            | c # s' \<Rightarrow>
                if c = CHR ''0''
                then (case s' of
                        [] \<Rightarrow> None
                      | x # s'' \<Rightarrow> if x = CHR ''x'' \<or> x = CHR ''X'' then Some (Some 0, width - 2, s'') else Some (None, width, s))
                else Some (None, width, s))
      else Some (None, width, s))"

definition scan_number :: "nat \<Rightarrow> nat \<Rightarrow> string \<Rightarrow> (bool \<times> nat) option option" where
  "scan_number base width s = do {
     s \<leftarrow> skip_space s;
     (neg, width, s) \<leftarrow> scan_sign width s;
     (acc, width, s) \<leftarrow> scan_prefix base width s;
     r \<leftarrow> scan_digits base width acc s;
     Some (map_option (Pair neg) r)
   }"

text \<open>
  The stored value: \<^verbatim>\<open>strtol\<close> and \<^verbatim>\<open>strtoul\<close> saturate at 64 bits, the assignment keeps 32.
  Without a width the scan ends at the first character that is no digit.
\<close>

definition sscanf_d :: "string \<Rightarrow> u32 option option" where
  "sscanf_d s =
     map_option (map_option (\<lambda>(neg, m).
         if neg then word_of_int (- min (int m) (2 ^ 63)) else word_of_int (min (int m) (2 ^ 63 - 1))))
       (scan_number 10 (Suc (length s)) s)"

definition sscanf_x :: "nat \<Rightarrow> string \<Rightarrow> u32 option option" where
  "sscanf_x width s =
     map_option (map_option (\<lambda>(neg, m).
         let v = min (int m) (2 ^ 64 - 1) in if neg then word_of_int (- v) else word_of_int v))
       (scan_number 16 width s)"

section \<open>Reading back what was printed\<close>

lemma isspace_hex_digit: "d < 16 \<Longrightarrow> \<not> isspace (hex_digit u d)"
  by (auto simp: isspace_def hex_digit_def)

lemma hex_digit_plain:
  assumes "d < 16"
  shows "hex_digit u d \<noteq> CHR ''-''" "hex_digit u d \<noteq> CHR ''+''" "hex_digit u d \<noteq> CHR ''x''" "hex_digit u d \<noteq> CHR ''X''"
    "hex_digit u d \<noteq> CHR '',''" "hex_digit u d \<noteq> CHR ''S''" "hex_digit u d \<noteq> CHR ''=''"
proof -
  have "unhex_digit (hex_digit u d) = Some d" using assms by simp
  moreover have "unhex_digit c = None" if "c \<in> set ''-+xX,S=''" for c
    using that by (auto simp: unhex_digit_def Let_def)
  ultimately show "hex_digit u d \<noteq> CHR ''-''" "hex_digit u d \<noteq> CHR ''+''" "hex_digit u d \<noteq> CHR ''x''"
    "hex_digit u d \<noteq> CHR ''X''" "hex_digit u d \<noteq> CHR '',''" "hex_digit u d \<noteq> CHR ''S''" "hex_digit u d \<noteq> CHR ''=''"
    by (metis list.set_intros(1,2) option.distinct(1))+
qed

lemma sscanf_x_byte:
  assumes "n < 256"
  shows "sscanf_x 2 (hexn u 2 n @ rest) = Some (Some (of_nat n))"
proof -
  have d: "n div 16 < 16" "n mod 16 < 16" using assms by auto
  have v: "digit_value 16 (hex_digit u d) = Some d" if "d < 16" for d
    using that by (simp add: digit_value_def)
  have "scan_digits 16 2 None (hexn u 2 n @ rest) = Some (Some n)"
    unfolding hexn_2_byte [OF assms] by (simp add: numeral_2_eq_2 v [OF d(1)] v [OF d(2)])
  then have "scan_number 16 2 (hexn u 2 n @ rest) = Some (Some (False, n))"
    using hex_digit_plain [OF d(1), of u] hex_digit_plain [OF d(2), of u] isspace_hex_digit [OF d(1), of u]
    by (simp add: scan_number_def scan_sign_def scan_prefix_def hexn_2_byte [OF assms] cong: if_cong) auto
  with assms show ?thesis by (simp add: sscanf_x_def Let_def min_def)
qed

text \<open>A decimal number that is followed by something that is no digit.\<close>

lemma digit_value_char: "d < 10 \<Longrightarrow> digit_value 10 (char_of (48 + d)) = Some d"
  by (simp add: digit_value_def unhex_digit_def Let_def)

lemma scan_digits_append:
  assumes "\<And>c. c \<in> set ds \<Longrightarrow> digit_value 10 c \<noteq> None"
  shows "scan_digits 10 (length ds + k) acc (ds @ s)
    = scan_digits 10 k (if ds = [] then acc else Some (foldl (\<lambda>a c. 10 * a + the (digit_value 10 c))
        (case acc of None \<Rightarrow> 0 | Some a \<Rightarrow> a) ds)) s"
  using assms
proof (induction ds arbitrary: acc)
  case (Cons a ds)
  from Cons.prems obtain y where y: "digit_value 10 a = Some y" by force
  from Cons.prems have "\<And>c. c \<in> set ds \<Longrightarrow> digit_value 10 c \<noteq> None" by simp
  from Cons.IH [OF this] y show ?case by (cases acc) auto
qed simp

lemma digit_value_dec: "c \<in> set (dec n) \<Longrightarrow> digit_value 10 c = Some (of_char c - 48)"
  using dec_digits [of c n] by (auto simp: digit_value_def unhex_digit_def Let_def)

lemma scan_digits_dec:
  assumes "digit_value 10 c = None" "length (dec n) < width"
  shows "scan_digits 10 width None (dec n @ c # rest) = Some (Some n)"
proof -
  have ne: "dec n \<noteq> []" by (subst dec.simps) simp
  obtain k where "width = length (dec n) + Suc k" using assms(2) less_imp_Suc_add by fastforce
  moreover have "foldl (\<lambda>a c. 10 * a + the (digit_value 10 c)) 0 (dec n) = undec (dec n)"
    unfolding undec_def by (rule foldl_cong) (auto simp: digit_value_dec)
  moreover have "\<And>c. c \<in> set (dec n) \<Longrightarrow> digit_value 10 c \<noteq> None" by (simp add: digit_value_dec)
  ultimately show ?thesis using ne assms(1)
      scan_digits_append [of "dec n" "Suc k" None "c # rest"] by simp
qed

lemma sscanf_d_dec:
  assumes "digit_value 10 c = None" "n < 2 ^ 32"
  shows "sscanf_d (dec n @ c # rest) = Some (Some (of_nat n))"
proof -
  have plain: "\<not> isspace d" "d \<noteq> CHR ''-''" "d \<noteq> CHR ''+''" if "d \<in> set (dec n)" for d
    using dec_digits [OF that] by (auto simp: isspace_def)
  have "dec n \<noteq> []" by (subst dec.simps) simp
  then obtain d ds where dn: "dec n = d # ds" by (cases "dec n") auto
  have sd: "scan_digits 10 (Suc (length (dec n @ c # rest))) None (dec n @ c # rest) = Some (Some n)"
    by (rule scan_digits_dec [OF assms(1)]) simp
  have "scan_number 10 (Suc (length (dec n @ c # rest))) (dec n @ c # rest) = Some (Some (False, n))"
    using plain [of d] sd by (simp add: scan_number_def scan_sign_def scan_prefix_def dn del: scan_digits.simps)
  with assms(2) show ?thesis by (simp add: sscanf_d_def min_def)
qed

text \<open>Four hexadecimal digits, followed by something that is no digit.\<close>

lemma hexn_4:
  assumes "n < 65536"
  shows "hexn u 4 n = map (hex_digit u) [n div 4096, n div 256 mod 16, n div 16 mod 16, n mod 16]"
proof -
  have h0: "hex_digit u 0 = CHR ''0''" by code_simp
  have rep: "replicate 3 x = [x, x, x]" "replicate 2 x = [x, x]" for x :: char by (simp_all add: numeral_eq_Suc)
  have d: "n div 16 div 16 = n div 256" "n div 256 div 16 = n div 4096" by (simp_all add: div_mult2_eq [symmetric])
  consider "n < 16" | "16 \<le> n" "n < 256" | "256 \<le> n" "n < 4096" | "4096 \<le> n" by linarith
  then show ?thesis
  proof cases
    case 1
    then show ?thesis by (simp add: hexn_def hex.simps [of u n] h0 rep)
  next
    case 2
    then have "n div 16 < 16" by simp
    with 2 show ?thesis
      by (simp add: hexn_def hex.simps [of u n] hex.simps [of u "n div 16"] h0 d rep)
  next
    case 3
    then have "\<not> n div 16 < 16" "n div 256 < 16" by auto
    with 3 show ?thesis
      by (simp add: hexn_def hex.simps [of u n] hex.simps [of u "n div 16"] hex.simps [of u "n div 256"] h0 d)
  next
    case 4
    with assms have "\<not> n div 16 < 16" "\<not> n div 256 < 16" "n div 4096 < 16" by auto
    with 4 show ?thesis
      by (simp add: hexn_def hex.simps [of u n] hex.simps [of u "n div 16"] hex.simps [of u "n div 256"]
          hex.simps [of u "n div 4096"] d)
  qed
qed

lemma sscanf_x_4:
  assumes "n < 65536" "digit_value 16 c = None" "5 \<le> width"
  shows "sscanf_x width (hexn u 4 n @ c # rest) = Some (Some (of_nat n))"
proof -
  have d: "n div 4096 < 16" "n div 256 mod 16 < 16" "n div 16 mod 16 < 16" "n mod 16 < 16" using assms(1) by auto
  have v: "digit_value 16 (hex_digit u d) = Some d" if "d < 16" for d using that by (simp add: digit_value_def)
  obtain k where k: "width = Suc (Suc (Suc (Suc (Suc k))))" using assms(3) by (auto simp: numeral_eq_Suc Suc_le_eq dest!: less_imp_Suc_add)
  have n: "16 * (16 * (16 * (n div 4096) + n div 256 mod 16) + n div 16 mod 16) + n mod 16 = n"
    using mult_div_mod_eq [of 16 n] mult_div_mod_eq [of 16 "n div 16"] mult_div_mod_eq [of 16 "n div 256"]
    by (simp add: div_mult2_eq [symmetric])
  have "scan_digits 16 width None (hexn u 4 n @ c # rest) = Some (Some n)"
    unfolding hexn_4 [OF assms(1)] k using n assms(2) by (simp add: v [OF d(1)] v [OF d(2)] v [OF d(3)] v [OF d(4)])
  then have "scan_number 16 width (hexn u 4 n @ c # rest) = Some (Some (False, n))"
    using hex_digit_plain [OF d(1), of u] hex_digit_plain [OF d(2), of u] isspace_hex_digit [OF d(1), of u] assms(3)
    by (simp add: scan_number_def scan_sign_def scan_prefix_def hexn_4 [OF assms(1)] cong: if_cong) auto
  with assms(1) show ?thesis by (simp add: sscanf_x_def Let_def min_def)
qed

end
