(* ===== verification/Srp_Monitor.thy ===== *)
theory Srp_Monitor
  imports Channel Sscanf
begin

text \<open>
  The receiving side of SRP: the notifications a nethandler gets about remote talkers and
  listeners (\<^verbatim>\<open>src/netchan.c\<close>), the parsers for the messages of the MRP daemon
  (\<^verbatim>\<open>src/netchan_srp_helper.c\<close>), and the two threads of \<^verbatim>\<open>src/netchan_srp_client.c\<close> that
  process messages and re-announce talkers.  A buffer is the whole character array; reading
  behind its end is \<open>None\<close>, and so is the use of a variable that \<^verbatim>\<open>sscanf\<close> never assigned.
\<close>

section \<open>Notifications\<close>

definition nh_notify_talker_Lnew :: "addr option \<Rightarrow> u64 \<Rightarrow> world \<Rightarrow> (bool \<times> world) option" where
  "nh_notify_talker_Lnew nhp stream w = do {
     talker \<leftarrow> get_tx_chan_from_sid w nhp stream;
     (case talker of
        None \<Rightarrow> Some (False, w)
      | Some ch \<Rightarrow> do { w \<leftarrow> upd_ch ch (\<lambda>c. c\<lparr>ch_ready := True\<rparr>) w; Some (True, w) })
   }"

definition nh_notify_talker_Lleaving :: "addr option \<Rightarrow> u64 \<Rightarrow> world \<Rightarrow> (bool \<times> world) option" where
  "nh_notify_talker_Lleaving nhp stream w = do {
     talker \<leftarrow> get_tx_chan_from_sid w nhp stream;
     (case talker of
        None \<Rightarrow> Some (False, w)
      | Some ch \<Rightarrow> do { w \<leftarrow> upd_ch ch (\<lambda>c. c\<lparr>ch_ready := False\<rparr>) w; Some (True, w) })
   }"

definition nh_notify_listener_Tnew :: "os \<Rightarrow> addr option \<Rightarrow> u64 \<Rightarrow> world \<Rightarrow> (bool \<times> world) option" where
  "nh_notify_listener_Tnew os nhp stream w = do {
     listener \<leftarrow> get_rx_chan_from_sid w nhp stream;
     (case listener of
        None \<Rightarrow> Some (False, w)
      | Some ch \<Rightarrow> do {
          n \<leftarrow> get_nh w nhp;
          let (ok, w) = nc_mrp_send_ready os (nh_srp n) stream w;
          w \<leftarrow> (if ok then upd_ch ch (\<lambda>c. c\<lparr>ch_ready := True\<rparr>) w else Some w);
          c \<leftarrow> w_ch w ch;
          Some (ch_ready c, w)
        })
   }"

definition nh_notify_listener_Tleave :: "os \<Rightarrow> addr option \<Rightarrow> u64 \<Rightarrow> world \<Rightarrow> (bool \<times> world) option" where
  "nh_notify_listener_Tleave os nhp stream w = do {
     listener \<leftarrow> get_rx_chan_from_sid w nhp stream;
     (case listener of
        None \<Rightarrow> Some (False, w)
      | Some ch \<Rightarrow> do {
          n \<leftarrow> get_nh w nhp;
          let (ok, w) = nc_mrp_send_leave os (nh_srp n) stream w;
          w \<leftarrow> (if ok then upd_ch ch (\<lambda>c. c\<lparr>ch_ready := False\<rparr>) w else Some w);
          Some (True, w)
        })
   }"

section \<open>Domain\<close>

definition update_class_a :: "int \<Rightarrow> int \<Rightarrow> int \<Rightarrow> srp \<Rightarrow> srp" where
  "update_class_a prio sr_id vid s =
     (if srp_prio_a s \<noteq> prio \<or> srp_id_a s \<noteq> sr_id \<or> srp_vid_a s \<noteq> vid
      then s\<lparr>srp_prio_a := prio, srp_id_a := sr_id, srp_vid_a := vid, srp_valid_a := True\<rparr> else s)"

definition update_class_b :: "int \<Rightarrow> int \<Rightarrow> int \<Rightarrow> srp \<Rightarrow> srp" where
  "update_class_b prio sr_id vid s =
     (if srp_prio_b s \<noteq> prio \<or> srp_id_b s \<noteq> sr_id \<or> srp_vid_b s \<noteq> vid
      then s\<lparr>srp_prio_b := prio, srp_id_b := sr_id, srp_vid_b := vid, srp_valid_b := True\<rparr> else s)"

definition i_update_srp_fields :: "addr option \<Rightarrow> int \<Rightarrow> int \<Rightarrow> int \<Rightarrow> world \<Rightarrow> world option" where
  "i_update_srp_fields nhp prio sr_id vid w = do {
     nh \<leftarrow> nhp;
     n \<leftarrow> w_nh w nh;
     s \<leftarrow> nh_srp n;
     Some (set_nh nh (n\<lparr>nh_srp := Some (if sr_id = 6 then update_class_a prio sr_id vid s
                                         else update_class_b prio sr_id vid s)\<rparr>) w)
   }"

section \<open>Scanning a message\<close>

definition rd :: "string \<Rightarrow> nat \<Rightarrow> char option" where
  "rd buf i = (if i < length buf then Some (buf ! i) else None)"

text \<open>\<^verbatim>\<open>while (!(buf[idx] == c && buf[idx+1] == '=') && (idx+1) < len) idx++;\<close>\<close>

definition at_tag :: "char \<Rightarrow> string \<Rightarrow> nat \<Rightarrow> bool option" where
  "at_tag c buf idx = do {
     x \<leftarrow> rd buf idx;
     if x = c then map_option (\<lambda>y. y = CHR ''='') (rd buf (idx + 1)) else Some False
   }"

function scan_tag :: "char \<Rightarrow> string \<Rightarrow> nat \<Rightarrow> nat \<Rightarrow> nat option" where
  "scan_tag c buf len idx =
     (case at_tag c buf idx of
        None \<Rightarrow> None
      | Some found \<Rightarrow> if \<not> found \<and> idx + 1 < len then scan_tag c buf len (idx + 1) else Some idx)"
  by pat_completeness auto
termination
  by (relation "measure (\<lambda>(_, _, len, idx). len - idx)") auto

text \<open>\<^verbatim>\<open>while (buf[idx] != ',' && idx < len) idx++;\<close>\<close>

function scan_comma :: "string \<Rightarrow> nat \<Rightarrow> nat \<Rightarrow> nat option" where
  "scan_comma buf len idx =
     (case rd buf idx of
        None \<Rightarrow> None
      | Some x \<Rightarrow> if x \<noteq> CHR '','' \<and> idx < len then scan_comma buf len (idx + 1) else Some idx)"
  by pat_completeness auto
termination
  by (relation "measure (\<lambda>(_, len, idx). len - idx)") auto

declare scan_tag.simps [simp del] scan_comma.simps [simp del]

text \<open>
  \<open>k\<close> pairs of hexadecimal digits from \<open>start\<close> on.  \<open>v\<close> is the variable the scan assigns;
  it survives from one pair to the next when it is declared outside of the loop (\<open>keep\<close>).
\<close>

definition assign :: "'a option \<Rightarrow> 'a option \<Rightarrow> 'a option" where
  "assign old r = (case r of None \<Rightarrow> old | Some x \<Rightarrow> Some x)"

lemma assign_simps [simp]: "assign old None = old" "assign old (Some x) = Some x"
  by (simp_all add: assign_def)

fun scan_pairs :: "bool \<Rightarrow> string \<Rightarrow> nat \<Rightarrow> nat \<Rightarrow> u32 option \<Rightarrow> (bytes \<times> u32 option) option" where
  "scan_pairs keep buf start 0 v = Some ([], v)"
| "scan_pairs keep buf start (Suc k) v = do {
     r \<leftarrow> sscanf_x 2 (drop start buf);
     let v = assign v r;
     sr_id \<leftarrow> v;
     (bs, v) \<leftarrow> scan_pairs keep buf (start + 2) k (if keep then v else None);
     Some (ucast sr_id # bs, v)
   }"

text \<open>The returned index and the value of the caller's variable.\<close>

definition find_stream_id :: "string \<Rightarrow> nat \<Rightarrow> u64 \<Rightarrow> (nat \<times> u64) option" where
  "find_stream_id buf len sidw =
     (if len < 2 then Some (0, sidw)
      else do {
        idx \<leftarrow> scan_tag (CHR ''S'') buf len 0;
        if idx = len then Some (0, sidw)
        else do {
          let start = idx + 2;
          idx \<leftarrow> scan_comma buf len idx;
          if idx = len then Some (0, sidw)
          else do {
            (bs, _) \<leftarrow> scan_pairs False buf start 8 None;
            Some (idx, of_le bs)
          }
        }
      })"

definition find_dst :: "string \<Rightarrow> nat \<Rightarrow> bytes \<Rightarrow> (nat \<times> bytes) option" where
  "find_dst buf len dst = do {
     idx \<leftarrow> scan_tag (CHR ''A'') buf len 0;
     if idx = len then Some (0, dst)
     else do {
       let start = idx + 2;
       idx \<leftarrow> scan_comma buf len idx;
       if idx = len then Some (0, dst)
       else do {
         (bs, _) \<leftarrow> scan_pairs False buf start 6 None;
         Some (idx, bs)
       }
     }
   }"

text \<open>\<^verbatim>\<open>strncmp(buf, s, n) == 0\<close> on memory.\<close>

fun strncmp_mem :: "nat \<Rightarrow> string \<Rightarrow> string \<Rightarrow> bool option" where
  "strncmp_mem 0 buf s = Some True"
| "strncmp_mem (Suc n) [] s = None"
| "strncmp_mem (Suc n) (c # buf) [] = Some (c = CHR 0x00)"
| "strncmp_mem (Suc n) (c # buf) (d # s) = (if c = d then strncmp_mem n buf s else Some False)"

section \<open>Listener messages\<close>

text \<open>A talker that appeared or left; the index where parsing continues.  The three comparisons are evaluated together, the code stops at the
  first that matches; they have no effect.\<close>

definition listener_talker_part ::
  "os \<Rightarrow> string \<Rightarrow> nat \<Rightarrow> addr option \<Rightarrow> world \<Rightarrow> (nat \<times> world) option" where
  "listener_talker_part os buf buflen nhp w = do {
     sne \<leftarrow> strncmp_mem 6 buf ''SNE T:'';
     sjo \<leftarrow> strncmp_mem 6 buf ''SJO T:'';
     sle \<leftarrow> strncmp_mem 7 buf ''SLE T:S'';
     if sne \<or> sjo \<or> sle
     then do {
       (idx, sidw) \<leftarrow> find_stream_id buf buflen 0;
       (j, dst) \<leftarrow> find_dst (drop idx buf) (buflen - idx) (replicate 6 0);
       (_, w) \<leftarrow> (if sne \<or> sjo then nh_notify_listener_Tnew os nhp sidw w
                 else nh_notify_listener_Tleave os nhp sidw w);
       Some (idx + j, w)
     }
     else Some (0, w)
   }"

definition nc_mrp_listener_process_msg ::
  "os \<Rightarrow> string \<Rightarrow> nat \<Rightarrow> addr option \<Rightarrow> world \<Rightarrow> (int \<times> world) option" where
  "nc_mrp_listener_process_msg os buf buflen nhp w =
     (case nhp of
        None \<Rightarrow> Some (-1, w)
      | Some nh \<Rightarrow> do {
          (idx, w) \<leftarrow> listener_talker_part os buf buflen nhp w;
          dom \<leftarrow> strncmp_mem 6 (drop idx buf) ''SJO D:'';
          if dom
          then do {
            r \<leftarrow> sscanf_d (drop 8 buf);
            sr_id \<leftarrow> r;
            r \<leftarrow> sscanf_d (drop 12 buf);
            priority \<leftarrow> r;
            r \<leftarrow> sscanf_x (Suc (length buf)) (drop 16 buf);
            vid \<leftarrow> r;
            w \<leftarrow> i_update_srp_fields nhp (sint priority) (sint sr_id) (sint vid) w;
            Some (0, w)
          }
          else Some (0, w)
        })"

section \<open>Talker messages\<close>

text \<open>\<^verbatim>\<open>while (buf[i] != c) i++;\<close>\<close>

function find_char :: "char \<Rightarrow> string \<Rightarrow> nat \<Rightarrow> nat option" where
  "find_char c buf i =
     (if i < length buf then if buf ! i = c then Some i else find_char c buf (i + 1) else None)"
  by pat_completeness auto
termination
  by (relation "measure (\<lambda>(_, buf, i). length buf - i)") auto

text \<open>\<^verbatim>\<open>while ((i < buflen) && (buf[i] != '\n') && (buf[i] != '\0')) i++;\<close>\<close>

function skip_line :: "string \<Rightarrow> nat \<Rightarrow> nat \<Rightarrow> nat option" where
  "skip_line buf buflen i =
     (if i < buflen
      then case rd buf i of
             None \<Rightarrow> None
           | Some x \<Rightarrow> if x \<noteq> CHR 0x0A \<and> x \<noteq> CHR 0x00 then skip_line buf buflen (i + 1) else Some i
      else Some i)"
  by pat_completeness auto
termination
  by (relation "measure (\<lambda>(_, buflen, i). buflen - i)") auto

declare find_char.simps [simp del] skip_line.simps [simp del]

text \<open>The start of the next line; the inner \<open>None\<close> is \<^verbatim>\<open>return 0\<close>.\<close>

definition next_line :: "string \<Rightarrow> nat \<Rightarrow> nat \<Rightarrow> nat option option" where
  "next_line buf buflen i = do {
     i \<leftarrow> skip_line buf buflen i;
     if i = buflen then Some None
     else do {
       x \<leftarrow> rd buf i;
       Some (if x = CHR 0x00 then None else Some (i + 1))
     }
   }"

text \<open>The variables that live across lines.\<close>

record scan_vars =
  sv_id :: "u32 option"
  sv_priority :: "u32 option"
  sv_vid :: "u32 option"
  sv_substate :: "u32 option"

definition MSRP_LISTENER_ASKFAILED :: u32 where "MSRP_LISTENER_ASKFAILED = 1"

text \<open>The attributes of a listener: its state and the stream id, and where the scan ended.\<close>

definition scan_listener :: "string \<Rightarrow> nat \<Rightarrow> scan_vars \<Rightarrow> (u64 \<times> nat \<times> scan_vars) option" where
  "scan_listener buf i v = do {
     i \<leftarrow> find_char (CHR ''D'') buf i;
     let i = i + 2;
     r \<leftarrow> sscanf_d (drop i buf);
     let v = v\<lparr>sv_substate := assign (sv_substate v) r\<rparr>;
     i \<leftarrow> find_char (CHR ''S'') buf i;
     let i = i + 2;
     (bs, sr_id) \<leftarrow> scan_pairs True buf i 8 (sv_id v);
     Some (of_le bs, i, v\<lparr>sv_id := sr_id\<rparr>)
   }"

definition scan_domain :: "string \<Rightarrow> nat \<Rightarrow> scan_vars \<Rightarrow> (nat \<times> scan_vars) option" where
  "scan_domain buf i v = do {
     r \<leftarrow> sscanf_d (drop i buf);
     let v = v\<lparr>sv_id := assign (sv_id v) r\<rparr>;
     i \<leftarrow> find_char (CHR ''P'') buf i;
     let i = i + 2;
     r \<leftarrow> sscanf_d (drop i buf);
     let v = v\<lparr>sv_priority := assign (sv_priority v) r\<rparr>;
     i \<leftarrow> find_char (CHR ''V'') buf i;
     let i = i + 2;
     r \<leftarrow> sscanf_x (Suc (length buf)) (drop i buf);
     Some (i, v\<lparr>sv_vid := assign (sv_vid v) r\<rparr>)
   }"

text \<open>One line at \<open>k\<close>: where the next one starts, if parsing goes on.\<close>

definition talker_line ::
  "string \<Rightarrow> nat \<Rightarrow> addr option \<Rightarrow> nat \<Rightarrow> scan_vars \<Rightarrow> world \<Rightarrow> (nat option \<times> scan_vars \<times> world) option" where
  "talker_line buf buflen nhp k v w = do {
     x \<leftarrow> rd buf k;
     if x = CHR ''L''
     then do {
       (sidw, i, v) \<leftarrow> scan_listener buf k v;
       substate \<leftarrow> sv_substate v;
       w \<leftarrow> (if substate > MSRP_LISTENER_ASKFAILED
             then map_option snd (nh_notify_talker_Lnew nhp sidw w) else Some w);
       nk \<leftarrow> next_line buf buflen i;
       Some (nk, v, w)
     }
     else if x = CHR ''D''
     then do {
       (i, v) \<leftarrow> scan_domain buf (k + 4) v;
       sr_id \<leftarrow> sv_id v;
       priority \<leftarrow> sv_priority v;
       vid \<leftarrow> sv_vid v;
       w \<leftarrow> i_update_srp_fields nhp (sint priority) (sint sr_id) (sint vid) w;
       nk \<leftarrow> next_line buf buflen i;
       Some (nk, v, w)
     }
     else if x = CHR ''T''
     then do {
       nk \<leftarrow> next_line buf buflen k;
       Some (nk, v, w)
     }
     else if x = CHR ''S''
     then do {
       y \<leftarrow> rd buf (k + 4);
       if y = CHR ''L''
       then do {
         (sidw, i, v) \<leftarrow> scan_listener buf (k + 5) v;
         z \<leftarrow> rd buf (k + 1);
         w \<leftarrow> (if z = CHR ''L'' then map_option snd (nh_notify_talker_Lleaving nhp sidw w)
               else if z = CHR ''J'' \<or> z = CHR ''N''
               then do {
                 substate \<leftarrow> sv_substate v;
                 if substate > MSRP_LISTENER_ASKFAILED
                 then map_option snd (nh_notify_talker_Lnew nhp sidw w) else Some w
               }
               else Some w);
         Some (None, v, w)
       }
       else Some (None, v, w)
     }
     else Some (None, v, w)
   }"

lemma find_char_ge: "find_char c buf i = Some j \<Longrightarrow> i \<le> j"
proof (induction c buf i rule: find_char.induct)
  case (1 c buf i)
  then show ?case by (subst (asm) (2) find_char.simps) (auto split: if_splits dest: Suc_leD)
qed

lemma skip_line_ge: "skip_line buf buflen i = Some j \<Longrightarrow> i \<le> j"
proof (induction buf buflen i rule: skip_line.induct)
  case (1 buf buflen i)
  then show ?case by (subst (asm) (2) skip_line.simps) (auto split: if_splits option.splits dest: Suc_leD)
qed

lemma next_line_gt: "next_line buf buflen i = Some (Some j) \<Longrightarrow> i < j"
  by (auto simp: next_line_def bind_Some_iff split: if_splits dest!: skip_line_ge)

lemma talker_line_gt:
  assumes "talker_line buf buflen nhp k v w = Some (Some k', v', w')"
  shows "k < k'"
  using assms unfolding talker_line_def
  by (auto simp: bind_Some_iff scan_listener_def scan_domain_def Let_def split: if_splits
      dest!: next_line_gt find_char_ge)

function talker_lines ::
  "string \<Rightarrow> nat \<Rightarrow> addr option \<Rightarrow> nat \<Rightarrow> scan_vars \<Rightarrow> world \<Rightarrow> (int \<times> world) option" where
  "talker_lines buf buflen nhp k v w =
     (if k \<ge> buflen then Some (0, w)
      else case talker_line buf buflen nhp k v w of
             None \<Rightarrow> None
           | Some (nk, v', w') \<Rightarrow>
               (case nk of None \<Rightarrow> Some (0, w') | Some k' \<Rightarrow> talker_lines buf buflen nhp k' v' w'))"
  by pat_completeness auto
termination
  by (relation "measure (\<lambda>(_, buflen, _, k, _). buflen - k)") (auto dest!: talker_line_gt)

declare talker_lines.simps [simp del]

definition nc_mrp_talker_process_msg :: "string \<Rightarrow> nat \<Rightarrow> addr option \<Rightarrow> world \<Rightarrow> (int \<times> world) option" where
  "nc_mrp_talker_process_msg buf buflen nhp w =
     talker_lines buf buflen nhp 0 \<lparr>sv_id = None, sv_priority = None, sv_vid = None, sv_substate = None\<rparr> w"

section \<open>The threads\<close>

text \<open>
  One round of the monitor: the answer of \<^verbatim>\<open>poll\<close>, whether \<^verbatim>\<open>POLLIN\<close> is set, the message if
  \<^verbatim>\<open>recvmsg\<close> gave one, and whether \<^verbatim>\<open>nh->running\<close> was cleared meanwhile.
\<close>

record mon_event =
  me_poll :: int
  me_pollin :: bool
  me_msg :: "string option"
  me_stop :: bool

definition monitor_msg :: "os \<Rightarrow> addr \<Rightarrow> string \<Rightarrow> string \<Rightarrow> world \<Rightarrow> (string \<times> world) option" where
  "monitor_msg os nh msg buffer w = do {
     let rxsz = min (length msg) (length buffer);
     let buffer = overwrite buffer (take rxsz msg);
     (_, w) \<leftarrow> nc_mrp_talker_process_msg buffer rxsz (Some nh) w;
     (_, w) \<leftarrow> nc_mrp_listener_process_msg os buffer rxsz (Some nh) w;
     Some (overwrite buffer (replicate rxsz (CHR 0x00)), w)
   }"

fun nc_srp_monitor_loop :: "os \<Rightarrow> addr \<Rightarrow> mon_event list \<Rightarrow> string \<Rightarrow> world \<Rightarrow> world option" where
  "nc_srp_monitor_loop os nh [] buffer w = Some w"
| "nc_srp_monitor_loop os nh (ev # evs) buffer w = do {
     n \<leftarrow> w_nh w nh;
     if \<not> nh_running n then Some w
     else do {
       w \<leftarrow> (if me_stop ev then upd_nh nh (\<lambda>n. n\<lparr>nh_running := False\<rparr>) w else Some w);
       if me_poll ev < 0 then Some w
       else do {
         n \<leftarrow> w_nh w nh;
         if me_poll ev = 0 \<or> \<not> nh_running n then nc_srp_monitor_loop os nh evs buffer w
         else if \<not> me_pollin ev then Some w
         else (case me_msg ev of
                 None \<Rightarrow> nc_srp_monitor_loop os nh evs buffer w
               | Some msg \<Rightarrow> do {
                   (buffer, w) \<leftarrow> monitor_msg os nh msg buffer w;
                   nc_srp_monitor_loop os nh evs buffer w
                 })
       }
     }
   }"

definition nc_srp_monitor :: "os \<Rightarrow> addr option \<Rightarrow> mon_event list \<Rightarrow> world \<Rightarrow> world option" where
  "nc_srp_monitor os data evs w =
     (case data of
        None \<Rightarrow> Some w
      | Some nh \<Rightarrow> do {
          n \<leftarrow> w_nh w nh;
          if nh_srp n = None then Some w
          else nc_srp_monitor_loop os nh evs (replicate 1522 (CHR 0x00)) w
        })"

text \<open>The announcer: one walk over the talkers, and the rounds with their sleeps.\<close>

partial_function (option) announce_walk :: "os \<Rightarrow> addr option \<Rightarrow> world \<Rightarrow> world option" where
  "announce_walk os p w =
     (case p of
        None \<Rightarrow> Some w
      | Some ch \<Rightarrow> do {
          c \<leftarrow> w_ch w ch;
          w \<leftarrow> (if \<not> ch_ready c \<and> \<not> ch_stopping c
                then map_option snd (nc_srp_new_talker os (Some ch) w) else Some w);
          c \<leftarrow> w_ch w ch;
          announce_walk os (ch_next c) w
        })"

text \<open>While the thread sleeps, the other threads may end it (\<open>stop\<close>).  What else they do in between is covered by single walks as steps of their own
  (theory Lifecycle).\<close>

fun announce_loop :: "os \<Rightarrow> addr \<Rightarrow> bool list \<Rightarrow> timespec \<Rightarrow> world \<Rightarrow> world option" where
  "announce_loop os nh [] ts w = Some w"
| "announce_loop os nh (stop # stops) ts w = do {
     n \<leftarrow> w_nh w nh;
     if \<not> nh_running n then Some w
     else do {
       w \<leftarrow> announce_walk os (nh_tx_head n) w;
       let ts = ts\<lparr>tv_sec := tv_sec ts + 10\<rparr>;
       let (_, w) = os_sleep_until os CLOCK_MONOTONIC ts w;
       w \<leftarrow> (if stop then upd_nh nh (\<lambda>n. n\<lparr>nh_running := False\<rparr>) w else Some w);
       announce_loop os nh stops ts w
     }
   }"

definition nc_srp_talker_announce :: "os \<Rightarrow> addr option \<Rightarrow> bool list \<Rightarrow> world \<Rightarrow> world option" where
  "nc_srp_talker_announce os data stops w =
     (case data of
        None \<Rightarrow> Some w
      | Some nh \<Rightarrow> do {
          n \<leftarrow> w_nh w nh;
          if nh_srp n = None then Some w
          else do {
            (ts, w) \<leftarrow> read_clock os CLOCK_MONOTONIC w;
            announce_loop os nh stops ts w
          }
        })"

section \<open>Facts\<close>

lemma rd_append [simp]:
  "i < length xs \<Longrightarrow> rd (xs @ ys) i = Some (xs ! i)"
  "rd (xs @ y # ys) (length xs) = Some y"
  by (simp_all add: rd_def nth_append)

lemma scan_tag_found:
  assumes "i \<le> m" "m + 1 < len" "\<And>j. i \<le> j \<Longrightarrow> j < m \<Longrightarrow> at_tag c buf j = Some False" "at_tag c buf m = Some True"
  shows "scan_tag c buf len i = Some m"
  using assms(1,3)
proof (induction "m - i" arbitrary: i)
  case 0
  with assms(4) show ?case by (subst scan_tag.simps) simp
next
  case (Suc k)
  then have "scan_tag c buf len (i + 1) = Some m" by (intro Suc.hyps(1)) auto
  with Suc.hyps(2) Suc.prems assms(2) show ?case by (subst scan_tag.simps) simp
qed

lemma scan_comma_found:
  assumes "i \<le> m" "m < len" "m < length buf" "\<And>j. i \<le> j \<Longrightarrow> j < m \<Longrightarrow> buf ! j \<noteq> CHR '',''" "buf ! m = CHR '',''"
  shows "scan_comma buf len i = Some m"
  using assms(1,4)
proof (induction "m - i" arbitrary: i)
  case 0
  with assms(3,5) show ?case by (subst scan_comma.simps) (simp add: rd_def)
next
  case (Suc k)
  then have "scan_comma buf len (i + 1) = Some m" by (intro Suc.hyps(1)) auto
  with Suc.hyps(2) Suc.prems assms(2,3) show ?case by (subst scan_comma.simps) (simp add: rd_def)
qed

lemma find_char_found:
  assumes "i \<le> m" "m < length buf" "\<And>j. i \<le> j \<Longrightarrow> j < m \<Longrightarrow> buf ! j \<noteq> c" "buf ! m = c"
  shows "find_char c buf i = Some m"
  using assms(1,3)
proof (induction "m - i" arbitrary: i)
  case 0
  with assms(2,4) show ?case by (subst find_char.simps) simp
next
  case (Suc k)
  then have "find_char c buf (i + 1) = Some m" by (intro Suc.hyps(1)) auto
  with Suc.hyps(2) Suc.prems assms(2) show ?case by (subst find_char.simps) simp
qed

lemma find_char_append:
  assumes "c \<notin> set xs"
  shows "find_char c (pre @ xs @ c # rest) (length pre) = Some (length pre + length xs)"
  using assms by (intro find_char_found) (auto simp: nth_append)

lemma find_char_none:
  assumes "c \<notin> set buf"
  shows "find_char c buf i = None"
proof (induction "length buf - i" arbitrary: i)
  case 0
  then show ?case by (subst find_char.simps) simp
next
  case (Suc k)
  then have "find_char c buf (i + 1) = None" by (intro Suc.hyps(1)) auto
  with Suc.hyps(2) assms show ?case by (subst find_char.simps) auto
qed

text \<open>Bytes printed in hexadecimal are read back.\<close>

lemma hex_bytes_Cons: "hex_bytes u (b # bs) = hexn u 2 (unat b) @ hex_bytes u bs"
  by (simp add: hex_bytes_def)

lemma unat_u8_less: "unat (b :: u8) < 256"
  using unsigned_less [of b] by simp

lemma length_hex_bytes [simp]: "length (hex_bytes u bs) = 2 * length bs"
  by (induction bs) (auto simp: hex_bytes_def hexn_2_byte unat_u8_less)

lemma hex_bytes_plain:
  assumes "x \<in> set (hex_bytes u bs)"
  shows "x \<noteq> CHR '',''" "x \<noteq> CHR ''S''" "x \<noteq> CHR ''=''"
proof -
  from assms obtain b where "b \<in> set bs" "x \<in> set (hexn u 2 (unat b))" by (auto simp: hex_bytes_def)
  then have "x = hex_digit u (unat b div 16) \<or> x = hex_digit u (unat b mod 16)"
    using unat_u8_less [of b] by (auto simp: hexn_2_byte)
  moreover have "unat b div 16 < 16" "unat b mod 16 < 16" using unat_u8_less [of b] by auto
  ultimately obtain d where "d < 16" "x = hex_digit u d" by blast
  then show "x \<noteq> CHR '',''" "x \<noteq> CHR ''S''" "x \<noteq> CHR ''=''" using hex_digit_plain by auto
qed

lemma scan_pairs_hex_bytes:
  "drop start buf = hex_bytes u bs @ rest \<Longrightarrow> \<exists>v'. scan_pairs keep buf start (length bs) v = Some (bs, v')"
proof (induction bs arbitrary: start v)
  case (Cons b bs)
  have "sscanf_x 2 (drop start buf) = Some (Some (of_nat (unat b)))"
    using Cons.prems by (simp add: hex_bytes_Cons sscanf_x_byte unat_u8_less)
  moreover have "drop (start + 2) buf = hex_bytes u bs @ rest"
  proof -
    have "drop (start + 2) buf = drop 2 (drop start buf)" by (simp add: add.commute)
    also have "\<dots> = hex_bytes u bs @ rest"
      unfolding Cons.prems hex_bytes_Cons by (simp add: hexn_2_byte unat_u8_less)
    finally show ?thesis .
  qed
  moreover have "ucast (of_nat (unat b) :: u32) = b" by (rule bit_word_eqI) (auto simp: bit_simps)
  moreover obtain v' where "scan_pairs keep buf (start + 2) (length bs)
      (if keep then Some (of_nat (unat b)) else None) = Some (bs, v')"
    using Cons.IH calculation(2) by blast
  ultimately show ?case by (simp add: Let_def del: of_nat_unat split del: if_split cong: if_cong)
qed simp

text \<open>A tagged value: where it is found, where it ends, and its bytes.\<close>

lemma tagged_value:
  assumes "CHR ''='' \<notin> set pre" "c \<noteq> CHR ''=''" "c \<noteq> CHR '',''" "length pre + 2 + 2 * length bs < len"
    and buf: "buf = pre @ c # CHR ''='' # hex_bytes u bs @ CHR '','' # rest"
  shows "scan_tag c buf len 0 = Some (length pre)"
    and "scan_comma buf len (length pre) = Some (length pre + 2 + 2 * length bs)"
    and "\<exists>v'. scan_pairs False buf (length pre + 2) (length bs) None = Some (bs, v')"
proof -
  have "at_tag c buf j = Some False" if "j < length pre" for j
  proof -
    have "(pre @ [c]) ! (j + 1) \<noteq> CHR ''=''"
      using that assms(1,2) nth_mem [of "j + 1" "pre @ [c]"] by auto
    moreover have "rd buf (j + 1) = Some ((pre @ [c]) ! (j + 1))"
      using that by (simp add: rd_def buf nth_append)
    ultimately show ?thesis using that by (simp add: at_tag_def buf)
  qed
  moreover have "at_tag c buf (length pre) = Some True"
    by (simp add: at_tag_def rd_def buf nth_append)
  ultimately show "scan_tag c buf len 0 = Some (length pre)"
    using assms(4) by (intro scan_tag_found) auto
  show "scan_comma buf len (length pre) = Some (length pre + 2 + 2 * length bs)"
  proof (rule scan_comma_found)
    let ?mid = "c # CHR ''='' # hex_bytes u bs"
    have eq: "buf = (pre @ ?mid) @ CHR '','' # rest" by (simp add: buf)
    show "buf ! j \<noteq> CHR '',''" if "length pre \<le> j" "j < length pre + 2 + 2 * length bs" for j
    proof -
      have "buf ! j = ?mid ! (j - length pre)" using that by (simp add: eq nth_append del: append_assoc)
      moreover have "?mid ! (j - length pre) \<in> set ?mid" using that by (intro nth_mem) simp
      ultimately show ?thesis using assms(3) hex_bytes_plain(1) by auto
    qed
    show "buf ! (length pre + 2 + 2 * length bs) = CHR '',''"
      unfolding eq by (subst nth_append_right) simp_all
  qed (use assms(4) in \<open>simp_all add: buf\<close>)
  have "drop (length pre + 2) buf = hex_bytes u bs @ CHR '','' # rest" by (simp add: buf)
  then show "\<exists>v'. scan_pairs False buf (length pre + 2) (length bs) None = Some (bs, v')"
    by (rule scan_pairs_hex_bytes)
qed

lemma find_stream_id_found:
  assumes "CHR ''='' \<notin> set pre" "length pre + 18 < len"
  shows "find_stream_id (pre @ ''S='' @ hex_bytes u (le_bytes 8 sid) @ CHR '','' # rest) len s0 = Some (length pre + 18, sid)"
proof -
  note t = tagged_value [OF assms(1), of "CHR ''S''" "le_bytes 8 sid" len _ u rest, OF _ _ _ refl]
  show ?thesis using t assms(2) by (auto simp: find_stream_id_def)
qed

lemma find_dst_found:
  assumes "CHR ''='' \<notin> set pre" "length pre + 14 < len" "length dst = 6"
  shows "find_dst (pre @ ''A='' @ hex_bytes u dst @ CHR '','' # rest) len d0 = Some (length pre + 14, dst)"
proof -
  note t = tagged_value [OF assms(1), of "CHR ''A''" dst len _ u rest, OF _ _ _ refl]
  show ?thesis using t assms(2,3) by (auto simp: find_dst_def)
qed

text \<open>The two kinds of messages of the daemon that the threads react to.\<close>

definition talker_msg :: "string \<Rightarrow> bool \<Rightarrow> u64 \<Rightarrow> bytes \<Rightarrow> string \<Rightarrow> string" where
  "talker_msg kind u sid dst rem =
     kind @ '' T:S='' @ hex_bytes u (le_bytes 8 sid) @ '',A='' @ hex_bytes u dst @ CHR '','' # rem"

definition listener_msg :: "string \<Rightarrow> bool \<Rightarrow> nat \<Rightarrow> u64 \<Rightarrow> string \<Rightarrow> string" where
  "listener_msg kind u state sid rem =
     kind @ '' L:D='' @ dec state @ '',S='' @ hex_bytes u (le_bytes 8 sid) @ rem"

lemma talker_msg_parts:
  assumes "length kind = 3" "CHR ''='' \<notin> set kind" "length dst = 6" "buflen = length (talker_msg kind u sid dst rem)"
  shows "find_stream_id (talker_msg kind u sid dst rem @ pad) buflen 0 = Some (24, sid)"
    and "find_dst (drop 24 (talker_msg kind u sid dst rem @ pad)) (buflen - 24) d0 = Some (15, dst)"
    and "drop 39 (talker_msg kind u sid dst rem @ pad) = CHR '','' # rem @ pad"
proof -
  let ?rest = "''A='' @ hex_bytes u dst @ CHR '','' # rem @ pad"
  have len: "buflen = 40 + length rem" using assms by (simp add: talker_msg_def)
  have m: "talker_msg kind u sid dst rem @ pad
      = (kind @ '' T:'') @ ''S='' @ hex_bytes u (le_bytes 8 sid) @ CHR '','' # ?rest"
    by (simp add: talker_msg_def)
  show "find_stream_id (talker_msg kind u sid dst rem @ pad) buflen 0 = Some (24, sid)"
    unfolding m using find_stream_id_found [of "kind @ '' T:''" buflen u sid ?rest 0] assms(1,2) len by simp
  have d: "drop 24 (talker_msg kind u sid dst rem @ pad) = '','' @ ?rest"
    unfolding m using assms(1) by simp
  show "find_dst (drop 24 (talker_msg kind u sid dst rem @ pad)) (buflen - 24) d0 = Some (15, dst)"
    unfolding d using find_dst_found [of "'',''" "buflen - 24" dst u "rem @ pad" d0] assms(3) len by simp
  have "drop 39 (talker_msg kind u sid dst rem @ pad) = drop 15 (drop 24 (talker_msg kind u sid dst rem @ pad))"
    by (simp only: drop_drop) simp
  then show "drop 39 (talker_msg kind u sid dst rem @ pad) = CHR '','' # rem @ pad"
    unfolding d using assms(3) by simp
qed

lemma listener_msg_scanned:
  assumes "length kind = 3" "state < 2 ^ 32"
  shows "\<exists>i v'. scan_listener (listener_msg kind u state sid rem @ pad) 5 v = Some (sid, i, v')
    \<and> sv_substate v' = Some (of_nat state)"
proof -
  let ?m = "listener_msg kind u state sid rem @ pad"
  let ?tl = "hex_bytes u (le_bytes 8 sid) @ rem @ pad"
  have no: "x \<notin> set (dec state)" if "x \<in> {CHR ''D'', CHR ''S''}" for x
    using dec_digits [of x state] that by auto
  have d5: "find_char (CHR ''D'') ?m 5 = Some 6"
    using find_char_append [of "CHR ''D''" "'':''" "kind @ '' L''" "''='' @ dec state @ '',S='' @ ?tl"] assms(1)
    by (simp add: listener_msg_def)
  have d8: "drop 8 ?m = dec state @ CHR '','' # ''S='' @ ?tl"
    using assms(1) by (simp add: listener_msg_def)
  have state: "sscanf_d (drop 8 ?m) = Some (Some (of_nat state))"
    unfolding d8 by (rule sscanf_d_dec [OF _ assms(2)]) (simp add: digit_value_def unhex_digit_def Let_def)
  have s8: "find_char (CHR ''S'') ?m 8 = Some (9 + length (dec state))"
    using find_char_append [of "CHR ''S''" "dec state @ '',''" "kind @ '' L:D=''" "''='' @ ?tl"] assms(1) no
    by (simp add: listener_msg_def)
  have "drop (9 + length (dec state) + 2) ?m = drop (length (dec state) + 3) (drop 8 ?m)"
    by (simp only: drop_drop add.commute [of _ 8]) (simp only: ac_simps, simp)
  also have "\<dots> = ?tl" unfolding d8 by simp
  finally obtain w where "scan_pairs True ?m (9 + length (dec state) + 2) 8 (sv_id v) = Some (le_bytes 8 sid, w)"
    using scan_pairs_hex_bytes [of _ ?m u "le_bytes 8 sid" "rem @ pad" True "sv_id v"] by auto
  with d5 state s8 show ?thesis by (simp add: scan_listener_def)
qed

section \<open>Properties\<close>

text \<open>C14: The parser of stream ids is inverse to the printer.  In a message in which the first \<open>=\<close> belongs to
  the tag \<open>S=\<close>, followed by the eight bytes of a stream id in hexadecimal (of either case) and a comma,
  \<open>find_stream_id\<close> finds exactly this id and returns the position of the comma.\<close>

theorem stream_id_print_parse:
  assumes "CHR ''='' \<notin> set pre" "length pre + 18 < len"
  shows "find_stream_id (pre @ ''S='' @ hex_bytes u (le_bytes 8 sid) @ CHR '','' # rest) len s0 = Some (length pre + 18, sid)"
  using assms by (rule find_stream_id_found)

theorem stream_id_print_parse_witness:
  "find_stream_id (''SNE T:'' @ ''S='' @ hex_bytes True (le_bytes 8 (0x0102030405060708 :: u64)) @ '',A=01005E000001'') 40 0
    = Some (24, 0x0102030405060708)"
  using stream_id_print_parse [of "''SNE T:''" 40 True "0x0102030405060708" "''A=01005E000001''" 0] by simp

text \<open>C12: A listener follows its talker.  When the MRP daemon reports that the talker of a stream appeared (\<^verbatim>\<open>SNE T\<close>,
  \<^verbatim>\<open>SJO T\<close>) or left (\<^verbatim>\<open>SLE T\<close>), and the handler has an Rx channel for this stream, the channel becomes ready or not
  ready accordingly, the daemon is sent exactly one message that joins or leaves the stream, and no other
  channel changes.\<close>

theorem listener_follows_talker:
  assumes "w_nh w nh = Some n" "nh_srp n = Some s" "0 \<le> srp_sock s" "w_ch w ch = Some c"
    "\<And>m. 0 < os_mrp_send os (w_tick w) (srp_sock s) m"
    and rx: "get_rx_chan_from_sid w (Some nh) sid = Some (Some ch)"
    and kind: "kind \<in> {''SNE'', ''SJO'', ''SLE''}" and dst: "length dst = 6"
  shows "\<exists>w'. nc_mrp_listener_process_msg os (talker_msg kind u sid dst rem @ pad) (length (talker_msg kind u sid dst rem))
      (Some nh) w = Some (0, w')
    \<and> w_ch w' = (w_ch w)(ch \<mapsto> c\<lparr>ch_ready := kind \<noteq> ''SLE''\<rparr>)
    \<and> w_mrp w' = w_mrp w @ [(srp_sock s,
        (if kind = ''SLE'' then ''S-L:L='' else ''S+L:L='') @ hex_bytes False (le_bytes 8 sid)
        @ (if kind = ''SLE'' then '', D=3'' else '', D=2''))]"
proof -
  let ?m = "talker_msg kind u sid dst rem @ pad" and ?len = "length (talker_msg kind u sid dst rem)"
  have k: "length kind = 3" "CHR ''='' \<notin> set kind" using kind by auto
  note parts = talker_msg_parts [OF k dst refl, of u sid rem pad]
  have cmp: "strncmp_mem 6 ?m ''SNE T:'' = Some (kind = ''SNE'')" "strncmp_mem 6 ?m ''SJO T:'' = Some (kind = ''SJO'')"
    "strncmp_mem 7 ?m ''SLE T:S'' = Some (kind = ''SLE'')"
    using kind by (auto simp: talker_msg_def eval_nat_numeral)
  have dom: "strncmp_mem 6 (drop 39 ?m) ''SJO D:'' = Some False"
    unfolding parts(3) by (simp add: eval_nat_numeral)
  have send: "i_send_msg os (Some s) m w = (os_mrp_send os (w_tick w) (srp_sock s) m, (tick w)\<lparr>w_mrp := w_mrp w @ [(srp_sock s, m)]\<rparr>)" for m
    using assms(3) assms(5) [of m] by (simp add: i_send_msg_def Let_def)
  have dec23: "dec_int 2 = ''2''" "dec_int 3 = ''3''" by code_simp+
  show ?thesis
    using assms(1,2,4) rx kind parts(1) parts(2) [of "replicate 6 0"] cmp dom assms(5)
    by (auto simp: nc_mrp_listener_process_msg_def listener_talker_part_def nh_notify_listener_Tnew_def
        nh_notify_listener_Tleave_def nc_mrp_send_ready_def nc_mrp_send_leave_def i_listener_join_stream_def send
        snprintf_def get_nh_def dec23)
qed

text \<open>An example: the handler of the example world with SRP.\<close>

definition srp_nh :: nethandler where
  "srp_nh = demo_nh\<lparr>nh_srp := Some demo_srp, nh_use_srp := True\<rparr>"

definition srp_world :: world where
  "srp_world = demo_world\<lparr>w_nh := [1 \<mapsto> srp_nh], w_ch := [2 \<mapsto> demo_tx\<lparr>ch_ready := False\<rparr>, 3 \<mapsto> demo_rx\<lparr>ch_ready := False\<rparr>]\<rparr>"

lemma srp_world_at:
  "w_nh srp_world 1 = Some srp_nh" "nh_srp srp_nh = Some demo_srp" "0 \<le> srp_sock demo_srp"
  "w_ch srp_world 2 = Some (demo_tx\<lparr>ch_ready := False\<rparr>)" "w_ch srp_world 3 = Some (demo_rx\<lparr>ch_ready := False\<rparr>)"
  "get_tx_chan_from_sid srp_world (Some 1) 42 = Some (Some 2)"
  "get_rx_chan_from_sid srp_world (Some 1) 43 = Some (Some 3)"
  by (simp_all add: srp_world_def srp_nh_def demo_srp_def get_tx_chan_from_sid_def get_rx_chan_from_sid_def get_nh_def
      demo_nh_def get_hm_idx_def find_sid_loop.simps demo_tx_def demo_rx_def)

theorem listener_follows_talker_witness:
  "\<exists>w'. nc_mrp_listener_process_msg (demo_os\<lparr>os_mrp_send := \<lambda>_ _ _. 1\<rparr>) (talker_msg ''SNE'' True 43 [1, 0, 94, 0, 0, 1] ''V=0002'' @ replicate 100 (CHR 0x00))
      (length (talker_msg ''SNE'' True 43 [1, 0, 94, 0, 0, 1] ''V=0002'')) (Some 1) srp_world = Some (0, w')
    \<and> map_option ch_ready (w_ch w' 3) = Some True"
  using listener_follows_talker [OF srp_world_at(1,2,3,5) _ srp_world_at(7), of "demo_os\<lparr>os_mrp_send := \<lambda>_ _ _. 1\<rparr>"
      "''SNE''" "[1, 0, 94, 0, 0, 1]" True "''V=0002''" "replicate 100 (CHR 0x00)"]
  by auto

text \<open>C13: A talker follows its listeners.  When the MRP daemon reports that a listener of a stream appeared (\<^verbatim>\<open>SNE L\<close>,
  \<^verbatim>\<open>SJO L\<close>, in a state above \<^verbatim>\<open>ASKFAILED\<close>) or left (\<^verbatim>\<open>SLE L\<close>), the Tx channel of this stream becomes ready or not ready, and
  nothing else changes; a listener in the failed state changes nothing.  One listener that leaves is enough: the code does not count
  the listeners, although the comments on \<^verbatim>\<open>remote_listener\<close> (\<^verbatim>\<open>netchan.h\<close>) and in \<^verbatim>\<open>chan_create_tx\<close> say that the channel stays ready until
  all of them have left, and a FIXME in \<^verbatim>\<open>nh_notify_talker_Lleaving\<close> asks for it.\<close>

theorem talker_follows_listener:
  assumes "get_tx_chan_from_sid w (Some nh) sid = Some (Some ch)" "w_ch w ch = Some c"
    and kind: "kind \<in> {''SNE'', ''SJO'', ''SLE''}" and "state < 2 ^ 32"
  shows "nc_mrp_talker_process_msg (listener_msg kind u state sid rem @ pad) (length (listener_msg kind u state sid rem))
      (Some nh) w
    = Some (0, if kind = ''SLE'' then set_ch ch (c\<lparr>ch_ready := False\<rparr>) w
               else if 1 < state then set_ch ch (c\<lparr>ch_ready := True\<rparr>) w else w)"
proof -
  let ?m = "listener_msg kind u state sid rem @ pad"
  have k: "length kind = 3" "kind ! 0 = CHR ''S''" using kind by auto
  have b: "rd ?m 0 = Some (CHR ''S'')" "rd ?m 4 = Some (CHR ''L'')" "rd ?m 1 = Some (kind ! 1)" "0 < length (listener_msg kind u state sid rem)"
    using kind by (auto simp: rd_def listener_msg_def)
  obtain i v' where s: "scan_listener ?m 5 \<lparr>sv_id = None, sv_priority = None, sv_vid = None, sv_substate = None\<rparr> = Some (sid, i, v')"
    "sv_substate v' = Some (of_nat state)"
    using listener_msg_scanned [OF k(1) \<open>state < 2 ^ 32\<close>] by blast
  have "(1 :: u32) < of_nat state \<longleftrightarrow> 1 < state"
    using \<open>state < 2 ^ 32\<close> by (simp add: word_less_nat_alt unat_of_nat take_bit_eq_mod)
  then show ?thesis
    using assms(1,2) kind b s
    by (auto simp: nc_mrp_talker_process_msg_def talker_lines.simps talker_line_def nh_notify_talker_Lnew_def
        nh_notify_talker_Lleaving_def MSRP_LISTENER_ASKFAILED_def)
qed

theorem talker_follows_listener_witness:
  "nc_mrp_talker_process_msg (listener_msg ''SJO'' False 2 42 [] @ replicate 100 (CHR 0x00)) (length (listener_msg ''SJO'' False 2 42 []))
      (Some 1) srp_world = Some (0, set_ch 2 demo_tx srp_world)"
proof -
  have "demo_tx\<lparr>ch_ready := True\<rparr> = demo_tx" by (simp add: demo_tx_def)
  then show ?thesis using talker_follows_listener [OF srp_world_at(6,4), of "''SJO''" 2 False "[]" "replicate 100 (CHR 0x00)"] by simp
qed

text \<open>A listener message without a state makes the parser run off its buffer: the search for \<^verbatim>\<open>D\<close> has no
  bound, so if the rest of the receive buffer does not happen to contain one, the call reads out of bounds.\<close>

lemma stateless_listener_message_overruns:
  assumes "0 < buflen" "CHR ''D'' \<notin> set buf"
    and "buf = ''L'' @ rem \<or> (\<exists>a b c. buf = [CHR ''S'', a, b, c, CHR ''L''] @ rem)"
  shows "nc_mrp_talker_process_msg buf buflen nhp w = None"
  using assms
  by (auto simp: nc_mrp_talker_process_msg_def talker_lines.simps talker_line_def rd_def scan_listener_def
      find_char_none)

text \<open>The announcement of a talker, and the talkers that are announced: those that no listener has
  taken up and nobody has stopped.\<close>

definition advert :: "srp \<Rightarrow> channel \<Rightarrow> int \<times> string" where
  "advert s c = (srp_sock s, snprintf 129 (''S++:S='' @ hex_bytes True (le_bytes 8 (ch_sidw c))
     @ '',A='' @ hex_bytes True (take 6 (ch_dst c)) @ '',V='' @ hex_int True 4 (srp_vid_a s)
     @ '',Z='' @ dec_int (uint (ch_full_size c)) @ '',I='' @ dec_int 1
     @ '',P='' @ dec_int (srp_prio_a s * 2 ^ 5) @ '',L='' @ dec_int 3900))"

definition adverts :: "srp \<Rightarrow> world \<Rightarrow> addr list \<Rightarrow> (int \<times> string) list" where
  "adverts s w xs = map (advert s)
     (filter (\<lambda>c. \<not> ch_ready c \<and> \<not> ch_stopping c) (map (\<lambda>a. the (w_ch w a)) xs))"

lemma adverts_cong: "w_ch w' = w_ch w \<Longrightarrow> adverts s w' xs = adverts s w xs"
  by (simp add: adverts_def)

lemma new_talker_sends:
  assumes "w_ch w ch = Some c" "ch_nh c = Some nh" "w_nh w nh = Some n" "nh_srp n = Some s" "0 \<le> srp_sock s"
    "\<not> ch_stopping c" "\<And>t m. 0 < os_mrp_send os t (srp_sock s) m"
  shows "nc_srp_new_talker os (Some ch) w = Some (True, (tick w)\<lparr>w_mrp := w_mrp w @ [advert s c]\<rparr>)"
  using assms by (simp add: nc_srp_new_talker_def talker_msg_defs i_advertise_stream_def i_send_msg_def advert_def Let_def
      less_imp_le not_less)

lemma announce_walk_adverts:
  assumes "w_nh w nh = Some n" "nh_srp n = Some s" "0 \<le> srp_sock s" "\<And>t m. 0 < os_mrp_send os t (srp_sock s) m"
    "chain (w_ch w) p xs" "\<forall>a \<in> set xs. map_option ch_nh (w_ch w a) = Some (Some nh)"
  shows "\<exists>k. announce_walk os p w = Some (w\<lparr>w_tick := k, w_mrp := w_mrp w @ adverts s w xs\<rparr>)"
  using assms(1,5,6)
proof (induction xs arbitrary: p w)
  case Nil
  then show ?case by (subst announce_walk.simps) (auto simp: adverts_def intro: exI [of _ "w_tick w"])
next
  case (Cons a xs)
  then obtain c where c: "p = Some a" "w_ch w a = Some c" "chain (w_ch w) (ch_next c) xs" "ch_nh c = Some nh" by auto
  define w1 where "w1 = (if \<not> ch_ready c \<and> \<not> ch_stopping c then (tick w)\<lparr>w_mrp := w_mrp w @ [advert s c]\<rparr> else w)"
  have w1: "w_ch w1 = w_ch w" "w_nh w1 = w_nh w" by (simp_all add: w1_def)
  have "(if \<not> ch_ready c \<and> \<not> ch_stopping c then map_option snd (nc_srp_new_talker os (Some a) w) else Some w) = Some w1"
    using new_talker_sends [OF c(2,4) Cons.prems(1) assms(2,3) _ assms(4)] by (simp add: w1_def)
  then have "announce_walk os p w = announce_walk os (ch_next c) w1"
    using c(1,2) w1(1) by (subst announce_walk.simps) simp
  moreover obtain k where "announce_walk os (ch_next c) w1
      = Some (w1\<lparr>w_tick := k, w_mrp := w_mrp w1 @ adverts s w1 xs\<rparr>)"
    using Cons.IH [of w1 "ch_next c"] Cons.prems(1,3) c(3) w1 by auto
  ultimately show ?case
    using c(2) by (intro exI [of _ k]) (simp add: adverts_cong [OF w1(1)], simp add: adverts_def w1_def tick_def)
qed

lemma announce_rounds:
  assumes "w_nh w nh = Some n" "nh_running n" "nh_srp n = Some s" "0 \<le> srp_sock s"
    "\<And>t m. 0 < os_mrp_send os t (srp_sock s) m"
    "tx_chans w nh xs tp" "\<forall>a \<in> set xs. map_option ch_nh (w_ch w a) = Some (Some nh)"
  shows "\<exists>k. announce_loop os nh (replicate r False) ts w
    = Some (w\<lparr>w_tick := k, w_mrp := w_mrp w @ concat (replicate r (adverts s w xs)),
        w_sleep := w_sleep w @ map (\<lambda>i. (CLOCK_MONOTONIC, ts\<lparr>tv_sec := tv_sec ts + 10 * int (Suc i)\<rparr>)) [0..<r]\<rparr>)"
  using assms(1,6,7)
proof (induction r arbitrary: ts w)
  case 0
  then show ?case by (auto intro: exI [of _ "w_tick w"])
next
  case (Suc r)
  have "chain (w_ch w) (nh_tx_head n) xs" using Suc.prems(1,2) by (simp add: tx_chans_def)
  from announce_walk_adverts [OF Suc.prems(1) assms(3,4,5) this Suc.prems(3)] obtain k where
    k: "announce_walk os (nh_tx_head n) w = Some (w\<lparr>w_tick := k, w_mrp := w_mrp w @ adverts s w xs\<rparr>)" by blast
  let ?ts = "ts\<lparr>tv_sec := tv_sec ts + 10\<rparr>"
  let ?w = "w\<lparr>w_mrp := w_mrp w @ adverts s w xs, w_tick := Suc k, w_sleep := w_sleep w @ [(CLOCK_MONOTONIC, ?ts)]\<rparr>"
  obtain k' where "announce_loop os nh (replicate r False) ?ts ?w
    = Some (?w\<lparr>w_tick := k', w_mrp := w_mrp ?w @ concat (replicate r (adverts s ?w xs)),
        w_sleep := w_sleep ?w @ map (\<lambda>i. (CLOCK_MONOTONIC, ?ts\<lparr>tv_sec := tv_sec ?ts + 10 * int (Suc i)\<rparr>)) [0..<r]\<rparr>)"
    using Suc.IH [of ?w ?ts] Suc.prems by (auto simp: tx_chans_def)
  moreover have "announce_loop os nh (replicate (Suc r) False) ts w = announce_loop os nh (replicate r False) ?ts ?w"
    using Suc.prems(1) assms(2) k by (simp add: os_sleep_until_def tick_def Let_def)
  moreover have "map f [0..<Suc r] = f 0 # map (\<lambda>i. f (Suc i)) [0..<r]" for f :: "nat \<Rightarrow> int \<times> timespec"
    by (simp add: upt_conv_Cons map_Suc_upt [symmetric] del: upt_Suc)
  ultimately show ?case
    by (intro exI [of _ k']) (simp add: adverts_cong [of ?w w] algebra_simps del: upt_Suc)
qed

text \<open>C15: The announcer.  While the handler runs and the daemon accepts messages, every round of the announcer thread sends one
  announcement for each Tx channel that is neither ready nor stopping, in the order of the list, and then
  sleeps until exactly ten seconds after the previous round was due; it changes nothing else.\<close>

theorem announcer_repeats:
  assumes "w_nh w nh = Some n" "nh_running n" "nh_srp n = Some s" "0 \<le> srp_sock s"
    "\<And>t m. 0 < os_mrp_send os t (srp_sock s) m"
    "tx_chans w nh xs tp" "\<forall>a \<in> set xs. map_option ch_nh (w_ch w a) = Some (Some nh)"
    "os_clock os (w_tick w) CLOCK_MONOTONIC = Some ts"
  shows "\<exists>k. nc_srp_talker_announce os (Some nh) (replicate r False) w
    = Some (w\<lparr>w_tick := k, w_mrp := w_mrp w @ concat (replicate r (adverts s w xs)),
        w_sleep := w_sleep w @ map (\<lambda>i. (CLOCK_MONOTONIC, ts\<lparr>tv_sec := tv_sec ts + 10 * int (Suc i)\<rparr>)) [0..<r]\<rparr>)"
proof -
  have "tx_chans (tick w) nh xs tp" "w_nh (tick w) nh = Some n"
    "\<forall>a \<in> set xs. map_option ch_nh (w_ch (tick w) a) = Some (Some nh)"
    using assms(1,6,7) by (simp_all add: tx_chans_def)
  from announce_rounds [OF this(2) assms(2-5) this(1,3), of r ts] assms(1,3,8) show ?thesis
    by (auto simp: nc_srp_talker_announce_def read_clock_def adverts_cong [of "tick w" w]) (auto simp: tick_def)
qed

theorem announcer_repeats_witness:
  "\<exists>k. nc_srp_talker_announce (demo_os\<lparr>os_mrp_send := \<lambda>_ _ _. 1\<rparr>) (Some 1) [False, False] srp_world
    = Some (srp_world\<lparr>w_tick := k, w_mrp := [advert demo_srp (demo_tx\<lparr>ch_ready := False\<rparr>), advert demo_srp (demo_tx\<lparr>ch_ready := False\<rparr>)],
        w_sleep := [(CLOCK_MONOTONIC, \<lparr>tv_sec = 1010, tv_nsec = 0\<rparr>), (CLOCK_MONOTONIC, \<lparr>tv_sec = 1020, tv_nsec = 0\<rparr>)]\<rparr>)"
proof -
  have "tx_chans srp_world 1 [2] (Some 2)" "nh_running srp_nh" "ch_stopping demo_tx = False"
    "\<forall>a \<in> set [2]. map_option ch_nh (w_ch srp_world a) = Some (Some 1)" "w_mrp srp_world = []" "w_sleep srp_world = []"
    by (simp_all add: tx_chans_def srp_world_def srp_nh_def demo_nh_def demo_tx_def zero_channel_def demo_world_def empty_world_def)
  then show ?thesis
    using announcer_repeats [OF srp_world_at(1) _ srp_world_at(2,3), of "demo_os\<lparr>os_mrp_send := \<lambda>_ _ _. 1\<rparr>" "[2]" "Some 2"
        "\<lparr>tv_sec = 1000, tv_nsec = 0\<rparr>" 2] srp_world_at(4)
    by (simp add: adverts_def demo_os_def upt_conv_Cons numeral_2_eq_2)
qed

end
