(* ===== verification/Sockets.thy ===== *)
theory Sockets
  imports Channel
begin

text \<open>
  Transmission (\<^verbatim>\<open>src/netchan_socket.c\<close> and the \<^verbatim>\<open>chan_send*\<close> functions of
  \<^verbatim>\<open>src/netchan.c\<close>): the Tx sockets of the two shapers, the four send operations of each, and
  their dispatch.  TAS hands the kernel a launch time with every frame and paces the channel
  by \<open>ch_next_tx_ns\<close>; CBS sleeps, if at all, and then sends.

  The locale \<open>chan_sender\<close> is what \<open>chan_send_now\<close> relies on; both tables are instances.
\<close>

section \<open>Sockets\<close>

definition AF_PACKET :: int where "AF_PACKET = 17"
definition ETH_P_TSN :: u16 where "ETH_P_TSN = 0x22F0"
definition ETH_ALEN :: nat where "ETH_ALEN = 6"
definition SOF_TXTIME_REPORT_ERRORS :: int where "SOF_TXTIME_REPORT_ERRORS = 2"

text \<open>The descriptor that \<^verbatim>\<open>socket\<close> returned is open; it stays open on the early returns.\<close>

definition i_nc_create_tx_sock :: "os \<Rightarrow> addr \<Rightarrow> world \<Rightarrow> (int \<times> world) option" where
  "i_nc_create_tx_sock os ch w =
     (let sock = os_socket os (w_tick w); w = tick w
      in if sock < 0 then Some (-1, w)
         else
           let w = w\<lparr>w_fds := (w_fds w)(sock \<mapsto> Fd_other)\<rparr>;
               r = os_setsockopt os (w_tick w);
               w = tick w
           in if r < 0 then Some (-1, w)
              else do {
                c \<leftarrow> w_ch w ch;
                n \<leftarrow> get_nh w (ch_nh c);
                w \<leftarrow> upd_ch ch (\<lambda>c. c\<lparr>ch_sk_addr := (ch_sk_addr c)\<lparr>sll_family := AF_PACKET,
                       sll_protocol := htons ETH_P_TSN, sll_halen := ETH_ALEN, sll_ifindex := nh_ifidx n,
                       sll_addr := overwrite (sll_addr (ch_sk_addr c)) (take ETH_ALEN (ch_dst c))\<rparr>\<rparr>) w;
                Some (sock, w)
              })"

definition nc_create_cbs_tx_sock :: "os \<Rightarrow> addr option \<Rightarrow> world \<Rightarrow> (bool \<times> world) option" where
  "nc_create_cbs_tx_sock os chp w =
     (case chp of
        None \<Rightarrow> Some (False, w)
      | Some ch \<Rightarrow> do {
          c \<leftarrow> w_ch w ch;
          n \<leftarrow> get_nh w (ch_nh c);
          w \<leftarrow> upd_ch ch (\<lambda>c. c\<lparr>ch_tx_sock_prio := nh_tx_cbs_sock_prio n, ch_ops := Some cbs_ops\<rparr>) w;
          (sock, w) \<leftarrow> i_nc_create_tx_sock os ch w;
          w \<leftarrow> upd_ch ch (\<lambda>c. c\<lparr>ch_tx_sock := sock\<rparr>) w;
          Some (sock > 0, w)
        })"

definition nc_create_tas_tx_sock :: "os \<Rightarrow> addr option \<Rightarrow> world \<Rightarrow> (bool \<times> world) option" where
  "nc_create_tas_tx_sock os chp w =
     (case chp of
        None \<Rightarrow> Some (False, w)
      | Some ch \<Rightarrow> do {
          c \<leftarrow> w_ch w ch;
          n \<leftarrow> get_nh w (ch_nh c);
          w \<leftarrow> upd_ch ch (\<lambda>c. c\<lparr>ch_tx_sock_prio := nh_tx_tas_sock_prio n\<rparr>) w;
          (sock, w) \<leftarrow> i_nc_create_tx_sock os ch w;
          w \<leftarrow> upd_ch ch (\<lambda>c. c\<lparr>ch_tx_sock := sock\<rparr>) w;
          if sock < 0 then Some (False, w)
          else do {
            w \<leftarrow> upd_ch ch (\<lambda>c. c\<lparr>ch_txtime := \<lparr>tt_clockid = CLOCK_TAI, tt_flags = SOF_TXTIME_REPORT_ERRORS\<rparr>\<rparr>) w;
            let r = os_setsockopt os (w_tick w);
            let w = tick w;
            if r \<noteq> 0
            then do {
              w \<leftarrow> upd_ch ch (\<lambda>c. c\<lparr>ch_tx_sock := -1\<rparr>) (os_close sock w);
              Some (False, w)
            }
            else do {
              w \<leftarrow> upd_ch ch (\<lambda>c. c\<lparr>ch_ops := Some tas_ops\<rparr>) w;
              Some (True, w)
            }
          }
        })"

text \<open>
  The error queue: the \<open>(ee_origin, ee_code)\<close> of its control messages, or \<open>None\<close> when the
  read fails.  Only a launch-time error with an unknown code is reported to the caller.
\<close>

definition SO_EE_ORIGIN_TXTIME :: nat where "SO_EE_ORIGIN_TXTIME = 6"

fun scan_errqueue :: "(nat \<times> nat) list \<Rightarrow> int" where
  "scan_errqueue [] = 0"
| "scan_errqueue ((origin, code) # rest) =
     (if origin = SO_EE_ORIGIN_TXTIME \<and> code \<noteq> 1 \<and> code \<noteq> 2 then -1 else scan_errqueue rest)"

text \<open>The clock readings that the code makes for the text of the report are left out; nothing else depends on them.\<close>

definition nc_handle_sock_err :: "os \<Rightarrow> int \<Rightarrow> int \<Rightarrow> world \<Rightarrow> int \<times> world" where
  "nc_handle_sock_err os sock ptp_fd w =
     (let err = os_poll_err os (w_tick w); w = tick w
      in if err
         then case os_errqueue os (w_tick w) of
                None \<Rightarrow> (0, tick w)
              | Some msgs \<Rightarrow> (scan_errqueue msgs, tick w)
         else (0, w))"

section \<open>Handing a frame to the kernel\<close>

text \<open>\<^verbatim>\<open>&ch->pdu\<close> and the payload behind it; an accepted frame is on the network.\<close>

definition frame_bytes :: "channel \<Rightarrow> bytes" where
  "frame_bytes c = pdu_bytes (ch_pdu c) @ take (unat (ch_payload_size c)) (ch_payload c)"

definition os_send_frame :: "os \<Rightarrow> channel \<Rightarrow> u64 option \<Rightarrow> world \<Rightarrow> int \<times> world" where
  "os_send_frame os c txtime w =
     (let f = \<lparr>fr_sock = ch_tx_sock c, fr_addr = ch_sk_addr c, fr_bytes = frame_bytes c, fr_txtime = txtime\<rparr>;
          r = os_send os (w_tick w) f
      in (r, (if r < 0 then tick w else (tick w)\<lparr>w_net := w_net w @ [f]\<rparr>)))"

section \<open>TAS\<close>

text \<open>
  The do-while loop: its body does not depend on the previous round, so it ends after the
  first round or never.
\<close>

partial_function (option) tas_next_loop :: "u64 \<Rightarrow> u64 \<Rightarrow> u64 \<Rightarrow> u64 option" where
  "tas_next_loop txtime interval_ns tai_now =
     (let next_tx_ns = txtime + interval_ns
      in if next_tx_ns < tai_now then tas_next_loop txtime interval_ns tai_now else Some next_tx_ns)"

text \<open>\<open>tx_ns\<close> is the caller's variable, if any; the operations return its new value.\<close>

definition i_tas_send_at ::
  "os \<Rightarrow> addr \<Rightarrow> u64 option \<Rightarrow> world \<Rightarrow> ((int \<times> u64 option) \<times> world) option" where
  "i_tas_send_at os ch tx_ns w = do {
     (t, w) \<leftarrow> read_tai os w;
     let tai_now = t + 50 * word_of_int NS_IN_US;
     c \<leftarrow> w_ch w ch;
     let txtime = (if tai_now > ch_next_tx_ns c then tai_now else ch_next_tx_ns c);
     let txtime = (case tx_ns of
                     Some t \<Rightarrow> if t > tai_now \<and> t < tai_now + ch_next_tx_ns c then t else txtime
                   | None \<Rightarrow> txtime);
     next_tx_ns \<leftarrow> tas_next_loop txtime (ch_interval_ns c) tai_now;
     w \<leftarrow> upd_ch ch (\<lambda>c. c\<lparr>ch_next_tx_ns := next_tx_ns\<rparr>) w;
     let tx_ns = map_option (\<lambda>_. txtime) tx_ns;
     let (txsz, w) = os_send_frame os c (Some txtime) w;
     nh \<leftarrow> ch_nh c;
     n \<leftarrow> w_nh w nh;
     if txsz < 1
     then
       let (e, w) = nc_handle_sock_err os (ch_tx_sock c) (nh_ptp_fd n) w
       in if e < 0 then Some ((-1, tx_ns), w)
          else Some ((txsz - int sizeof_avtpdu_cshdr, tx_ns), w)
     else do {
       w \<leftarrow> with_logger (\<lambda>lg. log_tx (os_fopen os) lg (Some (ch_pdu c)) (ch_sample_ns c) txtime txtime) nh w;
       Some ((txsz - int sizeof_avtpdu_cshdr, tx_ns), w)
     }
   }"

text \<open>\<^verbatim>\<open>while (chan_delay(ch, t) > 50*NS_IN_US) ;\<close>\<close>

partial_function (option) delay_loop :: "os \<Rightarrow> addr \<Rightarrow> u64 \<Rightarrow> world \<Rightarrow> world option" where
  "delay_loop os ch t w = do {
     (e, w) \<leftarrow> chan_delay os (Some ch) t w;
     if e > 50 * NS_IN_US then delay_loop os ch t w else Some w
   }"

text \<open>
  The operations that wait have effects before they can fault.  Their result says whether the call returned or the process died
  from a NULL pointer; the world beside it is the one at that time.
\<close>

datatype 'a outcome = Returned 'a | Segfault

definition i_tas_send_at_wait ::
  "os \<Rightarrow> addr \<Rightarrow> u64 option \<Rightarrow> world \<Rightarrow> ((int \<times> u64 option) outcome \<times> world) option" where
  "i_tas_send_at_wait os ch tx_ns w = do {
     ((res, tx_ns), w) \<leftarrow> i_tas_send_at os ch tx_ns w;
     if res < 0 then Some (Returned (res, tx_ns), w)
     else case tx_ns of
            None \<Rightarrow> Some (Segfault, w)
          | Some t \<Rightarrow> do {
              bound \<leftarrow> get_class_delay_bound_ns w (Some ch);
              let t = t + bound;
              w \<leftarrow> delay_loop os ch t w;
              Some (Returned (res, Some t), w)
            }
   }"

definition i_tas_send_now :: "os \<Rightarrow> addr \<Rightarrow> bytes option \<Rightarrow> world \<Rightarrow> (int \<times> world) option" where
  "i_tas_send_now os ch data w = do {
     (ts_ns, w) \<leftarrow> read_tai os w;
     (r, w) \<leftarrow> chan_update (Some ch) ts_ns data w;
     if r \<noteq> 0 then Some (-1, w)
     else do { ((res, _), w) \<leftarrow> i_tas_send_at os ch None w; Some (res, w) }
   }"

definition i_tas_send_now_wait :: "os \<Rightarrow> addr \<Rightarrow> bytes option \<Rightarrow> world \<Rightarrow> (int outcome \<times> world) option" where
  "i_tas_send_now_wait os ch data w = do {
     (ts_ns, w) \<leftarrow> read_tai os w;
     (r, w) \<leftarrow> chan_update (Some ch) ts_ns data w;
     if r \<noteq> 0 then Some (Returned (-1), w)
     else do { (res, w) \<leftarrow> i_tas_send_at_wait os ch None w; Some (map_outcome fst res, w) }
   }"

section \<open>CBS\<close>

definition i_cbs_send_at ::
  "os \<Rightarrow> addr \<Rightarrow> u64 option \<Rightarrow> world \<Rightarrow> ((int \<times> u64 option) \<times> world) option" where
  "i_cbs_send_at os ch tx_ns w = do {
     (ts_now, w) \<leftarrow> read_tai os w;
     (ts_now, tx_ns, w) \<leftarrow>
       (case tx_ns of
          None \<Rightarrow> Some (ts_now, tx_ns, w)
        | Some t \<Rightarrow>
            if t - 100 * word_of_int NS_IN_US > ts_now
            then do {
              let ts_cpu = ts_normalize_loop
                \<lparr>tv_sec = 0, tv_nsec = sint (t - 100 * word_of_int NS_IN_US)\<rparr>;
              let (_, w) = os_sleep_until os CLOCK_TAI ts_cpu w;
              (r, w) \<leftarrow> read_real os w;
              Some (r, Some r, w)
            }
            else Some (ts_now, tx_ns, w));
     c \<leftarrow> w_ch w ch;
     let (txsz, w) = os_send_frame os c None w;
     nh \<leftarrow> ch_nh c;
     w \<leftarrow> (if txsz < 0 then Some w
           else with_logger (\<lambda>lg. log_tx (os_fopen os) lg (Some (ch_pdu c)) (ch_sample_ns c) ts_now ts_now) nh w);
     Some ((txsz - int sizeof_avtpdu_cshdr, tx_ns), w)
   }"

definition i_cbs_send_at_wait ::
  "os \<Rightarrow> addr \<Rightarrow> u64 option \<Rightarrow> world \<Rightarrow> ((int \<times> u64 option) outcome \<times> world) option" where
  "i_cbs_send_at_wait os ch tx_ns w = do {
     ((res, tx_ns), w) \<leftarrow> i_cbs_send_at os ch tx_ns w;
     if res < 0 then Some (Returned (res, tx_ns), w)
     else case tx_ns of
            None \<Rightarrow> Some (Segfault, w)
          | Some t \<Rightarrow> do {
              bound \<leftarrow> get_class_delay_bound_ns w (Some ch);
              let t = t + bound;
              w \<leftarrow> delay_loop os ch t w;
              Some (Returned (res, Some t), w)
            }
   }"

definition i_cbs_send_now :: "os \<Rightarrow> addr \<Rightarrow> bytes option \<Rightarrow> world \<Rightarrow> (int \<times> world) option" where
  "i_cbs_send_now os ch data w = do {
     (ts_ns, w) \<leftarrow> read_tai os w;
     (r, w) \<leftarrow> chan_update (Some ch) ts_ns data w;
     if r \<noteq> 0 then Some (-1, w)
     else do { ((res, _), w) \<leftarrow> i_cbs_send_at os ch None w; Some (res, w) }
   }"

definition i_cbs_send_now_wait :: "os \<Rightarrow> addr \<Rightarrow> bytes option \<Rightarrow> world \<Rightarrow> (int outcome \<times> world) option" where
  "i_cbs_send_now_wait os ch data w = do {
     (ts_ns, w) \<leftarrow> read_tai os w;
     (r, w) \<leftarrow> chan_update (Some ch) ts_ns data w;
     if r \<noteq> 0 then Some (Returned (-1), w)
     else do { (res, w) \<leftarrow> i_cbs_send_at_wait os ch None w; Some (map_outcome fst res, w) }
   }"

section \<open>Dispatch\<close>

definition chan_send ::
  "os \<Rightarrow> addr option \<Rightarrow> u64 option \<Rightarrow> world \<Rightarrow> ((int \<times> u64 option) \<times> world) option" where
  "chan_send os chp tx_ns w = do {
     v \<leftarrow> chan_valid w chp;
     if \<not> v then Some ((- EINVAL, tx_ns), w)
     else do {
       ch \<leftarrow> chp;
       c \<leftarrow> w_ch w ch;
       if ch_tx_sock c = -1 then Some ((- EINVAL, tx_ns), w)
       else case ch_ops c of
              None \<Rightarrow> Some ((- EINVAL, tx_ns), w)
            | Some tas_ops \<Rightarrow> i_tas_send_at os ch tx_ns w
            | Some cbs_ops \<Rightarrow> i_cbs_send_at os ch tx_ns w
     }
   }"

definition chan_send_now :: "os \<Rightarrow> addr option \<Rightarrow> bytes option \<Rightarrow> world \<Rightarrow> (int \<times> world) option" where
  "chan_send_now os chp data w = do {
     v \<leftarrow> chan_valid w chp;
     if \<not> v then Some (- EINVAL, w)
     else do {
       ch \<leftarrow> chp;
       c \<leftarrow> w_ch w ch;
       case ch_ops c of
         None \<Rightarrow> Some (- EINVAL, w)
       | Some tas_ops \<Rightarrow> i_tas_send_now os ch data w
       | Some cbs_ops \<Rightarrow> i_cbs_send_now os ch data w
     }
   }"

definition chan_send_now_wait :: "os \<Rightarrow> addr option \<Rightarrow> bytes option \<Rightarrow> world \<Rightarrow> (int outcome \<times> world) option" where
  "chan_send_now_wait os chp data w = do {
     v \<leftarrow> chan_valid w chp;
     if \<not> v then Some (Returned (- EINVAL), w)
     else do {
       ch \<leftarrow> chp;
       c \<leftarrow> w_ch w ch;
       case ch_ops c of
         None \<Rightarrow> Some (Returned (- EINVAL), w)
       | Some tas_ops \<Rightarrow> i_tas_send_now_wait os ch data w
       | Some cbs_ops \<Rightarrow> i_cbs_send_now_wait os ch data w
     }
   }"

section \<open>Facts\<close>

lemma tas_next_loop_Some:
  "tas_next_loop txtime iv now = Some r \<Longrightarrow> r = txtime + iv \<and> \<not> r < now"
  by (rule tas_next_loop.raw_induct [where P = "\<lambda>t i n r. r = t + i \<and> \<not> r < n"])
    (auto simp: Let_def split: if_splits)

lemma tas_next_loop_eq:
  "tas_next_loop txtime iv now = (if txtime + iv < now then None else Some (txtime + iv))"
proof (cases "txtime + iv < now")
  case True
  then show ?thesis using tas_next_loop_Some [of txtime iv now] by (cases "tas_next_loop txtime iv now") auto
next
  case False
  then show ?thesis by (subst tas_next_loop.simps) (simp add: Let_def)
qed

text \<open>What the operations need of the environment: a working clock, a kernel that takes frames,
  and room in the log.\<close>

definition clock_ok :: "os \<Rightarrow> bool" where
  "clock_ok os \<longleftrightarrow> (\<forall>t. \<exists>ts. os_clock os t CLOCK_TAI = Some ts \<and> 0 \<le> ts_ns ts \<and> ts_ns ts < 2 ^ 62)"

definition accepts_frames :: "os \<Rightarrow> bool" where
  "accepts_frames os \<longleftrightarrow> (\<forall>t f. os_send os t f = int (length (fr_bytes f)))"

definition logger_room :: "nat \<Rightarrow> nethandler \<Rightarrow> bool" where
  "logger_room k n \<longleftrightarrow>
     (case nh_logger n of None \<Rightarrow> True | Some l \<Rightarrow> log_wf l \<and> length (ts_log l) + k \<le> BSZ)"

definition payload_ok :: "channel \<Rightarrow> bool" where
  "payload_ok c \<longleftrightarrow> length (ch_payload c) = unat (ch_payload_size c)"

definition sendable :: "os \<Rightarrow> nat \<Rightarrow> channel \<Rightarrow> nethandler \<Rightarrow> bool" where
  "sendable os k c n \<longleftrightarrow> clock_ok os \<and> accepts_frames os \<and> logger_room k n \<and> payload_ok c"

text \<open>Room for one more interval before the 64-bit nanosecond counter wraps.\<close>

definition pace_ok :: "channel \<Rightarrow> bool" where
  "pace_ok c \<longleftrightarrow> uint (ch_next_tx_ns c) < 2 ^ 63 \<and> uint (ch_interval_ns c) < 2 ^ 62"

lemma clock_ok_read_tai:
  assumes "clock_ok os"
  obtains ts where "os_clock os (w_tick w) CLOCK_TAI = Some ts" "0 \<le> ts_ns ts" "ts_ns ts < 2 ^ 62"
    "read_tai os w = Some (ts_u64 ts, tick w)" "uint (ts_u64 ts) = ts_ns ts"
proof -
  from assms obtain ts where "os_clock os (w_tick w) CLOCK_TAI = Some ts" "0 \<le> ts_ns ts" "ts_ns ts < 2 ^ 62"
    by (auto simp: clock_ok_def)
  then show ?thesis
    by (intro that [of ts]) (simp_all add: read_tai_def read_clock_def tai_get_ns_def uint_ts_u64)
qed

lemma log_tx_ok:
  assumes "logger_room (Suc k) n"
  shows "\<exists>lg fs'. log_tx fo (nh_logger n) (Some du) a b d fs = Some (lg, fs')
    \<and> logger_room k (n\<lparr>nh_logger := lg\<rparr>)"
  using assms i_log_room [of "the (nh_logger n)" fo du a b d 0 0 fs]
  by (cases "nh_logger n") (auto simp: logger_room_def log_tx_def)

lemma with_logger_ok:
  assumes "logger_room (Suc k) n" "w_nh w nh = Some n"
  shows "\<exists>lg fs'. with_logger (\<lambda>lg. log_tx fo lg (Some du) a b d) nh w =
      Some (w\<lparr>w_files := fs', w_nh := (w_nh w)(nh \<mapsto> n\<lparr>nh_logger := lg\<rparr>)\<rparr>)
    \<and> logger_room k (n\<lparr>nh_logger := lg\<rparr>)"
  using assms log_tx_ok [OF assms(1), of fo du a b d "w_files w"]
  by (auto simp: with_logger_def) blast

lemma length_frame_bytes: "payload_ok c \<Longrightarrow> length (frame_bytes c) = 24 + unat (ch_payload_size c)"
  by (simp add: frame_bytes_def payload_ok_def)

lemma os_send_frame_ok:
  assumes "accepts_frames os" "payload_ok c"
  shows "os_send_frame os c t w = (24 + int (unat (ch_payload_size c)),
    (tick w)\<lparr>w_net := w_net w @ [\<lparr>fr_sock = ch_tx_sock c, fr_addr = ch_sk_addr c, fr_bytes = frame_bytes c,
       fr_txtime = t\<rparr>]\<rparr>)"
  using assms by (simp add: os_send_frame_def accepts_frames_def length_frame_bytes Let_def)

text \<open>The frame that leaves, apart from its launch time.\<close>

definition frame_of :: "channel \<Rightarrow> u64 option \<Rightarrow> tx_frame" where
  "frame_of c t = \<lparr>fr_sock = ch_tx_sock c, fr_addr = ch_sk_addr c, fr_bytes = frame_bytes c, fr_txtime = t\<rparr>"

text \<open>The launch time that TAS chooses without a request, and the next slot.\<close>

definition tas_now :: "timespec \<Rightarrow> u64" where
  "tas_now ts = ts_u64 ts + 50000"

definition tas_txtime :: "timespec \<Rightarrow> channel \<Rightarrow> u64" where
  "tas_txtime ts c = (if tas_now ts > ch_next_tx_ns c then tas_now ts else ch_next_tx_ns c)"

lemma tas_slot:
  assumes "pace_ok c" "0 \<le> ts_ns ts" "ts_ns ts < 2 ^ 62" "uint (ts_u64 ts) = ts_ns ts"
  shows "uint (tas_txtime ts c) = max (ts_ns ts + 50000) (uint (ch_next_tx_ns c))"
    "uint (tas_txtime ts c + ch_interval_ns c) = uint (tas_txtime ts c) + uint (ch_interval_ns c)"
    "\<not> tas_txtime ts c + ch_interval_ns c < tas_now ts"
proof -
  have n: "uint (tas_now ts) = ts_ns ts + 50000"
    unfolding tas_now_def using assms(2-4) by (simp add: uint_word_ariths)
  show t: "uint (tas_txtime ts c) = max (ts_ns ts + 50000) (uint (ch_next_tx_ns c))"
    unfolding tas_txtime_def using n by (auto simp: word_less_def)
  have "uint (tas_txtime ts c) + uint (ch_interval_ns c) < 2 ^ 64"
    using t assms(1,3) by (auto simp: pace_ok_def)
  then show s: "uint (tas_txtime ts c + ch_interval_ns c) = uint (tas_txtime ts c) + uint (ch_interval_ns c)"
    by (simp add: uint_word_ariths)
  show "\<not> tas_txtime ts c + ch_interval_ns c < tas_now ts"
    unfolding word_less_def s n using t uint_ge_0 [of "ch_interval_ns c"] by linarith
qed

text \<open>Without a request, \<open>i_tas_send_at\<close> returns unless the next slot wraps around and falls behind the current time.\<close>

lemma i_tas_send_at_wraps:
  assumes "live w ch c nh n" "sendable os k c n" "os_clock os (w_tick w) CLOCK_TAI = Some ts"
    and "tas_txtime ts c + ch_interval_ns c < tas_now ts"
  shows "i_tas_send_at os ch None w = None"
proof -
  have "read_tai os w = Some (ts_u64 ts, tick w)"
    using clock_ok_read_tai [of os w] assms(2,3) by (auto simp: sendable_def)
  moreover have "tas_next_loop (tas_txtime ts c) (ch_interval_ns c) (ts_u64 ts + 50000) = None"
    using assms(4) by (simp add: tas_next_loop_eq tas_now_def)
  moreover have "(if ch_next_tx_ns c < ts_u64 ts + 50000 then ts_u64 ts + 50000 else ch_next_tx_ns c) = tas_txtime ts c"
    by (simp add: tas_txtime_def tas_now_def)
  ultimately show ?thesis using assms(1) by (simp add: i_tas_send_at_def live_def Let_def split del: if_split)
qed

lemma i_tas_send_at_run:
  assumes "live w ch c nh n" "sendable os (Suc k) c n" "os_clock os (w_tick w) CLOCK_TAI = Some ts"
    and "\<not> tas_txtime ts c + ch_interval_ns c < tas_now ts"
  defines "c' \<equiv> c\<lparr>ch_next_tx_ns := tas_txtime ts c + ch_interval_ns c\<rparr>"
  shows "\<exists>w' n'. i_tas_send_at os ch None w = Some ((int (unat (ch_payload_size c)), None), w')
    \<and> w_net w' = w_net w @ [frame_of c (Some (tas_txtime ts c))]
    \<and> live w' ch c' nh (n\<lparr>nh_logger := n'\<rparr>) \<and> logger_room k (n\<lparr>nh_logger := n'\<rparr>)"
proof -
  have ok: "clock_ok os" "accepts_frames os" "payload_ok c" "logger_room (Suc k) n"
    using assms(2) by (auto simp: sendable_def)
  have tai: "read_tai os w = Some (ts_u64 ts, tick w)"
    using clock_ok_read_tai [OF ok(1), of w] assms(3) by auto
  define tx where "tx = tas_txtime ts c"
  have loop: "tas_next_loop tx (ch_interval_ns c) (ts_u64 ts + 50000) = Some (tx + ch_interval_ns c)"
    using assms(4) by (simp add: tas_next_loop_eq tx_def tas_now_def)
  have txeq: "(if ch_next_tx_ns c < ts_u64 ts + 50000 then ts_u64 ts + 50000 else ch_next_tx_ns c) = tx"
    by (simp add: tx_def tas_txtime_def tas_now_def)
  let ?w = "(set_ch ch c' (tick w))\<lparr>w_tick := Suc (Suc (w_tick w)), w_net := w_net w @ [frame_of c (Some tx)]\<rparr>"
  have "w_nh ?w nh = Some n" using assms(1) by (simp add: live_def)
  then obtain n' fs' where lg: "with_logger (\<lambda>lg. log_tx (os_fopen os) lg (Some (ch_pdu c)) (ch_sample_ns c) tx tx) nh ?w
      = Some (?w\<lparr>w_files := fs', w_nh := (w_nh ?w)(nh \<mapsto> n\<lparr>nh_logger := n'\<rparr>)\<rparr>)"
    and room: "logger_room k (n\<lparr>nh_logger := n'\<rparr>)"
    using with_logger_ok [OF ok(4)] by blast
  have "os_send_frame os c (Some tx) (set_ch ch c' (tick w)) = (24 + int (unat (ch_payload_size c)), ?w)"
    using ok by (simp add: os_send_frame_ok tick_def frame_of_def)
  moreover have "\<not> 24 + uint (ch_payload_size c) < 1"
    using uint_ge_0 [of "ch_payload_size c"] by linarith
  ultimately have "i_tas_send_at os ch None w = Some ((int (unat (ch_payload_size c)), None),
      ?w\<lparr>w_files := fs', w_nh := (w_nh ?w)(nh \<mapsto> n\<lparr>nh_logger := n'\<rparr>)\<rparr>)"
    using assms(1) tai loop lg
    by (simp add: i_tas_send_at_def live_def sizeof_avtpdu_cshdr_def Let_def txeq c'_def tx_def [symmetric]
        split del: if_split)
  with assms(1) room show ?thesis
    by (intro exI [of _ "?w\<lparr>w_files := fs', w_nh := (w_nh ?w)(nh \<mapsto> n\<lparr>nh_logger := n'\<rparr>)\<rparr>"] exI [of _ n'])
      (simp add: live_def tx_def c'_def)
qed

lemma i_tas_send_at_ok:
  assumes "live w ch c nh n" "sendable os (Suc k) c n" "pace_ok c"
  shows "\<exists>w' ts tx n'. os_clock os (w_tick w) CLOCK_TAI = Some ts
    \<and> uint tx = max (ts_ns ts + 50000) (uint (ch_next_tx_ns c))
    \<and> uint (tx + ch_interval_ns c) = uint tx + uint (ch_interval_ns c)
    \<and> i_tas_send_at os ch None w = Some ((int (unat (ch_payload_size c)), None), w')
    \<and> w_net w' = w_net w @ [frame_of c (Some tx)]
    \<and> live w' ch (c\<lparr>ch_next_tx_ns := tx + ch_interval_ns c\<rparr>) nh (n\<lparr>nh_logger := n'\<rparr>) \<and> logger_room k (n\<lparr>nh_logger := n'\<rparr>)"
proof -
  obtain ts where ts: "os_clock os (w_tick w) CLOCK_TAI = Some ts" "0 \<le> ts_ns ts" "ts_ns ts < 2 ^ 62" "uint (ts_u64 ts) = ts_ns ts"
    using clock_ok_read_tai [of os w] assms(2) unfolding sendable_def by blast
  note slot = tas_slot [OF assms(3) ts(2-4)]
  from i_tas_send_at_run [OF assms(1,2) ts(1) slot(3)] slot(1,2) ts(1) show ?thesis by blast
qed

lemma i_cbs_send_at_ok:
  assumes "live w ch c nh n" "sendable os (Suc k) c n"
  shows "\<exists>w' n'. i_cbs_send_at os ch None w = Some ((int (unat (ch_payload_size c)), None), w')
    \<and> w_net w' = w_net w @ [frame_of c None] \<and> live w' ch c nh (n\<lparr>nh_logger := n'\<rparr>) \<and> logger_room k (n\<lparr>nh_logger := n'\<rparr>)"
proof -
  have ok: "clock_ok os" "accepts_frames os" "payload_ok c" "logger_room (Suc k) n"
    using assms(2) by (auto simp: sendable_def)
  obtain ts where ts: "read_tai os w = Some (ts_u64 ts, tick w)"
    using clock_ok_read_tai [OF ok(1), of w] by blast
  let ?w = "(tick w)\<lparr>w_tick := Suc (Suc (w_tick w)), w_net := w_net w @ [frame_of c None]\<rparr>"
  have "w_nh ?w nh = Some n" using assms(1) by (simp add: live_def)
  then obtain n' fs' where lg:
    "with_logger (\<lambda>lg. log_tx (os_fopen os) lg (Some (ch_pdu c)) (ch_sample_ns c) (ts_u64 ts) (ts_u64 ts)) nh ?w
      = Some (?w\<lparr>w_files := fs', w_nh := (w_nh ?w)(nh \<mapsto> n\<lparr>nh_logger := n'\<rparr>)\<rparr>)"
    and room: "logger_room k (n\<lparr>nh_logger := n'\<rparr>)"
    using with_logger_ok [OF ok(4)] by blast
  have "os_send_frame os c None (tick w) = (24 + int (unat (ch_payload_size c)), ?w)"
    using ok by (simp add: os_send_frame_ok tick_def frame_of_def)
  moreover have "\<not> 24 + uint (ch_payload_size c) < 0"
    using uint_ge_0 [of "ch_payload_size c"] by linarith
  ultimately have "i_cbs_send_at os ch None w = Some ((int (unat (ch_payload_size c)), None),
      ?w\<lparr>w_files := fs', w_nh := (w_nh ?w)(nh \<mapsto> n\<lparr>nh_logger := n'\<rparr>)\<rparr>)"
    using assms(1) ts lg
    by (simp add: i_cbs_send_at_def live_def sizeof_avtpdu_cshdr_def Let_def)
  with assms(1) room show ?thesis by (auto simp: live_def)
qed

section \<open>The contract of a send table\<close>

text \<open>
  What \<open>chan_send_now\<close> needs of an operations table: on a live channel that is fit
  (\<open>fit\<close>, which an update of the frame does not disturb), \<open>send_at\<close> without a requested
  time puts exactly the channel's current frame on the network.
\<close>

locale chan_sender =
  fixes fit :: "channel \<Rightarrow> bool"
    and send_at :: "os \<Rightarrow> addr \<Rightarrow> u64 option \<Rightarrow> world \<Rightarrow> ((int \<times> u64 option) \<times> world) option"
    and send_now :: "os \<Rightarrow> addr \<Rightarrow> bytes option \<Rightarrow> world \<Rightarrow> (int \<times> world) option"
  assumes fit_updated: "fit c \<Longrightarrow> fit (updated ts d c)"
    and send_at_frame: "live w ch c nh n \<Longrightarrow> sendable os (Suc k) c n \<Longrightarrow> fit c \<Longrightarrow>
      \<exists>w' t. send_at os ch None w = Some ((int (unat (ch_payload_size c)), None), w')
        \<and> w_net w' = w_net w @ [frame_of c t]"
    and send_now_code: "send_now os ch data w = do {
      (ts_ns, w) \<leftarrow> read_tai os w;
      (r, w) \<leftarrow> chan_update (Some ch) ts_ns data w;
      if r \<noteq> 0 then Some (-1, w)
      else do { ((res, _), w) \<leftarrow> send_at os ch None w; Some (res, w) } }"
begin

lemma send_now_frame:
  assumes "live w ch c nh n" "valid_state c n" "sendable os (Suc k) c n" "fit c"
    "unat (ch_payload_size c) \<le> length d"
  shows "\<exists>w' t ts. os_clock os (w_tick w) CLOCK_TAI = Some ts
    \<and> send_now os ch (Some d) w = Some (int (unat (ch_payload_size c)), w')
    \<and> w_net w' = w_net w @ [frame_of (updated (ts_u64 ts) d c) t]"
proof -
  from assms(3) have ok: "clock_ok os" "payload_ok c" by (auto simp: sendable_def)
  obtain ts where ts: "os_clock os (w_tick w) CLOCK_TAI = Some ts" "read_tai os w = Some (ts_u64 ts, tick w)"
    using clock_ok_read_tai [OF ok(1), of w] by blast
  let ?c = "updated (ts_u64 ts) d c" and ?w = "set_ch ch (updated (ts_u64 ts) d c) (tick w)"
  have "live (tick w) ch c nh n" using assms(1) by (simp add: live_def)
  then have upd: "chan_update (Some ch) (ts_u64 ts) (Some d) (tick w) = Some (0, ?w)"
    using assms(2,5) by (rule chan_update_valid)
  have "payload_ok ?c" using ok(2) assms(5) by (simp add: payload_ok_def updated_def)
  then have "sendable os (Suc k) ?c n" using assms(3) by (simp add: sendable_def)
  moreover have "live ?w ch ?c nh n" using assms(1) by (simp add: live_def)
  ultimately obtain w' t where "send_at os ch None ?w = Some ((int (unat (ch_payload_size c)), None), w')"
    "w_net w' = w_net w @ [frame_of ?c t]"
    using send_at_frame [of ?w ch ?c nh n os k] fit_updated [OF assms(4)] by auto
  with ts upd show ?thesis by (auto simp: send_now_code)
qed

end

lemma pace_ok_updated [simp]: "pace_ok (updated ts d c) = pace_ok c"
  by (simp add: pace_ok_def)

interpretation tas: chan_sender pace_ok i_tas_send_at i_tas_send_now
proof unfold_locales
  fix w ch c nh n os k
  assume "live w ch c nh n" "sendable os (Suc k) c n" "pace_ok c"
  from i_tas_send_at_ok [OF this]
  show "\<exists>w' t. i_tas_send_at os ch None w = Some ((int (unat (ch_payload_size c)), None), w')
    \<and> w_net w' = w_net w @ [frame_of c t]" by blast
qed (simp_all add: i_tas_send_now_def)

interpretation cbs: chan_sender "\<lambda>_. True" i_cbs_send_at i_cbs_send_now
proof unfold_locales
  fix w ch c nh n os k
  assume "live w ch c nh n" "sendable os (Suc k) c n"
  from i_cbs_send_at_ok [OF this]
  show "\<exists>w' t. i_cbs_send_at os ch None w = Some ((int (unat (ch_payload_size c)), None), w')
    \<and> w_net w' = w_net w @ [frame_of c t]" by blast
qed (simp_all add: i_cbs_send_now_def)

text \<open>Repeated sending without a requested time: the current frame once more (\<open>None\<close>), or new data.\<close>

definition send_call :: "os \<Rightarrow> addr \<Rightarrow> bytes option \<Rightarrow> world \<Rightarrow> (int \<times> world) option" where
  "send_call os ch req w =
     (case req of
        None \<Rightarrow> do { ((r, _), w) \<leftarrow> chan_send os (Some ch) None w; Some (r, w) }
      | Some d \<Rightarrow> chan_send_now os (Some ch) (Some d) w)"

fun chan_sends :: "os \<Rightarrow> addr \<Rightarrow> bytes option list \<Rightarrow> world \<Rightarrow> (int list \<times> world) option" where
  "chan_sends os ch [] w = Some ([], w)"
| "chan_sends os ch (req # reqs) w = do {
     (r, w) \<leftarrow> send_call os ch req w;
     (rs, w) \<leftarrow> chan_sends os ch reqs w;
     Some (r # rs, w)
   }"

lemma chan_send_tas:
  assumes "live w ch c nh n" "valid_state c n" "ch_ops c = Some tas_ops" "ch_tx_sock c \<noteq> -1"
  shows "chan_send os (Some ch) tx w = i_tas_send_at os ch tx w"
  using assms chan_valid_live [OF assms(1)] by (simp add: chan_send_def live_def)

lemma frame_of_next [simp]: "frame_of (c\<lparr>ch_next_tx_ns := x\<rparr>) t = frame_of c t"
  by (simp add: frame_of_def frame_bytes_def)

definition spaced :: "int \<Rightarrow> u64 list \<Rightarrow> bool" where
  "spaced d ts \<longleftrightarrow> (\<forall>i. Suc i < length ts \<longrightarrow> uint (ts ! i) + d \<le> uint (ts ! Suc i))"

lemma spaced_Cons:
  "spaced d (t # ts) \<longleftrightarrow> spaced d ts \<and> (ts \<noteq> [] \<longrightarrow> uint t + d \<le> uint (hd ts))"
  unfolding spaced_def
proof (intro iffI conjI allI impI)
  fix i assume "\<forall>i. Suc i < length (t # ts) \<longrightarrow> uint ((t # ts) ! i) + d \<le> uint ((t # ts) ! Suc i)"
    and "Suc i < length ts"
  then show "uint (ts ! i) + d \<le> uint (ts ! Suc i)" by fastforce
next
  assume *: "\<forall>i. Suc i < length (t # ts) \<longrightarrow> uint ((t # ts) ! i) + d \<le> uint ((t # ts) ! Suc i)"
    and "ts \<noteq> []"
  then show "uint t + d \<le> uint (hd ts)" using *[rule_format, of 0] by (simp add: hd_conv_nth)
next
  fix i assume "(\<forall>i. Suc i < length ts \<longrightarrow> uint (ts ! i) + d \<le> uint (ts ! Suc i))
      \<and> (ts \<noteq> [] \<longrightarrow> uint t + d \<le> uint (hd ts))" and "Suc i < length (t # ts)"
  then show "uint ((t # ts) ! i) + d \<le> uint ((t # ts) ! Suc i)"
    by (cases i) (auto simp: hd_conv_nth)
qed

lemma send_call_tas:
  assumes "live w ch c nh n" "valid_state c n" "ch_ops c = Some tas_ops" "ch_tx_sock c \<noteq> -1" "sendable os (Suc k) c n" "pace_ok c"
    and "\<forall>d. req = Some d \<longrightarrow> unat (ch_payload_size c) \<le> length d"
  shows "\<exists>t ts tx w' c' n' f. send_call os ch req w = Some (int (unat (ch_payload_size c)), w')
    \<and> os_clock os t CLOCK_TAI = Some ts \<and> uint tx = max (ts_ns ts + 50000) (uint (ch_next_tx_ns c))
    \<and> w_net w' = w_net w @ [f] \<and> fr_txtime f = Some tx
    \<and> live w' ch c' nh n' \<and> valid_state c' n' \<and> sendable os k c' n'
    \<and> ch_ops c' = Some tas_ops \<and> ch_tx_sock c' = ch_tx_sock c \<and> ch_interval_ns c' = ch_interval_ns c
    \<and> ch_payload_size c' = ch_payload_size c \<and> uint (ch_next_tx_ns c') = uint tx + uint (ch_interval_ns c)"
proof -
  define u where "u = (case req of None \<Rightarrow> w | Some d \<Rightarrow> set_ch ch (updated (the (map_option fst (read_tai os w))) d c) (tick w))"
  define e where "e = (case req of None \<Rightarrow> c | Some d \<Rightarrow> updated (the (map_option fst (read_tai os w))) d c)"
  obtain now where now: "read_tai os w = Some (now, tick w)" using clock_ok_read_tai [of os w] assms(5) by (auto simp: sendable_def)
  have e: "live u ch e nh n" "valid_state e n" "sendable os (Suc k) e n" "pace_ok e" "w_net u = w_net w"
    "ch_ops e = Some tas_ops" "ch_tx_sock e = ch_tx_sock c" "ch_interval_ns e = ch_interval_ns c" "ch_next_tx_ns e = ch_next_tx_ns c"
    "ch_payload_size e = ch_payload_size c"
    using assms by (auto simp: u_def e_def live_def valid_state_def sendable_def payload_ok_def pace_ok_def updated_def split: option.split)
  have "chan_update (Some ch) now (Some d) (tick w) = Some (0, u)" if "req = Some d" for d
    using that now assms(2,7) chan_update_valid [of "tick w" ch c nh n d now] assms(1) by (simp add: u_def live_def)
  then have run: "send_call os ch req w = do { ((r, _), w) \<leftarrow> i_tas_send_at os ch None u; Some (r, w) }"
    using assms(1-4) chan_valid_live [OF assms(1)] chan_send_tas [OF assms(1-4)] now
    by (cases req) (simp_all add: send_call_def u_def chan_send_now_def live_def i_tas_send_now_def)
  from i_tas_send_at_ok [OF e(1,3,4)] obtain w' ts tx n' where s: "os_clock os (w_tick u) CLOCK_TAI = Some ts"
    "uint tx = max (ts_ns ts + 50000) (uint (ch_next_tx_ns e))" "uint (tx + ch_interval_ns e) = uint tx + uint (ch_interval_ns e)"
    "i_tas_send_at os ch None u = Some ((int (unat (ch_payload_size e)), None), w')" "w_net w' = w_net u @ [frame_of e (Some tx)]"
    "live w' ch (e\<lparr>ch_next_tx_ns := tx + ch_interval_ns e\<rparr>) nh (n\<lparr>nh_logger := n'\<rparr>)" "logger_room k (n\<lparr>nh_logger := n'\<rparr>)" by blast
  let ?c = "e\<lparr>ch_next_tx_ns := tx + ch_interval_ns e\<rparr>" and ?n = "n\<lparr>nh_logger := n'\<rparr>"
  have "valid_state ?c ?n" "sendable os k ?c ?n" using e(2,3) s(7) by (simp_all add: valid_state_def sendable_def payload_ok_def)
  with run s e show ?thesis
    by (intro exI [of _ "w_tick u"] exI [of _ ts] exI [of _ tx] exI [of _ w'] exI [of _ ?c] exI [of _ ?n] exI [of _ "frame_of e (Some tx)"])
      (simp add: frame_of_def)
qed

text \<open>The room for \<open>k\<close> more intervals below the wrap-around, before and after a send.\<close>

lemma slots_left:
  fixes i next_tx tx now :: int
  assumes "max (2 ^ 62 + 50000) next_tx + int (Suc k) * i < 2 ^ 63" "tx = max (now + 50000) next_tx" "now < 2 ^ 62" "0 \<le> i"
  shows "max (2 ^ 62 + 50000) (tx + i) + int k * i < 2 ^ 63"
proof -
  have "int (Suc k) * i = i + int k * i" by (simp add: algebra_simps)
  then show ?thesis using assms by (simp add: max_def split: if_splits)
qed

lemma chan_sends_tas:
  "live w ch c nh n \<Longrightarrow> valid_state c n \<Longrightarrow> ch_ops c = Some tas_ops \<Longrightarrow> ch_tx_sock c \<noteq> -1 \<Longrightarrow>
    sendable os (length reqs) c n \<Longrightarrow> uint (ch_interval_ns c) < 2 ^ 62 \<Longrightarrow>
    max (2 ^ 62 + 50000) (uint (ch_next_tx_ns c)) + int (length reqs) * uint (ch_interval_ns c) < 2 ^ 63 \<Longrightarrow>
    \<forall>d. Some d \<in> set reqs \<longrightarrow> unat (ch_payload_size c) \<le> length d \<Longrightarrow>
    \<exists>w' fs txs. chan_sends os ch reqs w = Some (replicate (length reqs) (int (unat (ch_payload_size c))), w') \<and> w_net w' = w_net w @ fs
      \<and> length txs = length reqs \<and> map fr_txtime fs = map Some txs \<and> spaced (uint (ch_interval_ns c)) txs
      \<and> (txs \<noteq> [] \<longrightarrow> uint (ch_next_tx_ns c) \<le> uint (hd txs))"
proof (induction reqs arbitrary: w c n)
  case Nil
  then show ?case by (simp add: spaced_def)
next
  case (Cons req reqs)
  let ?i = "uint (ch_interval_ns c)" and ?k = "length reqs"
  have "0 \<le> int (Suc ?k) * ?i" by simp
  then have pace: "pace_ok c" using Cons.prems(6,7) unfolding pace_ok_def length_Cons by linarith
  have s: "sendable os (Suc ?k) c n" using Cons.prems(5) by simp
  have "\<forall>d. req = Some d \<longrightarrow> unat (ch_payload_size c) \<le> length d" using Cons.prems(8) by auto
  from send_call_tas [OF Cons.prems(1-4) s pace this] obtain t ts tx w1 c1 n1 f where
    w1: "send_call os ch req w = Some (int (unat (ch_payload_size c)), w1)" "os_clock os t CLOCK_TAI = Some ts"
      "uint tx = max (ts_ns ts + 50000) (uint (ch_next_tx_ns c))" "w_net w1 = w_net w @ [f]" "fr_txtime f = Some tx" and
    c1: "live w1 ch c1 nh n1" "valid_state c1 n1" "sendable os ?k c1 n1" "ch_ops c1 = Some tas_ops" "ch_tx_sock c1 = ch_tx_sock c"
      "ch_interval_ns c1 = ch_interval_ns c" "ch_payload_size c1 = ch_payload_size c" "uint (ch_next_tx_ns c1) = uint tx + ?i" by blast
  have "clock_ok os" using s by (simp add: sendable_def)
  then have "ts_ns ts < 2 ^ 62" using w1(2) unfolding clock_ok_def by (metis option.inject)
  from slots_left [OF Cons.prems(7) [unfolded length_Cons] w1(3) this]
  have room: "max (2 ^ 62 + 50000) (uint (ch_next_tx_ns c1)) + int ?k * uint (ch_interval_ns c1) < 2 ^ 63" using c1(6,8) by simp
  have "ch_tx_sock c1 \<noteq> -1" "uint (ch_interval_ns c1) < 2 ^ 62" "\<forall>d. Some d \<in> set reqs \<longrightarrow> unat (ch_payload_size c1) \<le> length d"
    using c1(5-7) Cons.prems(4,6,8) by simp_all
  from Cons.IH [OF c1(1,2,4) this(1) c1(3) this(2) room this(3)] obtain w' fs txs where
    w': "chan_sends os ch reqs w1 = Some (replicate ?k (int (unat (ch_payload_size c))), w')" "w_net w' = w_net w1 @ fs" "length txs = ?k"
      "map fr_txtime fs = map Some txs" "spaced ?i txs" "txs \<noteq> [] \<longrightarrow> uint tx + ?i \<le> uint (hd txs)"
    unfolding c1(6-8) by blast
  have "spaced ?i (tx # txs)" using w'(5,6) by (simp add: spaced_Cons)
  with w1 w' show ?case by (intro exI [of _ w'] exI [of _ "f # fs"] exI [of _ "tx # txs"]) simp
qed

section \<open>Properties\<close>

text \<open>C6: Sending data on a valid channel of either shaper returns the payload size and puts exactly
  one frame on the network, to the channel's socket and address: the AVTP header with the next
  sequence number and the send time as timestamp, followed by exactly the given data.  (The comments of the
  operations table promise 0 on success; the code, by its own comment, reports the size of the payload.)\<close>

theorem chan_send_now_transmits:
  assumes "live w ch c nh n" and "valid_state c n" and "sendable os 1 c n"
    and "ch_ops c = Some ops" and "ops = tas_ops \<longrightarrow> pace_ok c"
    and "unat (ch_payload_size c) \<le> length d"
  shows "\<exists>w' f ts pdu. chan_send_now os (Some ch) (Some d) w = Some (int (unat (ch_payload_size c)), w')
    \<and> w_net w' = w_net w @ [f] \<and> fr_sock f = ch_tx_sock c \<and> fr_addr f = ch_sk_addr c
    \<and> fr_bytes f = pdu_bytes pdu @ take (unat (ch_payload_size c)) d
    \<and> os_clock os (w_tick w) CLOCK_TAI = Some ts
    \<and> p_avtp_timestamp pdu = htonl (ucast (ts_u64 ts)) \<and> p_seqnr pdu = p_seqnr (ch_pdu c) + 1
    \<and> p_stream_id pdu = p_stream_id (ch_pdu c) \<and> p_sdl pdu = htons (ch_payload_size c) \<and> p_tv pdu = 1"
proof -
  have s: "sendable os (Suc 0) c n" using assms(3) by simp
  have "chan_send_now os (Some ch) (Some d) w =
    (case ops of tas_ops \<Rightarrow> i_tas_send_now os ch (Some d) w | cbs_ops \<Rightarrow> i_cbs_send_now os ch (Some d) w)"
    using assms(1,2,4) chan_valid_live [OF assms(1)]
    by (simp add: chan_send_now_def live_def split: chan_send_ops.split)
  then obtain w' t ts where
    r: "chan_send_now os (Some ch) (Some d) w = Some (int (unat (ch_payload_size c)), w')"
      "os_clock os (w_tick w) CLOCK_TAI = Some ts" "w_net w' = w_net w @ [frame_of (updated (ts_u64 ts) d c) t]"
    using tas.send_now_frame [OF assms(1,2) s _ assms(6)] cbs.send_now_frame [OF assms(1,2) s _ assms(6)] assms(5)
    by (cases ops) auto
  have "frame_bytes (updated (ts_u64 ts) d c)
      = pdu_bytes (ch_pdu (updated (ts_u64 ts) d c)) @ take (unat (ch_payload_size c)) d"
    using assms(6) by (simp add: frame_bytes_def updated_def overwrite_def)
  with r show ?thesis
    by (intro exI [of _ w'] exI [of _ "frame_of (updated (ts_u64 ts) d c) t"] exI [of _ ts]
        exI [of _ "ch_pdu (updated (ts_u64 ts) d c)"])
      (simp add: frame_of_def, simp add: updated_def tai_to_avtp_ns_ucast)
qed

lemma demo_sendable: "sendable demo_os k demo_tx demo_nh" "pace_ok demo_tx"
  by (simp_all add: sendable_def clock_ok_def accepts_frames_def logger_room_def payload_ok_def pace_ok_def
      demo_fields) (simp_all add: demo_os_def demo_nh_def zero_nethandler_def ts_ns_def)

theorem chan_send_now_transmits_witness:
  "\<exists>w' f pdu. chan_send_now demo_os (Some 2) (Some [1, 2, 3, 4, 5, 6, 7, 8, 9]) demo_world = Some (8, w')
     \<and> w_net w' = [f] \<and> fr_bytes f = pdu_bytes pdu @ [1, 2, 3, 4, 5, 6, 7, 8] \<and> p_seqnr pdu = 0"
proof -
  have net: "w_net demo_world = []" "(256 :: u8) = 0" by (simp_all add: demo_world_def empty_world_def)
  show ?thesis
    using chan_send_now_transmits [OF demo_live(1) demo_valid(1) demo_sendable(1), of tas_ops
        "[1, 2, 3, 4, 5, 6, 7, 8, 9]"] demo_sendable(2)
    by (auto simp: demo_fields net)
qed

text \<open>C17: Time-aware pacing without a requested time.  The application calls, as fast as it likes and in any mix, \<open>chan_send\<close> without a time and
  \<open>chan_send_now\<close> on a TAS channel: every call returns the payload size and sends its frame, the launch times of consecutive
  frames are at least one interval apart, and no frame is launched before the channel's next slot.  (A time in the future that the caller
  requests is taken as it is, also before the next slot: \<open>requested_time_is_not_paced\<close>.)\<close>

theorem tas_launch_times_spaced:
  assumes "live w ch c nh n" and "valid_state c n" and "ch_ops c = Some tas_ops" and "ch_tx_sock c \<noteq> -1"
    and "sendable os (length reqs) c n" and "uint (ch_interval_ns c) < 2 ^ 62"
    and "max (2 ^ 62 + 50000) (uint (ch_next_tx_ns c)) + int (length reqs) * uint (ch_interval_ns c) < 2 ^ 63"
    and "\<forall>d. Some d \<in> set reqs \<longrightarrow> unat (ch_payload_size c) \<le> length d"
  shows "\<exists>w' txs. chan_sends os ch reqs w = Some (replicate (length reqs) (int (unat (ch_payload_size c))), w') \<and> length txs = length reqs
    \<and> map fr_txtime (w_net w') = map fr_txtime (w_net w) @ map Some txs
    \<and> spaced (uint (ch_interval_ns c)) txs \<and> (txs \<noteq> [] \<longrightarrow> uint (ch_next_tx_ns c) \<le> uint (hd txs))"
  using chan_sends_tas [OF assms] by fastforce

theorem tas_launch_times_spaced_witness:
  "\<exists>w' txs. chan_sends demo_os 2 [None, Some [1, 2, 3, 4, 5, 6, 7, 8], None] demo_world = Some ([8, 8, 8], w') \<and> length txs = 3
     \<and> map fr_txtime (w_net w') = map Some txs \<and> spaced 1000000 txs \<and> 2000000000000 \<le> uint (hd txs)"
proof -
  let ?r = "[None, Some [1, 2, 3, 4, 5, 6, 7, 8], None] :: bytes option list"
  have net: "w_net demo_world = []" "replicate 3 (8 :: int) = [8, 8, 8]" by (simp_all add: demo_world_def empty_world_def eval_nat_numeral)
  obtain w' txs where "chan_sends demo_os 2 ?r demo_world = Some (replicate (length ?r) 8, w')" "length txs = length ?r"
    "map fr_txtime (w_net w') = map Some txs" "spaced 1000000 txs"
    "txs \<noteq> [] \<longrightarrow> 2000000000000 \<le> uint (hd txs)"
    using tas_launch_times_spaced [OF demo_live(1) demo_valid(1) _ _ demo_sendable(1), of ?r]
    by (auto simp: demo_fields net(1))
  moreover have "length ?r = 3" by simp
  moreover from calculation(2) have "txs \<noteq> []" by auto
  ultimately show ?thesis using net(2) by metis
qed

text \<open>A requested time that is before the next slot of the channel is the launch time: the bound of the code, the sum of two absolute
  times, does not refuse it.\<close>

lemma requested_time_is_not_paced:
  assumes "live w ch c nh n" "sendable os 1 c n" "os_clock os (w_tick w) CLOCK_TAI = Some ts"
    and "tas_now ts < t" "t < ch_next_tx_ns c" "uint (tas_now ts) + uint (ch_next_tx_ns c) < 2 ^ 64" "uint t + uint (ch_interval_ns c) < 2 ^ 64"
  shows "\<exists>w'. i_tas_send_at os ch (Some t) w = Some ((int (unat (ch_payload_size c)), Some t), w')
    \<and> w_net w' = w_net w @ [frame_of c (Some t)]"
proof -
  have ok: "clock_ok os" "accepts_frames os" "payload_ok c" "logger_room (Suc 0) n"
    using assms(2) by (auto simp: sendable_def)
  have tai: "read_tai os w = Some (ts_u64 ts, tick w)"
    using clock_ok_read_tai [OF ok(1), of w] assms(3) by auto
  have sums: "uint (tas_now ts + ch_next_tx_ns c) = uint (tas_now ts) + uint (ch_next_tx_ns c)"
    "uint (t + ch_interval_ns c) = uint t + uint (ch_interval_ns c)" using assms(6,7) by (simp_all add: uint_word_ariths)
  have "t < tas_now ts + ch_next_tx_ns c" "\<not> t + ch_interval_ns c < tas_now ts"
    using assms(4,5) uint_ge_0 [of "tas_now ts"] uint_ge_0 [of "ch_interval_ns c"] unfolding word_less_def sums by linarith+
  then have slot: "ts_u64 ts + 50000 < t" "t < ts_u64 ts + 50000 + ch_next_tx_ns c"
    "tas_next_loop t (ch_interval_ns c) (ts_u64 ts + 50000) = Some (t + ch_interval_ns c)"
    using assms(4) by (simp_all add: tas_now_def tas_next_loop_eq)
  let ?c = "c\<lparr>ch_next_tx_ns := t + ch_interval_ns c\<rparr>"
  let ?w = "(set_ch ch ?c (tick w))\<lparr>w_tick := Suc (Suc (w_tick w)), w_net := w_net w @ [frame_of c (Some t)]\<rparr>"
  have "w_nh ?w nh = Some n" using assms(1) by (simp add: live_def)
  then obtain n' fs' where lg: "with_logger (\<lambda>lg. log_tx (os_fopen os) lg (Some (ch_pdu c)) (ch_sample_ns c) t t) nh ?w
      = Some (?w\<lparr>w_files := fs', w_nh := (w_nh ?w)(nh \<mapsto> n\<lparr>nh_logger := n'\<rparr>)\<rparr>)"
    using with_logger_ok [OF ok(4)] by blast
  have "os_send_frame os c (Some t) (set_ch ch ?c (tick w)) = (24 + int (unat (ch_payload_size c)), ?w)"
    using ok by (simp add: os_send_frame_ok tick_def frame_of_def)
  moreover have "\<not> 24 + uint (ch_payload_size c) < 1"
    using uint_ge_0 [of "ch_payload_size c"] by linarith
  ultimately have "i_tas_send_at os ch (Some t) w = Some ((int (unat (ch_payload_size c)), Some t),
      ?w\<lparr>w_files := fs', w_nh := (w_nh ?w)(nh \<mapsto> n\<lparr>nh_logger := n'\<rparr>)\<rparr>)"
    using assms(1) tai slot lg by (simp add: i_tas_send_at_def live_def sizeof_avtpdu_cshdr_def Let_def split del: if_split)
  then show ?thesis by simp
qed

text \<open>C27: Termination of the time-aware send.  A send without a requested time returns, after one pass of its \<^verbatim>\<open>do\<close> loop, when the next slot
  (launch time plus period, modulo \<open>2 ^ 64\<close>) is not before the current time, and then it has handed the frame to the kernel; otherwise the
  loop, which computes the same slot again and again, never ends.  While the launch time plus the period stays below \<open>2 ^ 64\<close> it returns.\<close>

theorem tas_send_terminates_iff:
  assumes "live w ch c nh n" "sendable os 1 c n" "os_clock os (w_tick w) CLOCK_TAI = Some ts"
  shows "((\<exists>r w'. i_tas_send_at os ch None w = Some (r, w')) \<longleftrightarrow> tas_now ts \<le> tas_txtime ts c + ch_interval_ns c)
    \<and> (uint (tas_txtime ts c) + uint (ch_interval_ns c) < 2 ^ 64 \<longrightarrow> tas_now ts \<le> tas_txtime ts c + ch_interval_ns c)"
proof
  have s: "sendable os (Suc 0) c n" using assms(2) by simp
  show "(\<exists>r w'. i_tas_send_at os ch None w = Some (r, w')) \<longleftrightarrow> tas_now ts \<le> tas_txtime ts c + ch_interval_ns c"
    using i_tas_send_at_run [OF assms(1) s assms(3)] i_tas_send_at_wraps [OF assms] by (fastforce simp: not_less)
  have "tas_now ts \<le> tas_txtime ts c" by (auto simp: tas_txtime_def)
  then show "uint (tas_txtime ts c) + uint (ch_interval_ns c) < 2 ^ 64 \<longrightarrow> tas_now ts \<le> tas_txtime ts c + ch_interval_ns c"
    by (auto simp: word_le_def uint_word_ariths intro: order_trans)
qed

theorem tas_send_terminates_iff_witness:
  "(\<exists>r w'. i_tas_send_at demo_os 2 None demo_world = Some (r, w'))
    \<and> i_tas_send_at demo_os 2 None (set_ch 2 (demo_tx\<lparr>ch_interval_ns := -1000000000000\<rparr>) demo_world) = None"
proof -
  let ?c = "demo_tx\<lparr>ch_interval_ns := -1000000000000\<rparr>" and ?ts = "\<lparr>tv_sec = 1000, tv_nsec = 0\<rparr>"
  have clock: "os_clock demo_os t CLOCK_TAI = Some ?ts" for t by (simp add: demo_os_def)
  have now: "tas_now ?ts = 1000000050000" by (simp add: tas_now_def ts_u64_def)
  have "tas_txtime ?ts demo_tx = 2000000000000" "tas_txtime ?ts ?c = 2000000000000" using now by (simp_all add: tas_txtime_def demo_fields)
  moreover have "live (set_ch 2 ?c demo_world) 2 ?c 1 demo_nh" "sendable demo_os 1 ?c demo_nh"
    using demo_live(1) demo_sendable(1) [of 1] by (simp_all add: live_def sendable_def payload_ok_def)
  ultimately show ?thesis
    using tas_send_terminates_iff [OF demo_live(1) demo_sendable(1) clock] tas_send_terminates_iff [of _ 2 ?c 1 demo_nh demo_os, OF _ _ clock] now
    by (cases "i_tas_send_at demo_os 2 None (set_ch 2 ?c demo_world)") (auto simp: demo_fields)
qed

text \<open>C25: The blocking send kills the process, with either shaper, on a valid channel and after the frame is on its way: the
  call does not return, the process dies from a NULL pointer (the send time that both implementations leave out and then
  dereference), and at that time the kernel has accepted exactly one frame more, with the given data.\<close>

theorem send_now_wait_faults_after_sending:
  assumes "live w ch c nh n" and "valid_state c n" and "sendable os 1 c n"
    and "ch_ops c = Some ops" and "ops = tas_ops \<longrightarrow> pace_ok c"
    and "unat (ch_payload_size c) \<le> length d"
  shows "\<exists>w' f pdu. chan_send_now_wait os (Some ch) (Some d) w = Some (Segfault, w')
    \<and> w_net w' = w_net w @ [f] \<and> fr_bytes f = pdu_bytes pdu @ take (unat (ch_payload_size c)) d"
proof -
  have disp: "chan_send_now_wait os (Some ch) (Some d) w =
    (case ops of tas_ops \<Rightarrow> i_tas_send_now_wait os ch (Some d) w | cbs_ops \<Rightarrow> i_cbs_send_now_wait os ch (Some d) w)"
    using assms(1,2,4) chan_valid_live [OF assms(1)]
    by (simp add: chan_send_now_wait_def live_def split: chan_send_ops.split)
  obtain ts where ts: "read_tai os w = Some (ts_u64 ts, tick w)"
    using clock_ok_read_tai [of os w] assms(3) by (auto simp: sendable_def)
  let ?c = "updated (ts_u64 ts) d c" and ?w = "set_ch ch (updated (ts_u64 ts) d c) (tick w)"
  have "live (tick w) ch c nh n" and live: "live ?w ch ?c nh n" using assms(1) by (simp_all add: live_def)
  then have upd: "chan_update (Some ch) (ts_u64 ts) (Some d) (tick w) = Some (0, ?w)"
    using assms(2,6) by (intro chan_update_valid)
  have s: "sendable os (Suc 0) ?c n" using assms(3,6) by (simp add: sendable_def payload_ok_def updated_def)
  have nonneg: "\<not> int (unat (ch_payload_size c)) < 0" by simp
  obtain w' t where "chan_send_now_wait os (Some ch) (Some d) w = Some (Segfault, w')" "w_net w' = w_net w @ [frame_of ?c t]"
  proof (cases ops)
    case tas_ops
    then obtain w' t where "i_tas_send_at os ch None ?w = Some ((int (unat (ch_payload_size ?c)), None), w')"
      "w_net w' = w_net ?w @ [frame_of ?c t]"
      using tas.send_at_frame [OF live s] assms(5) by auto
    with disp tas_ops ts upd nonneg show ?thesis
      by (intro that [of w' t]) (simp_all add: i_tas_send_now_wait_def i_tas_send_at_wait_def del: of_nat_unat)
  next
    case cbs_ops
    then obtain w' t where "i_cbs_send_at os ch None ?w = Some ((int (unat (ch_payload_size ?c)), None), w')"
      "w_net w' = w_net ?w @ [frame_of ?c t]"
      using cbs.send_at_frame [OF live s] by auto
    with disp cbs_ops ts upd nonneg show ?thesis
      by (intro that [of w' t]) (simp_all add: i_cbs_send_now_wait_def i_cbs_send_at_wait_def del: of_nat_unat)
  qed
  moreover have "fr_bytes (frame_of ?c t) = pdu_bytes (ch_pdu ?c) @ take (unat (ch_payload_size c)) d"
    using assms(6) by (simp add: frame_of_def frame_bytes_def updated_def overwrite_def)
  ultimately show ?thesis by blast
qed

theorem send_now_wait_faults_after_sending_witness:
  "\<exists>w' f pdu. chan_send_now_wait demo_os (Some 2) (Some [1, 2, 3, 4, 5, 6, 7, 8]) demo_world = Some (Segfault, w')
    \<and> w_net w' = w_net demo_world @ [f] \<and> fr_bytes f = pdu_bytes pdu @ [1, 2, 3, 4, 5, 6, 7, 8]"
  using send_now_wait_faults_after_sending [OF demo_live(1) demo_valid(1) demo_sendable(1), of tas_ops
      "[1, 2, 3, 4, 5, 6, 7, 8]"] demo_sendable(2)
  by (simp add: demo_fields)

end
