(* ===== verification/Rx_Path.thy ===== *)
theory Rx_Path
  imports Sockets
begin

text \<open>
  Reception (\<^verbatim>\<open>src/netchan.c\<close>): registration of callbacks, the standard callback that writes
  metadata and payload into the channel's pipe, the dispatch of a PDU by stream id, and the
  receive thread.  An application's own callback is a parameter \<open>ucb\<close>.
\<close>

section \<open>Callbacks\<close>

definition nh_reg_callback ::
  "addr option \<Rightarrow> u64 \<Rightarrow> addr option \<Rightarrow> callback option \<Rightarrow> world \<Rightarrow> (int \<times> world) option" where
  "nh_reg_callback nhp stream_id priv_data cb w =
     (case nhp of
        None \<Rightarrow> Some (- EINVAL, w)
      | Some nh \<Rightarrow> do {
          n \<leftarrow> w_nh w nh;
          let (r, hmap) = hm_reg_callback (nh_hmap n) stream_id priv_data cb;
          Some (r, set_nh nh (n\<lparr>nh_hmap := hmap\<rparr>) w)
        })"

text \<open>\<open>du\<close> is the memory from the PDU on; a payload beyond it is read out of bounds.\<close>

definition nh_std_cb :: "os \<Rightarrow> addr option \<Rightarrow> bytes option \<Rightarrow> world \<Rightarrow> (int \<times> world) option" where
  "nh_std_cb os priv dup w =
     (case (priv, dup) of
        (Some a, Some du) \<Rightarrow> do {
          cbp \<leftarrow> w_cb w a;
          if cb_fd cbp \<le> 0 then Some (- EINVAL, w)
          else
            let sz = nat (cb_sz cbp)
            in if length du < sizeof_avtpdu_cshdr + sz then None
               else do {
                 let payload = take sz (drop sizeof_avtpdu_cshdr du);
                 w \<leftarrow> upd_cb a (\<lambda>cbp. cbp\<lparr>cb_payload := overwrite (cb_payload cbp) payload\<rparr>) w;
                 (wsz, w) \<leftarrow> os_write (os_room os) (cb_fd cbp) (meta_bytes (cb_meta cbp) @ payload) w;
                 Some ((if wsz = -1 then - EINVAL else 0), w)
               }
        }
      | _ \<Rightarrow> Some (- EINVAL, w))"

type_synonym user_cb = "nat \<Rightarrow> addr option \<Rightarrow> bytes option \<Rightarrow> world \<Rightarrow> (int \<times> world) option"

definition call_cb :: "os \<Rightarrow> user_cb \<Rightarrow> callback \<Rightarrow> addr option \<Rightarrow> bytes option \<Rightarrow> world \<Rightarrow> (int \<times> world) option" where
  "call_cb os ucb cb priv du w =
     (case cb of Std_cb \<Rightarrow> nh_std_cb os priv du w | User_cb k \<Rightarrow> ucb k priv du w)"

definition nh_feed_pdu_ts ::
  "os \<Rightarrow> user_cb \<Rightarrow> addr option \<Rightarrow> bytes option \<Rightarrow> u64 \<Rightarrow> u64 \<Rightarrow> world \<Rightarrow> (int \<times> world) option" where
  "nh_feed_pdu_ts os ucb nhp cshdr rx_hw_ns recv_ptp_ns w =
     (case (nhp, cshdr) of
        (Some nh, Some du) \<Rightarrow> do {
          n \<leftarrow> w_nh w nh;
          let hdr = pdu_of_bytes du;
          idx \<leftarrow> get_hm_idx (Some (nh_hmap n)) (be64toh (p_stream_id hdr));
          if idx \<ge> 0
          then do {
            let e = nh_hmap n ! nat idx;
            cbp \<leftarrow> ce_priv_data e;
            w \<leftarrow> upd_cb cbp (\<lambda>cb. cb\<lparr>cb_meta := \<lparr>m_ts_rx_ns = rx_hw_ns, m_ts_recv_ptp_ns = recv_ptp_ns,
                    m_avtp_timestamp = ntohl (p_avtp_timestamp hdr)\<rparr>\<rparr>) w;
            cb \<leftarrow> ce_cb e;
            call_cb os ucb cb (Some cbp) (Some du) w
          }
          else Some (- EBADFD, w)
        }
      | _ \<Rightarrow> Some (- EINVAL, w))"

definition nh_feed_pdu :: "os \<Rightarrow> user_cb \<Rightarrow> addr option \<Rightarrow> bytes option \<Rightarrow> world \<Rightarrow> (int \<times> world) option" where
  "nh_feed_pdu os ucb nhp cshdr w = nh_feed_pdu_ts os ucb nhp cshdr 0 0 w"

section \<open>The receive thread\<close>

text \<open>
  \<^verbatim>\<open>stamp->tv_sec * 1e9 + stamp->tv_nsec\<close> is computed in \<^verbatim>\<open>double\<close>: \<open>dbl\<close> rounds an integer to
  the nearest one with 53 significant bits, ties to even.
\<close>

fun bit_len :: "nat \<Rightarrow> nat" where
  "bit_len n = (if n = 0 then 0 else Suc (bit_len (n div 2)))"

declare bit_len.simps [simp del]

definition round_at :: "nat \<Rightarrow> nat \<Rightarrow> nat" where
  "round_at s x =
     (let q = x div 2 ^ s; r = x mod 2 ^ s
      in (if 2 * r > 2 ^ s \<or> (2 * r = 2 ^ s \<and> odd q) then q + 1 else q) * 2 ^ s)"

definition dbl :: "nat \<Rightarrow> nat" where
  "dbl x = round_at (bit_len x - 53) x"

definition stamp_ns :: "timespec \<Rightarrow> u64" where
  "stamp_ns ts = of_nat (dbl (dbl (nat (tv_sec ts) * 1000000000) + nat (tv_nsec ts)))"

text \<open>
  What one \<^verbatim>\<open>recvmsg\<close> brings: a frame (or a timeout), the \<^verbatim>\<open>SO_TIMESTAMPNS\<close> control messages,
  and whether another thread cleared \<^verbatim>\<open>nh->running\<close> while the call was blocked.
\<close>

record rx_event =
  ev_frame :: "bytes option"
  ev_stamps :: "timespec list"
  ev_stop :: bool

definition h_proto :: "bytes \<Rightarrow> u16" where
  "h_proto buffer = of_le (take 2 (drop 12 buffer))"

text \<open>One round of the loop: the new value of \<^verbatim>\<open>running\<close>, the buffer and the world.\<close>

definition nh_runner_round ::
  "os \<Rightarrow> user_cb \<Rightarrow> addr \<Rightarrow> rx_event \<Rightarrow> bytes \<Rightarrow> world \<Rightarrow> (bool \<times> bytes \<times> world) option" where
  "nh_runner_round os ucb nh ev buffer w = do {
     w \<leftarrow> (if ev_stop ev then upd_nh nh (\<lambda>n. n\<lparr>nh_running := False\<rparr>) w else Some w);
     let buffer = (case ev_frame ev of None \<Rightarrow> buffer | Some fr \<Rightarrow> overwrite buffer (take (length buffer) fr));
     n \<leftarrow> w_nh w nh;
     let (recv_ptp_ns, w) = read_ptp os (nh_ptp_fd n) w;
     let running = nh_running n;
     w \<leftarrow> (if ev_frame ev \<noteq> None \<and> ev_frame ev \<noteq> Some []
           then do {
             let rx_hw_ns = (if ev_stamps ev = [] then 0 else stamp_ns (last (ev_stamps ev)));
             let du = drop sizeof_ethhdr buffer;
             if ntohs (h_proto buffer) = 0x22F0
             then do {
               (r, w) \<leftarrow> nh_feed_pdu_ts os ucb (Some nh) (Some du) rx_hw_ns recv_ptp_ns w;
               if r = 0
               then with_logger (\<lambda>lg. log_rx (os_fopen os) lg (Some (pdu_of_bytes du)) rx_hw_ns recv_ptp_ns) nh w
               else Some w
             }
             else Some w
           }
           else Some w);
     Some (running, buffer, w)
   }"

fun nh_runner_loop ::
  "os \<Rightarrow> user_cb \<Rightarrow> addr \<Rightarrow> rx_event list \<Rightarrow> bytes \<Rightarrow> world \<Rightarrow> world option" where
  "nh_runner_loop os ucb nh [] buffer w = Some w"
| "nh_runner_loop os ucb nh (ev # evs) buffer w = do {
     (running, buffer, w) \<leftarrow> nh_runner_round os ucb nh ev buffer w;
     if running then nh_runner_loop os ucb nh evs buffer w else Some w
   }"

text \<open>The thread on a sequence of events (the world after the last one, or when it ended).\<close>

definition nh_runner :: "os \<Rightarrow> user_cb \<Rightarrow> addr option \<Rightarrow> rx_event list \<Rightarrow> world \<Rightarrow> world option" where
  "nh_runner os ucb data evs w =
     (case data of
        None \<Rightarrow> Some w
      | Some nh \<Rightarrow> do {
          n \<leftarrow> w_nh w nh;
          if nh_rx_sock n \<le> 0 then Some w
          else nh_runner_loop os ucb nh evs (replicate 1522 0) w
        })"

section \<open>Facts\<close>

text \<open>Rounding moves a value below \<open>2 ^ 62\<close> by at most 256.\<close>

lemma round_at_error:
  "round_at s x \<le> x + 2 ^ s div 2 \<and> x \<le> round_at s x + 2 ^ s div 2"
proof -
  have x: "x = x div 2 ^ s * 2 ^ s + x mod 2 ^ s" by (rule div_mult_mod_eq [symmetric])
  have m: "x mod 2 ^ s < 2 ^ s" by simp
  show ?thesis
  proof (cases "2 * (x mod 2 ^ s) > 2 ^ s \<or> (2 * (x mod 2 ^ s) = 2 ^ s \<and> odd (x div 2 ^ s))")
    case True
    then have "round_at s x = x div 2 ^ s * 2 ^ s + 2 ^ s" by (simp add: round_at_def)
    with True x m show ?thesis by linarith
  next
    case False
    then have "round_at s x = x div 2 ^ s * 2 ^ s" by (auto simp: round_at_def Let_def)
    with False x m show ?thesis by linarith
  qed
qed

lemma bit_len_le: "x < 2 ^ k \<Longrightarrow> bit_len x \<le> k"
proof (induction x arbitrary: k rule: bit_len.induct)
  case (1 n)
  show ?case
  proof (cases "n = 0")
    case False
    with 1 obtain k' where "k = Suc k'" by (cases k) auto
    with 1 False show ?thesis by (subst bit_len.simps) (auto simp: less_mult_imp_div_less)
  qed (simp add: bit_len.simps)
qed

lemma round_at_dvd: "2 ^ s dvd x \<Longrightarrow> round_at s x = x"
  by (auto simp: round_at_def Let_def)

lemma dbl_error:
  assumes "x < 2 ^ 61"
  shows "dbl x \<le> x + 128 \<and> x \<le> dbl x + 128"
proof -
  have "(2 :: nat) ^ (bit_len x - 53) \<le> 256"
    using bit_len_le [OF assms] power_increasing [of "bit_len x - 53" 8 "2 :: nat"] by simp
  with round_at_error [of "bit_len x - 53" x] show ?thesis
    unfolding dbl_def by linarith
qed

lemma dbl_seconds:
  assumes "s * 1000000000 < 2 ^ 61"
  shows "dbl (s * 1000000000) = s * 1000000000"
proof -
  have "(2 :: nat) ^ (bit_len (s * 1000000000) - 53) dvd 2 ^ 9"
    using bit_len_le [OF assms] by (intro le_imp_power_dvd) auto
  moreover have "(2 :: nat) ^ 9 dvd s * 1000000000" by (rule dvd_mult) simp
  ultimately show ?thesis unfolding dbl_def by (intro round_at_dvd) (rule dvd_trans)
qed

lemma stamp_ns_error:
  assumes "0 \<le> tv_sec ts" "ts_normal ts" "ts_ns ts < 2 ^ 61"
  shows "\<bar>uint (stamp_ns ts) - ts_ns ts\<bar> \<le> 128"
proof -
  let ?x = "nat (tv_sec ts) * 1000000000 + nat (tv_nsec ts)"
  have x: "int ?x = ts_ns ts" using assms(1,2) by (simp add: ts_ns_def ts_normal_def)
  with assms(3) have "int ?x < int (2 ^ 61)" by simp
  then have lt: "?x < 2 ^ 61" by (simp only: of_nat_less_iff)
  then have "nat (tv_sec ts) * 1000000000 < 2 ^ 61" by linarith
  then have st: "stamp_ns ts = of_nat (dbl ?x)" by (simp add: stamp_ns_def dbl_seconds)
  have d: "dbl ?x \<le> ?x + 128" "?x \<le> dbl ?x + 128" using dbl_error [OF lt] by auto
  with lt have "dbl ?x < 2 ^ 64" by simp
  then have "uint (stamp_ns ts) = int (dbl ?x)"
    unfolding st by (simp add: uint_nat unat_of_nat take_bit_eq_mod)
  with d x show ?thesis by linarith
qed

text \<open>The standard callback appends one record to the pipe.\<close>

lemma nh_std_cb_delivers:
  assumes "w_cb w a = Some cbp" "0 < cb_fd cbp" "sizeof_avtpdu_cshdr + nat (cb_sz cbp) \<le> length du"
    "pipe_at w r (cb_fd cbp) buf"
    "os_room os buf (length (meta_bytes (cb_meta cbp) @ take (nat (cb_sz cbp)) (drop sizeof_avtpdu_cshdr du)))"
  shows "\<exists>w'. nh_std_cb os (Some a) (Some du) w = Some (0, w')
    \<and> pipe_at w' r (cb_fd cbp) (buf @ meta_bytes (cb_meta cbp) @ take (nat (cb_sz cbp)) (drop sizeof_avtpdu_cshdr du))
    \<and> w_nh w' = w_nh w \<and> w_ch w' = w_ch w \<and> w_tick w' = w_tick w
    \<and> w_cb w' = (w_cb w)(a \<mapsto> cbp\<lparr>cb_payload := overwrite (cb_payload cbp)
        (take (nat (cb_sz cbp)) (drop sizeof_avtpdu_cshdr du))\<rparr>)"
proof -
  let ?p = "take (nat (cb_sz cbp)) (drop sizeof_avtpdu_cshdr du)"
  let ?w = "set_cb a (cbp\<lparr>cb_payload := overwrite (cb_payload cbp) ?p\<rparr>) w"
  have "pipe_at ?w r (cb_fd cbp) buf" using assms(4) by (simp add: pipe_at_def)
  from os_write_pipe [where room = "os_room os" and data = "meta_bytes (cb_meta cbp) @ ?p", OF this assms(5)]
  obtain w' where
    w': "os_write (os_room os) (cb_fd cbp) (meta_bytes (cb_meta cbp) @ ?p) ?w
      = Some (int (length (meta_bytes (cb_meta cbp) @ ?p)), w')"
      "pipe_at w' r (cb_fd cbp) (buf @ meta_bytes (cb_meta cbp) @ ?p)" by blast
  have "nh_std_cb os (Some a) (Some du) w = Some (0, w')"
    using assms(1-3) w'(1) by (simp add: nh_std_cb_def Let_def not_less)
  with w' os_write_heaps [OF w'(1)] show ?thesis by simp
qed

lemma nh_feed_pdu_ts_std:
  assumes "w_nh w nh = Some n" "nh_hmap n \<noteq> []"
    "hm_lookup (nh_hmap n) (be64toh (p_stream_id (pdu_of_bytes du))) = Some (Some a, Std_cb)"
    "w_cb w a = Some cbp" "0 < cb_fd cbp" "sizeof_avtpdu_cshdr + nat (cb_sz cbp) \<le> length du"
    "pipe_at w r (cb_fd cbp) buf" "os_room os buf (20 + nat (cb_sz cbp))"
  shows "\<exists>w' cbp'. nh_feed_pdu_ts os ucb (Some nh) (Some du) rx ptp w = Some (0, w')
    \<and> pipe_at w' r (cb_fd cbp) (buf
        @ meta_bytes \<lparr>m_ts_rx_ns = rx, m_ts_recv_ptp_ns = ptp, m_avtp_timestamp = ntohl (p_avtp_timestamp (pdu_of_bytes du))\<rparr>
        @ take (nat (cb_sz cbp)) (drop sizeof_avtpdu_cshdr du))
    \<and> w_nh w' = w_nh w \<and> w_ch w' = w_ch w \<and> w_tick w' = w_tick w
    \<and> w_cb w' = (w_cb w)(a \<mapsto> cbp') \<and> cb_fd cbp' = cb_fd cbp \<and> cb_sz cbp' = cb_sz cbp
    \<and> length (cb_payload cbp') = max (nat (cb_sz cbp)) (length (cb_payload cbp))"
proof -
  let ?s = "be64toh (p_stream_id (pdu_of_bytes du))"
  let ?m = "\<lparr>m_ts_rx_ns = rx, m_ts_recv_ptp_ns = ptp, m_avtp_timestamp = ntohl (p_avtp_timestamp (pdu_of_bytes du))\<rparr>"
  let ?cb = "cbp\<lparr>cb_meta := ?m\<rparr>" and ?w = "set_cb a (cbp\<lparr>cb_meta := ?m\<rparr>) w"
  obtain idx where idx: "get_hm_idx (Some (nh_hmap n)) ?s = Some idx" "0 \<le> idx"
    "ce_priv_data (nh_hmap n ! nat idx) = Some a" "ce_cb (nh_hmap n ! nat idx) = Some Std_cb"
    using get_hm_idx_lookup [OF assms(2), of ?s] assms(3) by auto
  have "w_cb ?w a = Some ?cb" "pipe_at ?w r (cb_fd ?cb) buf"
    using assms(7) by (simp_all add: pipe_at_def)
  from nh_std_cb_delivers [OF this(1) _ _ this(2), of du os] assms(5,6,8) obtain w' where
    w': "nh_std_cb os (Some a) (Some du) ?w = Some (0, w')"
      "pipe_at w' r (cb_fd cbp) (buf @ meta_bytes ?m @ take (nat (cb_sz cbp)) (drop sizeof_avtpdu_cshdr du))"
      "w_nh w' = w_nh w" "w_ch w' = w_ch w" "w_tick w' = w_tick w"
      "w_cb w' = (w_cb w)(a \<mapsto> ?cb\<lparr>cb_payload := overwrite (cb_payload cbp)
         (take (nat (cb_sz cbp)) (drop sizeof_avtpdu_cshdr du))\<rparr>)" by auto
  have "nh_feed_pdu_ts os ucb (Some nh) (Some du) rx ptp w = Some (0, w')"
    using assms(1,4) idx w'(1) by (simp add: nh_feed_pdu_ts_def call_cb_def)
  moreover have "length (overwrite (cb_payload cbp) (take (nat (cb_sz cbp)) (drop sizeof_avtpdu_cshdr du)))
      = max (nat (cb_sz cbp)) (length (cb_payload cbp))"
    using assms(6) by (simp add: overwrite_def)
  ultimately show ?thesis using w'(2-6)
    by (intro exI [of _ w'] exI [of _ "?cb\<lparr>cb_payload := overwrite (cb_payload cbp)
         (take (nat (cb_sz cbp)) (drop sizeof_avtpdu_cshdr du))\<rparr>"]) simp
qed

text \<open>The bytes the kernel hands to the raw receive socket for a frame sent with protocol \<^verbatim>\<open>ETH_P_TSN\<close>.\<close>

definition eth_frame :: "bytes \<Rightarrow> bytes \<Rightarrow> bytes \<Rightarrow> bytes" where
  "eth_frame dst src data = dst @ src @ [0x22, 0xF0] @ data"

lemma h_proto_eth_frame:
  assumes "length dst = 6" "length src = 6"
  shows "ntohs (h_proto (eth_frame dst src data @ rest)) = 0x22F0"
proof -
  have "take 2 (drop 12 (eth_frame dst src data @ rest)) = [0x22, 0xF0]"
    using assms by (simp add: eth_frame_def)
  moreover have "ntohs (of_le [0x22, 0xF0]) = 0x22F0" by code_simp
  ultimately show ?thesis by (simp add: h_proto_def)
qed

lemma drop_eth_frame: "length dst = 6 \<Longrightarrow> length src = 6 \<Longrightarrow> drop 14 (eth_frame dst src data @ rest) = data @ rest"
  by (simp add: eth_frame_def)

text \<open>A receiver: the nethandler is running, the stream is registered with the standard callback,
  and the callback area writes into a pipe.\<close>

definition receiver :: "world \<Rightarrow> addr \<Rightarrow> nethandler \<Rightarrow> u64 \<Rightarrow> nat \<Rightarrow> int \<Rightarrow> bytes \<Rightarrow> bool" where
  "receiver w nh n sid sz r buf \<longleftrightarrow> w_nh w nh = Some n \<and> nh_running n \<and> nh_hmap n \<noteq> [] \<and> nh_logger n = None
     \<and> (\<exists>a cbp. hm_lookup (nh_hmap n) sid = Some (Some a, Std_cb) \<and> w_cb w a = Some cbp
          \<and> 0 < cb_fd cbp \<and> cb_sz cbp = int sz \<and> sz \<le> length (cb_payload cbp) \<and> pipe_at w r (cb_fd cbp) buf)"

definition unbounded_pipes :: "os \<Rightarrow> bool" where
  "unbounded_pipes os \<longleftrightarrow> (\<forall>buf k. os_room os buf k)"

lemma nh_runner_round_frame:
  assumes "receiver w nh n sid sz r buf" "os_room os buf (20 + sz)" "length buffer = 1522"
    and ev: "ev_frame ev = Some (eth_frame dst src (pdu_bytes p @ pl))" "\<not> ev_stop ev"
    and len: "length dst = 6" "length src = 6" "sz \<le> length pl" "length pl \<le> 1484"
    and sid: "be64toh (p_stream_id p) = sid"
  shows "\<exists>w' buffer' m. nh_runner_round os ucb nh ev buffer w = Some (True, buffer', w')
    \<and> length buffer' = 1522 \<and> m_avtp_timestamp m = ntohl (p_avtp_timestamp p)
    \<and> receiver w' nh n sid sz r (buf @ meta_bytes m @ take sz pl) \<and> w_tick w' = Suc (w_tick w) \<and> w_ch w' = w_ch w"
proof -
  let ?fr = "eth_frame dst src (pdu_bytes p @ pl)"
  let ?b = "?fr @ drop (length ?fr) buffer"
  let ?du = "pdu_bytes p @ pl @ drop (length ?fr) buffer"
  from assms(1) obtain a cbp where
    n: "w_nh w nh = Some n" "nh_running n" "nh_hmap n \<noteq> []" "nh_logger n = None" and
    cb: "hm_lookup (nh_hmap n) sid = Some (Some a, Std_cb)" "w_cb w a = Some cbp" "0 < cb_fd cbp"
      "cb_sz cbp = int sz" "pipe_at w r (cb_fd cbp) buf" "sz \<le> length (cb_payload cbp)" by (auto simp: receiver_def)
  have lfr: "length ?fr = 38 + length pl" using len by (simp add: eth_frame_def)
  then have b: "overwrite buffer (take (length buffer) ?fr) = ?b" "length ?b = 1522"
    using len(4) assms(3) by (simp_all add: overwrite_def)
  have du: "drop sizeof_ethhdr ?b = ?du"
    by (simp only: sizeof_ethhdr_def drop_eth_frame [OF len(1,2)] append_assoc)
  have pdu: "pdu_of_bytes ?du = p" by (simp add: pdu_of_bytes_pdu_bytes)
  obtain ptp where ptp: "read_ptp os (nh_ptp_fd n) w = (ptp, tick w)" by (simp add: read_ptp_def)
  let ?rx = "if ev_stamps ev = [] then 0 else stamp_ns (last (ev_stamps ev))"
  let ?m = "\<lparr>m_ts_rx_ns = ?rx, m_ts_recv_ptp_ns = ptp, m_avtp_timestamp = ntohl (p_avtp_timestamp p)\<rparr>"
  have "\<exists>w' cbp'. nh_feed_pdu_ts os ucb (Some nh) (Some ?du) ?rx ptp (tick w) = Some (0, w')
    \<and> pipe_at w' r (cb_fd cbp) (buf @ meta_bytes ?m @ take sz pl)
    \<and> w_nh w' = w_nh w \<and> w_tick w' = Suc (w_tick w) \<and> w_cb w' = (w_cb w)(a \<mapsto> cbp')
    \<and> cb_fd cbp' = cb_fd cbp \<and> cb_sz cbp' = cb_sz cbp \<and> w_ch w' = w_ch w \<and> sz \<le> length (cb_payload cbp')"
    using nh_feed_pdu_ts_std [of "tick w" nh n ?du a cbp r buf os ucb ?rx ptp] n cb len(3) assms(2) sid
    by (auto simp: pdu sizeof_avtpdu_cshdr_def pipe_at_def intro!: exI)
  then obtain w' cbp' where feed: "nh_feed_pdu_ts os ucb (Some nh) (Some ?du) ?rx ptp (tick w) = Some (0, w')"
    and pipe: "pipe_at w' r (cb_fd cbp) (buf @ meta_bytes ?m @ take sz pl)"
    and same: "w_nh w' = w_nh w" "w_tick w' = Suc (w_tick w)" "w_cb w' = (w_cb w)(a \<mapsto> cbp')"
      "cb_fd cbp' = cb_fd cbp" "cb_sz cbp' = cb_sz cbp" "w_ch w' = w_ch w" "sz \<le> length (cb_payload cbp')" by blast
  have log: "with_logger (\<lambda>lg. log_rx (os_fopen os) lg (Some p) ?rx ptp) nh w' = Some w'"
    using n(1,4) same(1) by (simp add: with_logger_def log_rx_def fun_upd_idem)
  have "?fr \<noteq> []" by (simp add: eth_frame_def)
  then have "nh_runner_round os ucb nh ev buffer w = Some (True, ?b, w')"
    using ev n(1,2) ptp h_proto_eth_frame [OF len(1,2)] feed log
    by (simp add: nh_runner_round_def b(1) du pdu Let_def del: drop_append split del: if_split)
  moreover have "receiver w' nh n sid sz r (buf @ meta_bytes ?m @ take sz pl)"
    using n cb(1,3,4) same pipe by (auto simp: receiver_def)
  ultimately show ?thesis using b(2) same(2,6) by (intro exI [of _ w'] exI [of _ ?b] exI [of _ ?m]) simp
qed

text \<open>An event that carries PDU \<open>p\<close> with data \<open>pl\<close> of the stream, with at least \<open>sz\<close> bytes of it.\<close>

definition carries :: "u64 \<Rightarrow> nat \<Rightarrow> rx_event \<Rightarrow> avtpdu_cshdr \<times> bytes \<Rightarrow> bool" where
  "carries sid sz ev = (\<lambda>(p, pl). \<not> ev_stop ev
     \<and> (\<exists>dst src. length dst = 6 \<and> length src = 6 \<and> ev_frame ev = Some (eth_frame dst src (pdu_bytes p @ pl)))
     \<and> sz \<le> length pl \<and> length pl \<le> 1484 \<and> be64toh (p_stream_id p) = sid)"

lemma nh_runner_loop_frames:
  "list_all2 (carries sid sz) evs frs \<Longrightarrow> receiver w nh n sid sz r buf \<Longrightarrow> unbounded_pipes os \<Longrightarrow>
    length buffer = 1522 \<Longrightarrow>
    \<exists>w' ms. nh_runner_loop os ucb nh evs buffer w = Some w'
      \<and> map m_avtp_timestamp ms = map (\<lambda>(p, pl). ntohl (p_avtp_timestamp p)) frs
      \<and> receiver w' nh n sid sz r (buf @ concat (map2 (\<lambda>m (p, pl). meta_bytes m @ take sz pl) ms frs))
      \<and> w_ch w' = w_ch w"
proof (induction evs frs arbitrary: w buf buffer rule: list_all2_induct)
  case Nil
  then show ?case by simp
next
  case (Cons ev evs fr frs)
  obtain p pl where fr: "fr = (p, pl)" by (cases fr)
  with Cons.hyps(1) obtain dst src where c: "\<not> ev_stop ev" "length dst = 6" "length src = 6"
    "ev_frame ev = Some (eth_frame dst src (pdu_bytes p @ pl))" "sz \<le> length pl" "length pl \<le> 1484"
    "be64toh (p_stream_id p) = sid" by (auto simp: carries_def)
  obtain w1 buffer1 m where r1: "nh_runner_round os ucb nh ev buffer w = Some (True, buffer1, w1)"
    "length buffer1 = 1522" "m_avtp_timestamp m = ntohl (p_avtp_timestamp p)"
    "receiver w1 nh n sid sz r (buf @ meta_bytes m @ take sz pl)" "w_ch w1 = w_ch w"
    using nh_runner_round_frame [OF Cons.prems(1) _ Cons.prems(3) c(4,1,2,3,5,6,7)] Cons.prems(2) unfolding unbounded_pipes_def by blast
  obtain w' ms where w': "nh_runner_loop os ucb nh evs buffer1 w1 = Some w'"
    "map m_avtp_timestamp ms = map (\<lambda>(p, pl). ntohl (p_avtp_timestamp p)) frs"
    "receiver w' nh n sid sz r ((buf @ meta_bytes m @ take sz pl)
      @ concat (map2 (\<lambda>m (p, pl). meta_bytes m @ take sz pl) ms frs))" "w_ch w' = w_ch w1"
    using Cons.IH [OF r1(4) Cons.prems(2) r1(2)] by blast
  with r1 fr show ?case by (intro exI [of _ w'] exI [of _ "m # ms"]) simp
qed

text \<open>A registration without private data: the dispatcher writes timestamps through the null pointer.\<close>

lemma nh_feed_pdu_ts_null_priv:
  assumes "w_nh w nh = Some n" "nh_hmap n \<noteq> []"
    "hm_lookup (nh_hmap n) (be64toh (p_stream_id (pdu_of_bytes du))) = Some (None, cb)"
  shows "nh_feed_pdu_ts os ucb (Some nh) (Some du) rx ptp w = None"
  using get_hm_idx_lookup [OF assms(2), of "be64toh (p_stream_id (pdu_of_bytes du))"] assms
  by (auto simp: nh_feed_pdu_ts_def Let_def)

lemma stamp_ns_inexact: "stamp_ns \<lparr>tv_sec = 1700000000, tv_nsec = 100\<rparr> = 1700000000000000000"
  by (simp add: stamp_ns_def dbl_def bit_len.simps round_at_def)

section \<open>Properties\<close>

text \<open>C7: The receive thread delivers every frame of a registered stream: for any sequence of frames
  the thread takes them all, and the channel's pipe receives one record per frame, in the order of
  arrival, each with the sender's timestamp and exactly the first bytes of the frame's data that the
  channel was created for; no channel changes.\<close>

theorem nh_runner_delivers_in_order:
  assumes "receiver w nh n sid sz r buf" and "0 < nh_rx_sock n" and "unbounded_pipes os"
    and "list_all2 (carries sid sz) evs frs"
  shows "\<exists>w' ms. nh_runner os ucb (Some nh) evs w = Some w'
    \<and> map m_avtp_timestamp ms = map (\<lambda>(p, pl). ntohl (p_avtp_timestamp p)) frs
    \<and> receiver w' nh n sid sz r (buf @ concat (map2 (\<lambda>m (p, pl). meta_bytes m @ take sz pl) ms frs))
    \<and> w_ch w' = w_ch w"
proof -
  have "w_nh w nh = Some n" using assms(1) by (simp add: receiver_def)
  with nh_runner_loop_frames [OF assms(4,1,3), of "replicate 1522 0" ucb] assms(2) show ?thesis
    by (simp add: nh_runner_def)
qed

definition demo_pdu :: avtpdu_cshdr where
  "demo_pdu = (pdu_of_bytes (replicate 24 0))\<lparr>p_stream_id := htobe64 43, p_avtp_timestamp := htonl 77\<rparr>"

definition demo_event :: rx_event where
  "demo_event = \<lparr>ev_frame = Some (eth_frame (replicate 6 1) (replicate 6 2) (pdu_bytes demo_pdu @ [1, 2, 3, 4, 5, 6, 7, 8])),
     ev_stamps = [], ev_stop = False\<rparr>"

lemma demo_lookup: "hm_lookup (nh_hmap demo_nh) 43 = Some (Some 10, Std_cb)"
  by (simp add: demo_nh_def hm_lookup_def get_hm_idx_def)

lemma demo_receiver: "receiver demo_world 1 demo_nh 43 8 22 []" "unbounded_pipes demo_os" "0 < nh_rx_sock demo_nh"
  using demo_lookup
  by (auto simp: receiver_def unbounded_pipes_def demo_os_def demo_world_def demo_nh_def zero_nethandler_def
      demo_cb_def pipe_at_def open_pipe_def)

lemma demo_carries: "carries 43 8 demo_event (demo_pdu, [1, 2, 3, 4, 5, 6, 7, 8])"
proof -
  have "\<exists>dst src. length dst = 6 \<and> length src = 6
    \<and> ev_frame demo_event = Some (eth_frame dst src (pdu_bytes demo_pdu @ [1, 2, 3, 4, 5, 6, 7, 8]))"
    by (intro exI [of _ "replicate 6 1"] exI [of _ "replicate 6 2"]) (simp add: demo_event_def)
  then show ?thesis by (simp add: carries_def) (simp add: demo_event_def demo_pdu_def)
qed

theorem nh_runner_delivers_in_order_witness:
  "\<exists>w' m. nh_runner demo_os (\<lambda>_ _ _ _. None) (Some 1) [demo_event] demo_world = Some w'
     \<and> m_avtp_timestamp m = 77 \<and> receiver w' 1 demo_nh 43 8 22 (meta_bytes m @ [1, 2, 3, 4, 5, 6, 7, 8])"
  using nh_runner_delivers_in_order [OF demo_receiver(1,3,2), of "[demo_event]" "[(demo_pdu, [1, 2, 3, 4, 5, 6, 7, 8])]"
      "\<lambda>_ _ _ _. None"] demo_carries
  by (auto simp: demo_pdu_def map_eq_Cons_conv)

text \<open>A PDU of a stream that nobody registered is refused with \<open>EBADFD\<close> and changes nothing, and
  neither does a PDU without nethandler or header (\<open>EINVAL\<close>).\<close>

lemma nh_feed_pdu_unknown_stream:
  assumes "w_nh w nh = Some n" and "nh_hmap n \<noteq> []"
    and "hm_lookup (nh_hmap n) (be64toh (p_stream_id (pdu_of_bytes du))) = None"
  shows "nh_feed_pdu os ucb (Some nh) (Some du) w = Some (- EBADFD, w)
    \<and> nh_feed_pdu os ucb None (Some du) w = Some (- EINVAL, w)
    \<and> nh_feed_pdu os ucb (Some nh) None w = Some (- EINVAL, w)"
  using get_hm_idx_lookup [OF assms(2), of "be64toh (p_stream_id (pdu_of_bytes du))"] assms
  by (auto simp: nh_feed_pdu_def nh_feed_pdu_ts_def Let_def)

text \<open>The kernel's receive timestamp is converted through \<^verbatim>\<open>double\<close>: for times before the year
  2043 the recorded value is within 128 ns of the true one (and not always equal to it).\<close>

lemma rx_timestamp_precision:
  assumes "0 \<le> tv_sec ts" and "ts_normal ts" and "ts_ns ts < 2 ^ 61"
  shows "\<bar>uint (stamp_ns ts) - ts_ns ts\<bar> \<le> 128"
  using assms by (rule stamp_ns_error)

end
