(* ===== verification/Chan_Create.thy ===== *)
theory Chan_Create
  imports Rx_Path
begin

text \<open>
  Creation of channels (\<^verbatim>\<open>src/netchan.c\<close>): the common part with the admission tests, the
  talker with its socket and announcement, the listener with its callback area and
  registration.  The inner \<open>option\<close> of a result is the returned pointer.
\<close>

section \<open>The common part\<close>

definition i_chan_avtpdu_init :: "u64 \<Rightarrow> channel \<Rightarrow> channel" where
  "i_chan_avtpdu_init stream_id c =
     c\<lparr>ch_pdu := (ch_pdu c)\<lparr>p_subtype := AVTP_SUBTYPE_NETCHAN, p_stream_id := htobe64 stream_id,
         p_sv := 1, p_seqnr := 0xff\<rparr>,
       ch_sidw := stream_id\<rparr>"

text \<open>The warnings about too short intervals have no effect.\<close>

definition i_chan_set_streamclass :: "srp option \<Rightarrow> stream_class \<Rightarrow> u64 \<Rightarrow> channel \<Rightarrow> channel option" where
  "i_chan_set_streamclass srp sc interval_ns c =
     (let c = c\<lparr>ch_sc := sc\<rparr>
      in case sc of
           SC_TAS \<Rightarrow> map_option (\<lambda>s. c\<lparr>ch_pcp_prio := srp_prio_tas s\<rparr>) srp
         | SC_CLASS_A \<Rightarrow> map_option (\<lambda>s. c\<lparr>ch_pcp_prio := srp_prio_a s\<rparr>) srp
         | SC_CLASS_B \<Rightarrow> map_option (\<lambda>s. c\<lparr>ch_pcp_prio := srp_prio_b s\<rparr>) srp
         | SC_undeclared _ \<Rightarrow> Some c)"

definition i_chan_create ::
  "os \<Rightarrow> addr option \<Rightarrow> channel_attrs option \<Rightarrow> world \<Rightarrow> (addr option \<times> world) option" where
  "i_chan_create os nhp attrsp w =
     (case (nhp, attrsp) of
        (Some nh, Some attrs) \<Rightarrow> do {
          n \<leftarrow> w_nh w nh;
          if \<not> i_valid_size (a_size attrs) then Some (None, w)
          else do {
            ok \<leftarrow> i_valid_interval (nh_link_speed n) (a_interval_ns attrs) (a_size attrs);
            if \<not> ok then Some (None, w)
            else
              let calloc_ok = os_malloc os (w_tick w);
                  w = tick w
              in if \<not> calloc_ok then Some (None, w)
                 else
                   let ch = w_fresh w;
                       c = (zero_channel (unat (a_size attrs)))\<lparr>ch_nh := Some nh,
                             ch_payload_size := a_size attrs, ch_full_size := full_size_of (a_size attrs),
                             ch_stopping := False\<rparr>;
                       c = i_chan_avtpdu_init (a_stream_id attrs) c;
                       w = (set_ch ch c w)\<lparr>w_fresh := ch + 1\<rparr>;
                       guard = os_mutex_init os (w_tick w);
                       w = tick w
                   in if guard \<noteq> 0 then chan_destroy os (Some ch) w
                      else do {
                        let c = c\<lparr>ch_interval_ns := a_interval_ns attrs, ch_dst := take ETH_ALEN (a_dst attrs)\<rparr>;
                        c \<leftarrow> i_chan_set_streamclass (nh_srp n) (a_sc attrs) (a_interval_ns attrs) c;
                        let c = c\<lparr>ch_tx_sock := -1\<rparr>;
                        let w = set_ch ch c w;
                        let fds = os_pipe_fds os (w_tick w);
                        let w = tick w;
                        (case fds of
                           None \<Rightarrow> chan_destroy os (Some ch) w
                         | Some (r, wr) \<Rightarrow>
                             Some (Some ch, set_ch ch (c\<lparr>ch_fd_r := r, ch_fd_w := wr\<rparr>) (os_pipe r wr w)))
                      }
          }
        }
      | _ \<Rightarrow> Some (None, w))"

section \<open>Talkers\<close>

text \<open>The \<^verbatim>\<open>switch\<close> on the stream class: whether the socket could be set up.\<close>

definition tx_sock_part :: "os \<Rightarrow> channel_attrs \<Rightarrow> addr \<Rightarrow> world \<Rightarrow> (bool \<times> world) option" where
  "tx_sock_part os attrs ch w =
     (case a_sc attrs of
        SC_TAS \<Rightarrow> do {
          (ok, w) \<leftarrow> nc_create_tas_tx_sock os (Some ch) w;
          w \<leftarrow> (if ok then upd_ch ch (\<lambda>c. c\<lparr>ch_use_so_txtime := True\<rparr>) w else Some w);
          Some (ok, w)
        }
      | SC_undeclared _ \<Rightarrow> Some (True, w)
      | _ \<Rightarrow> nc_create_cbs_tx_sock os (Some ch) w)"

definition chan_create_tx ::
  "os \<Rightarrow> addr option \<Rightarrow> channel_attrs option \<Rightarrow> world \<Rightarrow> (addr option \<times> world) option" where
  "chan_create_tx os nhp attrsp w =
     (case (nhp, attrsp) of
        (Some nh, Some attrs) \<Rightarrow> do {
          (chp, w) \<leftarrow> i_chan_create os nhp attrsp w;
          (case chp of
             None \<Rightarrow> Some (None, w)
           | Some ch \<Rightarrow> do {
               (ok, w) \<leftarrow> tx_sock_part os attrs ch w;
               if \<not> ok then chan_destroy os (Some ch) w
               else do {
                 (t, w) \<leftarrow> read_tai os w;
                 w \<leftarrow> upd_ch ch (\<lambda>c. c\<lparr>ch_next_tx_ns := t\<rparr>) w;
                 (_, w) \<leftarrow> nh_add_tx (Some nh) (Some ch) w;
                 n \<leftarrow> w_nh w nh;
                 if nh_use_srp n
                 then do {
                   (ok, w) \<leftarrow> nc_srp_new_talker os (Some ch) w;
                   if \<not> ok then chan_destroy os (Some ch) w else Some (Some ch, w)
                 }
                 else do {
                   w \<leftarrow> upd_ch ch (\<lambda>c. c\<lparr>ch_ready := True\<rparr>) w;
                   Some (Some ch, w)
                 }
               }
             })
        }
      | _ \<Rightarrow> Some (None, w))"

section \<open>Listeners\<close>

text \<open>A failing multicast membership is only reported; the result of the registration is not used.\<close>

text \<open>From the allocation of the callback area on.\<close>

definition rx_attach :: "os \<Rightarrow> addr \<Rightarrow> channel \<Rightarrow> world \<Rightarrow> (addr option \<times> world) option" where
  "rx_attach os ch c w =
     (let t = w_tick w;
          w = tick w
      in if \<not> os_malloc os t then chan_destroy os (Some ch) w
         else do {
           let a = w_fresh w;
           let cbp = \<lparr>cb_sz = uint (ch_payload_size c), cb_fd = ch_fd_w c,
                      cb_meta = meta_of_bytes (map (os_heap_byte os t) [0..<sizeof_pipe_meta]),
                      cb_payload = map (os_heap_byte os t)
                        [sizeof_pipe_meta..<sizeof_pipe_meta + unat (ch_payload_size c)]\<rparr>;
           let w = (set_cb a cbp w)\<lparr>w_fresh := a + 1\<rparr>;
           w \<leftarrow> upd_ch ch (\<lambda>c. c\<lparr>ch_cbp := Some a\<rparr>) w;
           (_, w) \<leftarrow> nh_add_rx (ch_nh c) (Some ch) w;
           (_, w) \<leftarrow> nh_reg_callback (ch_nh c) (ch_sidw c) (Some a) (Some Std_cb) w;
           n \<leftarrow> get_nh w (ch_nh c);
           w \<leftarrow> (if \<not> nh_use_srp n then upd_ch ch (\<lambda>c. c\<lparr>ch_ready := True\<rparr>) w else Some w);
           Some (Some ch, w)
         })"

definition chan_create_rx ::
  "os \<Rightarrow> addr option \<Rightarrow> channel_attrs option \<Rightarrow> world \<Rightarrow> (addr option \<times> world) option" where
  "chan_create_rx os nhp attrsp w =
     (case (nhp, attrsp) of
        (Some nh, Some attrs) \<Rightarrow> do {
          (chp, w) \<leftarrow> i_chan_create os nhp attrsp w;
          (case chp of
             None \<Rightarrow> Some (None, w)
           | Some ch \<Rightarrow> do {
               c \<leftarrow> w_ch w ch;
               rx_attach os ch c (if take 3 (ch_dst c) = [0x01, 0x00, 0x5E] then tick w else w)
             })
        }
      | _ \<Rightarrow> Some (None, w))"

section \<open>Facts\<close>

lemma chan_destroy_ptr: "chan_destroy os p w = Some (q, w') \<Longrightarrow> q = None"
  by (auto simp: chan_destroy_def split: option.splits)

lemma i_chan_create_admitted:
  assumes "i_chan_create os (Some nh) (Some a) w = Some (Some ch, w')" "w_nh w nh = Some n"
  shows "i_valid_size (a_size a) \<and> i_valid_interval (nh_link_speed n) (a_interval_ns a) (a_size a) = Some True"
  using assms by (auto simp: i_chan_create_def bind_Some_iff split: if_splits)

text \<open>What admission means: the whole frame, with preamble, tag, checksum and gap, can be sent
  once per interval at the speed of the link.\<close>

lemma admitted_bounds:
  assumes "i_valid_size sz" "i_valid_interval ls iv sz = Some True"
  shows "1 \<le> uint sz \<and> uint sz \<le> 1476 \<and> uint iv < NS_IN_HOUR \<and> iv \<noteq> 0
    \<and> 8 * uint (full_size_of sz) * 1000000000 \<le> uint iv * uint ls"
proof -
  have "iv \<noteq> 0"
  proof
    assume "iv = 0"
    moreover have "0 \<le> 528 * 1000000000 div uint ls" by (simp add: div_int_pos_iff)
    ultimately show False using assms(2) by (simp add: i_valid_interval_True)
  qed
  moreover have "8 * uint (full_size_of sz) = 528 + uint sz * 8"
    using uint_full_size_of [OF assms(1)] by simp
  ultimately show ?thesis using assms unfolding i_valid_size_iff i_valid_interval_True by simp
qed

text \<open>An environment in which no call fails, and a heap whose allocator only gives out fresh
  addresses.\<close>

definition os_good :: "os \<Rightarrow> bool" where
  "os_good os \<longleftrightarrow> clock_ok os \<and> (\<forall>t. os_malloc os t \<and> os_mutex_init os t = 0 \<and> 0 < os_socket os t
     \<and> os_setsockopt os t = 0 \<and> (\<exists>r wr. os_pipe_fds os t = Some (r, wr) \<and> 0 < r \<and> 0 < wr \<and> r \<noteq> wr))"

definition heap_ok :: "world \<Rightarrow> bool" where
  "heap_ok w \<longleftrightarrow> (\<forall>a \<ge> w_fresh w. w_ch w a = None \<and> w_cb w a = None)"

definition new_channel :: "addr \<Rightarrow> srp \<Rightarrow> channel_attrs \<Rightarrow> int \<Rightarrow> int \<Rightarrow> channel" where
  "new_channel nh s a r wr =
     (i_chan_avtpdu_init (a_stream_id a)
       ((zero_channel (unat (a_size a)))\<lparr>ch_nh := Some nh, ch_payload_size := a_size a,
          ch_full_size := full_size_of (a_size a), ch_stopping := False\<rparr>))
     \<lparr>ch_interval_ns := a_interval_ns a, ch_dst := take ETH_ALEN (a_dst a), ch_sc := a_sc a,
      ch_pcp_prio := (case a_sc a of SC_TAS \<Rightarrow> srp_prio_tas s | SC_CLASS_A \<Rightarrow> srp_prio_a s
                      | SC_CLASS_B \<Rightarrow> srp_prio_b s | SC_undeclared _ \<Rightarrow> 0),
      ch_tx_sock := -1, ch_fd_r := r, ch_fd_w := wr\<rparr>"

lemma new_channel_fields [simp]:
  "ch_nh (new_channel nh s a r wr) = Some nh" "ch_next (new_channel nh s a r wr) = None"
  "ch_payload_size (new_channel nh s a r wr) = a_size a"
  "ch_full_size (new_channel nh s a r wr) = full_size_of (a_size a)"
  "ch_interval_ns (new_channel nh s a r wr) = a_interval_ns a" "ch_sidw (new_channel nh s a r wr) = a_stream_id a"
  "ch_cbp (new_channel nh s a r wr) = None" "ch_fd_r (new_channel nh s a r wr) = r"
  "ch_fd_w (new_channel nh s a r wr) = wr" "ch_stopping (new_channel nh s a r wr) = False"
  "p_stream_id (ch_pdu (new_channel nh s a r wr)) = htobe64 (a_stream_id a)"
  "p_seqnr (ch_pdu (new_channel nh s a r wr)) = 0xff" "ch_dst (new_channel nh s a r wr) = take ETH_ALEN (a_dst a)"
  "ch_payload (new_channel nh s a r wr) = replicate (unat (a_size a)) 0"
  "ch_tx_sock (new_channel nh s a r wr) = -1"
  by (simp_all add: new_channel_def i_chan_avtpdu_init_def zero_channel_def)

lemma i_chan_create_ok:
  assumes "w_nh w nh = Some n" "nh_srp n = Some s" "os_good os" "i_valid_size (a_size a)"
    "i_valid_interval (nh_link_speed n) (a_interval_ns a) (a_size a) = Some True"
  shows "\<exists>w' r wr. i_chan_create os (Some nh) (Some a) w = Some (Some (w_fresh w), w')
    \<and> w_ch w' = (w_ch w)(w_fresh w \<mapsto> new_channel nh s a r wr) \<and> w_nh w' = w_nh w \<and> w_cb w' = w_cb w
    \<and> w_fresh w' = w_fresh w + 2 \<and> 0 < r \<and> 0 < wr \<and> pipe_at w' r wr []"
proof -
  have os: "\<And>t. os_malloc os t" "\<And>t. os_mutex_init os t = 0" using assms(3) by (auto simp: os_good_def)
  obtain r wr where fds: "os_pipe_fds os (Suc (Suc (w_tick w))) = Some (r, wr)" "0 < r" "0 < wr" "r \<noteq> wr"
    using assms(3) unfolding os_good_def by blast
  have "\<exists>w'. i_chan_create os (Some nh) (Some a) w = Some (Some (w_fresh w), w')
    \<and> w_ch w' = (w_ch w)(w_fresh w \<mapsto> new_channel nh s a r wr) \<and> w_nh w' = w_nh w \<and> w_cb w' = w_cb w
    \<and> w_fresh w' = w_fresh w + 2 \<and> pipe_at w' r wr []"
    using assms(1,2,4,5) os fds
    by (cases "a_sc a")
      (simp_all add: i_chan_create_def i_chan_set_streamclass_def Let_def new_channel_def pipe_at_def os_pipe_def
        i_chan_avtpdu_init_def zero_channel_def)
  with fds show ?thesis by blast
qed

lemma i_nc_create_tx_sock_ok:
  assumes "live w ch c nh n" "os_good os"
  shows "\<exists>sock w' sk. i_nc_create_tx_sock os ch w = Some (sock, w') \<and> 0 < sock
    \<and> w_ch w' = (w_ch w)(ch \<mapsto> c\<lparr>ch_sk_addr := sk\<rparr>) \<and> w_nh w' = w_nh w \<and> w_cb w' = w_cb w
    \<and> w_fresh w' = w_fresh w"
proof -
  have os: "\<And>t. 0 < os_socket os t" "\<And>t. \<not> os_socket os t < 0" "\<And>t. os_setsockopt os t = 0"
    using assms(2) by (auto simp: os_good_def not_less intro: less_imp_le)
  show ?thesis using assms(1) os
    by (simp add: i_nc_create_tx_sock_def live_def Let_def) blast
qed

lemma tx_sock_part_ok:
  assumes "live w ch c nh n" "os_good os" "\<forall>x. a_sc a \<noteq> SC_undeclared x"
  shows "\<exists>w' sock prio sk ut ops tt. tx_sock_part os a ch w = Some (True, w') \<and> 0 < sock
    \<and> w_ch w' = (w_ch w)(ch \<mapsto> c\<lparr>ch_tx_sock_prio := prio, ch_sk_addr := sk, ch_tx_sock := sock,
         ch_use_so_txtime := ut, ch_txtime := tt, ch_ops := Some ops\<rparr>)
    \<and> (ops = tas_ops \<longleftrightarrow> a_sc a = SC_TAS) \<and> w_nh w' = w_nh w \<and> w_cb w' = w_cb w \<and> w_fresh w' = w_fresh w"
proof -
  have so: "\<And>t. os_setsockopt os t = 0" using assms(2) by (auto simp: os_good_def)
  show ?thesis
  proof (cases "a_sc a = SC_TAS")
    case True
    let ?c = "c\<lparr>ch_tx_sock_prio := nh_tx_tas_sock_prio n\<rparr>"
    have "live (set_ch ch ?c w) ch ?c nh n" using assms(1) by (simp add: live_def)
    from i_nc_create_tx_sock_ok [OF this assms(2)] obtain sock w1 sk where
      w1: "i_nc_create_tx_sock os ch (set_ch ch ?c w) = Some (sock, w1)" "0 < sock"
        "w_ch w1 = (w_ch w)(ch \<mapsto> ?c\<lparr>ch_sk_addr := sk\<rparr>)" "w_nh w1 = w_nh w" "w_cb w1 = w_cb w"
        "w_fresh w1 = w_fresh w" by auto
    then have "\<not> sock < 0" by simp
    let ?d = "c\<lparr>ch_tx_sock_prio := nh_tx_tas_sock_prio n, ch_sk_addr := sk, ch_tx_sock := sock, ch_use_so_txtime := True,
      ch_txtime := \<lparr>tt_clockid = CLOCK_TAI, tt_flags = SOF_TXTIME_REPORT_ERRORS\<rparr>, ch_ops := Some tas_ops\<rparr>"
    from True assms(1) w1 so \<open>\<not> sock < 0\<close> have "\<exists>w'. tx_sock_part os a ch w = Some (True, w')
      \<and> w_ch w' = (w_ch w)(ch \<mapsto> ?d) \<and> w_nh w' = w_nh w \<and> w_cb w' = w_cb w \<and> w_fresh w' = w_fresh w"
      by (simp add: tx_sock_part_def nc_create_tas_tx_sock_def live_def)
        (rule arg_cong [where f = "\<lambda>x. (w_ch w)(ch \<mapsto> x)"], simp)
    with True w1(2) show ?thesis by blast
  next
    case False
    let ?c = "c\<lparr>ch_tx_sock_prio := nh_tx_cbs_sock_prio n, ch_ops := Some cbs_ops\<rparr>"
    have "live (set_ch ch ?c w) ch ?c nh n" using assms(1) by (simp add: live_def)
    from i_nc_create_tx_sock_ok [OF this assms(2)] obtain sock w1 sk where
      w1: "i_nc_create_tx_sock os ch (set_ch ch ?c w) = Some (sock, w1)" "0 < sock"
        "w_ch w1 = (w_ch w)(ch \<mapsto> ?c\<lparr>ch_sk_addr := sk\<rparr>)" "w_nh w1 = w_nh w" "w_cb w1 = w_cb w"
        "w_fresh w1 = w_fresh w" by auto
    have part: "tx_sock_part os a ch w = nc_create_cbs_tx_sock os (Some ch) w"
      using False assms(3) by (cases "a_sc a") (auto simp: tx_sock_part_def)
    let ?d = "c\<lparr>ch_tx_sock_prio := nh_tx_cbs_sock_prio n, ch_sk_addr := sk, ch_tx_sock := sock,
      ch_use_so_txtime := ch_use_so_txtime c, ch_txtime := ch_txtime c, ch_ops := Some cbs_ops\<rparr>"
    have "\<exists>w'. tx_sock_part os a ch w = Some (True, w')
      \<and> w_ch w' = (w_ch w)(ch \<mapsto> ?d) \<and> w_nh w' = w_nh w \<and> w_cb w' = w_cb w \<and> w_fresh w' = w_fresh w"
      using assms(1) w1
      by (simp add: part nc_create_cbs_tx_sock_def live_def)
        (rule arg_cong [where f = "\<lambda>x. (w_ch w)(ch \<mapsto> x)"], simp)
    with False w1(2) show ?thesis by blast
  qed
qed

lemma tx_chans_cong:
  assumes "w_nh w' = w_nh w" "\<And>a. a \<in> set xs \<Longrightarrow> map_option ch_next (w_ch w' a) = map_option ch_next (w_ch w a)"
  shows "tx_chans w' nh xs tp \<longleftrightarrow> tx_chans w nh xs tp"
  using chain_cong [of xs "w_ch w'" "w_ch w"] assms by (auto simp: tx_chans_def)

lemma rx_chans_cong:
  assumes "w_nh w' = w_nh w" "\<And>a. a \<in> set xs \<Longrightarrow> map_option ch_next (w_ch w' a) = map_option ch_next (w_ch w a)"
  shows "rx_chans w' nh xs tp \<longleftrightarrow> rx_chans w nh xs tp"
  using chain_cong [of xs "w_ch w'" "w_ch w"] assms by (auto simp: rx_chans_def)

lemma heap_ok_not_listed: "heap_ok w \<Longrightarrow> chain (w_ch w) p xs \<Longrightarrow> w_fresh w \<notin> set xs"
  using chain_alloc [of "w_ch w" p xs "w_fresh w"] by (auto simp: heap_ok_def)

text \<open>A new talker on a working system: what it is, and that nothing else changes but the link of the last channel.\<close>

definition new_header :: "u64 \<Rightarrow> avtpdu_cshdr" where
  "new_header sid = (pdu_of_bytes (replicate 24 0))\<lparr>p_subtype := AVTP_SUBTYPE_NETCHAN, p_stream_id := htobe64 sid, p_sv := 1, p_seqnr := 0xff\<rparr>"

lemma new_header_sid [simp]: "p_stream_id (new_header sid) = htobe64 sid"
  by (simp add: new_header_def)

definition new_talker :: "os \<Rightarrow> channel_attrs \<Rightarrow> channel \<Rightarrow> bool" where
  "new_talker os a c \<longleftrightarrow> ch_ready c \<and> \<not> ch_stopping c \<and> 0 < ch_tx_sock c \<and> payload_ok c
     \<and> ch_sidw c = a_stream_id a \<and> ch_pdu c = new_header (a_stream_id a)
     \<and> ch_payload_size c = a_size a \<and> ch_full_size c = full_size_of (a_size a)
     \<and> ch_interval_ns c = a_interval_ns a \<and> ch_ops c = Some (if a_sc a = SC_TAS then tas_ops else cbs_ops)
     \<and> (\<exists>t ts. ch_next_tx_ns c = ts_u64 ts \<and> 0 \<le> ts_ns ts \<and> ts_ns ts < 2 ^ 62 \<and> os_clock os t CLOCK_TAI = Some ts)"

lemma chan_create_tx_new:
  assumes "w_nh w nh = Some n" "nh_srp n = Some s" "\<not> nh_use_srp n" "0 \<le> nh_rx_sock n" "os_good os" "heap_ok w"
    "tx_chans w nh xs tp" "tail_ok xs tp"
    "i_valid_size (a_size a)" "i_valid_interval (nh_link_speed n) (a_interval_ns a) (a_size a) = Some True"
    "a_stream_id a \<noteq> 0" "\<forall>x. a_sc a \<noteq> SC_undeclared x"
  shows "\<exists>ch w' c h. chan_create_tx os (Some nh) (Some a) w = Some (Some ch, w') \<and> ch = w_fresh w \<and> ch \<notin> set xs
    \<and> tx_chans w' nh (xs @ [ch]) (Some ch) \<and> w_ch w' ch = Some c \<and> ch_nh c = Some nh
    \<and> w_nh w' = (w_nh w)(nh \<mapsto> n\<lparr>nh_tx_head := h, nh_tx_tail := Some ch\<rparr>)
    \<and> valid_state c n \<and> new_talker os a c \<and> heap_ok w' \<and> (\<forall>b. b \<noteq> ch \<longrightarrow> relinked (w_ch w b) (w_ch w' b))"
proof -
  let ?ch = "w_fresh w"
  obtain w1 r wr where w1: "i_chan_create os (Some nh) (Some a) w = Some (Some ?ch, w1)"
    "w_ch w1 = (w_ch w)(?ch \<mapsto> new_channel nh s a r wr)" "w_nh w1 = w_nh w" "0 < r" "0 < wr" "w_fresh w1 = ?ch + 2" "w_cb w1 = w_cb w"
    using i_chan_create_ok [OF assms(1,2,5,9,10)] by blast
  have "live w1 ?ch (new_channel nh s a r wr) nh n" using w1(2,3) assms(1) by (simp add: live_def)
  from tx_sock_part_ok [OF this assms(5,12)] obtain w2 sock prio sk ut ops tt where
    w2: "tx_sock_part os a ?ch w1 = Some (True, w2)" "0 < sock"
      "w_ch w2 = (w_ch w1)(?ch \<mapsto> (new_channel nh s a r wr)\<lparr>ch_tx_sock_prio := prio, ch_sk_addr := sk,
         ch_tx_sock := sock, ch_use_so_txtime := ut, ch_txtime := tt, ch_ops := Some ops\<rparr>)"
      "ops = tas_ops \<longleftrightarrow> a_sc a = SC_TAS" "w_nh w2 = w_nh w1" "w_fresh w2 = w_fresh w1" "w_cb w2 = w_cb w1" by blast
  obtain ts where ts: "0 \<le> ts_ns ts" "ts_ns ts < 2 ^ 62" "read_tai os w2 = Some (ts_u64 ts, tick w2)"
    "os_clock os (w_tick w2) CLOCK_TAI = Some ts"
    using clock_ok_read_tai [of os w2] assms(5) by (auto simp: os_good_def)
  define c where "c = (new_channel nh s a r wr)\<lparr>ch_tx_sock_prio := prio, ch_sk_addr := sk,
         ch_tx_sock := sock, ch_use_so_txtime := ut, ch_txtime := tt, ch_ops := Some ops, ch_next_tx_ns := ts_u64 ts\<rparr>"
  let ?w3 = "set_ch ?ch c (tick w2)"
  have w3: "w_ch ?w3 = (w_ch w)(?ch \<mapsto> c)" "w_nh ?w3 = w_nh w" "w_fresh ?w3 = ?ch + 2" "w_cb ?w3 = w_cb w"
    using w1 w2 by simp_all
  have notin: "?ch \<notin> set xs" using assms(6,7) heap_ok_not_listed by (auto simp: tx_chans_def)
  have "tx_chans ?w3 nh xs tp \<longleftrightarrow> tx_chans w nh xs tp"
    using w3(1,2) notin by (intro tx_chans_cong) auto
  then have "tx_chans ?w3 nh xs tp" using assms(7) by simp
  moreover have "w_nh ?w3 nh = Some n" "w_ch ?w3 ?ch = Some c" using w3(1,2) assms(1) by simp_all
  moreover have "ch_next c = None" by (simp add: c_def)
  ultimately obtain w4 h where w4: "nh_add_tx (Some nh) (Some ?ch) ?w3 = Some (0, w4)"
    "tx_chans w4 nh (xs @ [?ch]) (Some ?ch)" "w_ch w4 ?ch = Some c"
    "w_nh w4 = (w_nh ?w3)(nh \<mapsto> n\<lparr>nh_tx_head := h, nh_tx_tail := Some ?ch\<rparr>)"
    "w4 = ?w3\<lparr>w_ch := w_ch w4, w_nh := w_nh w4\<rparr>" "\<forall>b. relinked (w_ch ?w3 b) (w_ch w4 b)"
    using tx_list.add_new [of nh ?w3 xs tp ?ch c n] assms(8) notin unfolding tx_repr by blast
  let ?c = "c\<lparr>ch_ready := True\<rparr>"
  let ?w5 = "set_ch ?ch ?c w4"
  have "chan_create_tx os (Some nh) (Some a) w = Some (Some ?ch, ?w5)"
    using w1(1) w2(1,3) ts(3) w4(1,3,4) assms(3) by (simp add: chan_create_tx_def c_def)
  moreover have "tx_chans ?w5 nh (xs @ [?ch]) (Some ?ch)"
    using w4(2,3) by (subst tx_chans_cong [of _ w4]) auto
  moreover have "w_nh ?w5 = (w_nh w)(nh \<mapsto> n\<lparr>nh_tx_head := h, nh_tx_tail := Some ?ch\<rparr>)" using w4(4) w3(2) by simp
  moreover have "valid_state ?c n"
    using assms(4,9,11) w1(4) w2(2) admitted_bounds [OF assms(9,10)]
    by (auto simp: valid_state_def c_def i_valid_size_def)
  moreover have "new_talker os a ?c"
    using w2(2,4) ts(1,2,4) by (cases ops) (auto simp: new_talker_def new_header_def c_def payload_ok_def new_channel_def i_chan_avtpdu_init_def zero_channel_def)
  moreover have "relinked (w_ch w b) (w_ch ?w5 b)" if "b \<noteq> ?ch" for b using w4(6) [rule_format, of b] that fun_cong [OF w3(1), of b] by simp
  moreover have "heap_ok ?w5"
  proof -
    have f: "w_fresh w4 = ?ch + 2" "w_cb w4 = w_cb w" using w3(3,4) by (subst w4(5), simp)+
    have "w_ch w4 b = None \<and> w_cb w b = None" if "?ch + 2 \<le> b" for b
      using w4(6) [rule_format, of b] fun_cong [OF w3(1), of b] that assms(6) by (simp add: heap_ok_def)
    with f show ?thesis by (simp add: heap_ok_def)
  qed
  ultimately show ?thesis using notin
    by (intro exI [of _ ?ch] exI [of _ ?w5] exI [of _ ?c] exI [of _ h]) (simp add: c_def)
qed

lemma chan_create_tx_ok:
  assumes "w_nh w nh = Some n" "nh_srp n = Some s" "\<not> nh_use_srp n" "0 \<le> nh_rx_sock n" "os_good os" "heap_ok w"
    "tx_chans w nh xs tp" "tail_ok xs tp"
    "i_valid_size (a_size a)" "i_valid_interval (nh_link_speed n) (a_interval_ns a) (a_size a) = Some True"
    "a_stream_id a \<noteq> 0" "\<forall>x. a_sc a \<noteq> SC_undeclared x"
  shows "\<exists>ch w' c n' ts. chan_create_tx os (Some nh) (Some a) w = Some (Some ch, w') \<and> ch \<notin> set xs
    \<and> tx_chans w' nh (xs @ [ch]) (Some ch) \<and> live w' ch c nh n' \<and> valid_state c n' \<and> payload_ok c
    \<and> ch_sidw c = a_stream_id a \<and> ch_payload_size c = a_size a \<and> ch_full_size c = full_size_of (a_size a)
    \<and> ch_interval_ns c = a_interval_ns a \<and> ch_ops c = Some (if a_sc a = SC_TAS then tas_ops else cbs_ops)
    \<and> ch_next_tx_ns c = ts_u64 ts \<and> 0 \<le> ts_ns ts \<and> ts_ns ts < 2 ^ 62
    \<and> (\<exists>t. os_clock os t CLOCK_TAI = Some ts)"
proof -
  from chan_create_tx_new [OF assms] obtain ch w' c h where c: "chan_create_tx os (Some nh) (Some a) w = Some (Some ch, w')" "ch \<notin> set xs"
    "tx_chans w' nh (xs @ [ch]) (Some ch)" "w_ch w' ch = Some c" "ch_nh c = Some nh" "valid_state c n" "new_talker os a c"
    "w_nh w' = (w_nh w)(nh \<mapsto> n\<lparr>nh_tx_head := h, nh_tx_tail := Some ch\<rparr>)" by blast
  then have "live w' ch c nh (n\<lparr>nh_tx_head := h, nh_tx_tail := Some ch\<rparr>)" "valid_state c (n\<lparr>nh_tx_head := h, nh_tx_tail := Some ch\<rparr>)"
    by (simp_all add: live_def valid_state_def)
  with c show ?thesis unfolding new_talker_def by blast
qed

lemma rx_attach_ok:
  assumes "w_ch w ch = Some c" "ch_nh c = Some nh" "ch_next c = None" "w_nh w nh = Some n" "\<not> nh_use_srp n"
    "os_malloc os (w_tick w)" "rx_chans w nh xs tp" "tail_ok xs tp" "ch \<notin> set xs"
    "hm_inv (nh_hmap n)" "0 < hm_free (nh_hmap n)" "hm_lookup (nh_hmap n) (ch_sidw c) = None"
  shows "\<exists>w' h hm cbp. rx_attach os ch c w = Some (Some ch, w')
    \<and> rx_chans w' nh (xs @ [ch]) (Some ch)
    \<and> w_ch w' ch = Some (c\<lparr>ch_cbp := Some (w_fresh w), ch_ready := True\<rparr>)
    \<and> w_nh w' nh = Some (n\<lparr>nh_rx_head := h, nh_rx_tail := Some ch, nh_hmap := hm\<rparr>)
    \<and> w_cb w' (w_fresh w) = Some cbp \<and> cb_sz cbp = uint (ch_payload_size c) \<and> cb_fd cbp = ch_fd_w c
    \<and> length (cb_payload cbp) = unat (ch_payload_size c)
    \<and> w_fds w' = w_fds w \<and> w_pipes w' = w_pipes w \<and> hm_inv hm
    \<and> hm_lookup hm = (hm_lookup (nh_hmap n))(ch_sidw c \<mapsto> (Some (w_fresh w), Std_cb))"
proof -
  let ?a = "w_fresh w"
  define cbp where "cbp = \<lparr>cb_sz = uint (ch_payload_size c), cb_fd = ch_fd_w c,
    cb_meta = meta_of_bytes (map (os_heap_byte os (w_tick w)) [0..<sizeof_pipe_meta]),
    cb_payload = map (os_heap_byte os (w_tick w)) [sizeof_pipe_meta..<sizeof_pipe_meta + unat (ch_payload_size c)]\<rparr>"
  define w3 where "w3 = set_ch ch (c\<lparr>ch_cbp := Some ?a\<rparr>) ((set_cb ?a cbp (tick w))\<lparr>w_fresh := ?a + 1\<rparr>)"
  have "rx_chans w3 nh xs tp \<longleftrightarrow> rx_chans w nh xs tp"
    using assms(9) by (intro rx_chans_cong) (auto simp: w3_def)
  with assms(7) have "rx_chans w3 nh xs tp" by simp
  moreover have "w_nh w3 nh = Some n" and "w_ch w3 ch = Some (c\<lparr>ch_cbp := Some ?a\<rparr>)"
    using assms(4) by (simp_all add: w3_def)
  ultimately obtain w4 h where w4: "nh_add_rx (Some nh) (Some ch) w3 = Some (0, w4)"
    "rx_chans w4 nh (xs @ [ch]) (Some ch)" "w_ch w4 ch = Some (c\<lparr>ch_cbp := Some ?a\<rparr>)"
    "w_nh w4 = (w_nh w3)(nh \<mapsto> n\<lparr>nh_rx_head := h, nh_rx_tail := Some ch\<rparr>)"
    "w4 = w3\<lparr>w_ch := w_ch w4, w_nh := w_nh w4\<rparr>"
    using rx_list.add_new [of nh w3 xs tp ch "c\<lparr>ch_cbp := Some ?a\<rparr>" n] assms(3,8,9) unfolding rx_repr
    by auto
  have same: "w_cb w4 = w_cb w3" "w_fds w4 = w_fds w3" "w_pipes w4 = w_pipes w3"
    by (subst w4(5), simp)+
  obtain hm where hm: "hm_reg (nh_hmap n) (ch_sidw c) (Some ?a, Std_cb) = (0, hm)" "hm_inv hm"
    "hm_lookup hm = (hm_lookup (nh_hmap n))(ch_sidw c \<mapsto> (Some ?a, Std_cb))"
    using hm.reg_room [OF assms(10,11), of "ch_sidw c" "(Some ?a, Std_cb)"] assms(12) by auto
  let ?n = "n\<lparr>nh_rx_head := h, nh_rx_tail := Some ch, nh_hmap := hm\<rparr>"
  let ?w = "set_ch ch (c\<lparr>ch_cbp := Some ?a, ch_ready := True\<rparr>) (set_nh nh ?n w4)"
  have reg: "nh_reg_callback (Some nh) (ch_sidw c) (Some ?a) (Some Std_cb) w4 = Some (0, set_nh nh ?n w4)"
    using w4(4) hm(1) by (simp add: nh_reg_callback_def hm_reg_def)
  have "rx_attach os ch c w = Some (Some ch, ?w)"
    using assms(1,2,5,6) w4(1,3) reg
    by (simp add: rx_attach_def Let_def cbp_def [symmetric] w3_def [symmetric])
      (simp add: w3_def)
  moreover have "rx_chans ?w nh (xs @ [ch]) (Some ch)"
  proof -
    have "map_option ch_next (w_ch ?w b) = map_option ch_next (w_ch w4 b)" for b
      using w4(3) by simp
    then show ?thesis using w4(2,4) chain_cong [of "xs @ [ch]" "w_ch ?w" "w_ch w4"]
      by (simp add: rx_chans_def)
  qed
  ultimately show ?thesis
    using same hm(2,3) by (intro exI [of _ ?w] exI [of _ h] exI [of _ hm] exI [of _ cbp]) (simp add: w3_def, simp add: cbp_def)
qed

lemma chan_create_rx_ok:
  assumes "w_nh w nh = Some n" "nh_srp n = Some s" "\<not> nh_use_srp n" "0 \<le> nh_rx_sock n" "os_good os" "heap_ok w"
    "rx_chans w nh xs tp" "tail_ok xs tp"
    "i_valid_size (a_size a)" "i_valid_interval (nh_link_speed n) (a_interval_ns a) (a_size a) = Some True"
    "a_stream_id a \<noteq> 0" "hm_inv (nh_hmap n)" "0 < hm_free (nh_hmap n)" "hm_lookup (nh_hmap n) (a_stream_id a) = None"
  shows "\<exists>ch w' c n' cba cbp. chan_create_rx os (Some nh) (Some a) w = Some (Some ch, w')
    \<and> rx_chans w' nh (xs @ [ch]) (Some ch) \<and> live w' ch c nh n' \<and> valid_state c n' \<and> \<not> ch_stopping c
    \<and> ch_sidw c = a_stream_id a \<and> ch_payload_size c = a_size a \<and> ch_cbp c = Some cba \<and> w_cb w' cba = Some cbp
    \<and> hm_inv (nh_hmap n')
    \<and> hm_lookup (nh_hmap n') = (hm_lookup (nh_hmap n))(a_stream_id a \<mapsto> (Some cba, Std_cb))
    \<and> cb_sz cbp = uint (a_size a) \<and> cb_fd cbp = ch_fd_w c \<and> 0 < cb_fd cbp
    \<and> length (cb_payload cbp) = unat (a_size a) \<and> pipe_at w' (ch_fd_r c) (ch_fd_w c) []
    \<and> nh_running n' = nh_running n \<and> nh_logger n' = nh_logger n \<and> nh_rx_sock n' = nh_rx_sock n"
proof -
  let ?ch = "w_fresh w"
  obtain w1 r wr where w1: "i_chan_create os (Some nh) (Some a) w = Some (Some ?ch, w1)"
    "w_ch w1 = (w_ch w)(?ch \<mapsto> new_channel nh s a r wr)" "w_nh w1 = w_nh w" "0 < r" "0 < wr" "pipe_at w1 r wr []"
    using i_chan_create_ok [OF assms(1,2,5,9,10)] by blast
  let ?c = "new_channel nh s a r wr"
  let ?w = "if take 3 (ch_dst ?c) = [0x01, 0x00, 0x5E] then tick w1 else w1"
  have w2: "w_ch ?w = w_ch w1" "w_nh ?w = w_nh w1" "pipe_at ?w r wr []"
    using w1(6) by (simp_all add: pipe_at_def)
  have notin: "?ch \<notin> set xs" using assms(6,7) heap_ok_not_listed by (auto simp: rx_chans_def)
  have "rx_chans ?w nh xs tp \<longleftrightarrow> rx_chans w nh xs tp"
    using w1(2,3) w2(1,2) notin by (intro rx_chans_cong) auto
  then have rx: "rx_chans ?w nh xs tp" using assms(7) by simp
  have "os_malloc os (w_tick ?w)" "w_ch ?w ?ch = Some ?c" "w_nh ?w nh = Some n"
    using assms(1,5) w1(2,3) w2(1,2) by (simp_all add: os_good_def)
  from rx_attach_ok [OF this(2) _ _ this(3) assms(3) this(1) rx assms(8) notin assms(12,13)] assms(14)
  obtain w' h hm cbp where w': "rx_attach os ?ch ?c ?w = Some (Some ?ch, w')"
    "rx_chans w' nh (xs @ [?ch]) (Some ?ch)" "w_ch w' ?ch = Some (?c\<lparr>ch_cbp := Some (w_fresh ?w), ch_ready := True\<rparr>)"
    "w_nh w' nh = Some (n\<lparr>nh_rx_head := h, nh_rx_tail := Some ?ch, nh_hmap := hm\<rparr>)"
    "w_cb w' (w_fresh ?w) = Some cbp" "cb_sz cbp = uint (a_size a)" "cb_fd cbp = wr"
    "length (cb_payload cbp) = unat (a_size a)" "w_fds w' = w_fds ?w" "w_pipes w' = w_pipes ?w" "hm_inv hm"
    "hm_lookup hm = (hm_lookup (nh_hmap n))(a_stream_id a \<mapsto> (Some (w_fresh ?w), Std_cb))"
    by auto
  have "chan_create_rx os (Some nh) (Some a) w = Some (Some ?ch, w')"
    using w1(1,2) w'(1) by (simp add: chan_create_rx_def)
  moreover have "pipe_at w' r wr []" using w2(3) w'(9,10) by (simp add: pipe_at_def)
  moreover have "valid_state (?c\<lparr>ch_cbp := Some (w_fresh ?w), ch_ready := True\<rparr>)
      (n\<lparr>nh_rx_head := h, nh_rx_tail := Some ?ch, nh_hmap := hm\<rparr>)"
    using assms(4,9,11) w1(4) by (auto simp: valid_state_def i_valid_size_def)
  ultimately show ?thesis using w'(2-8,11,12) w1(5)
    by (intro exI [of _ ?ch] exI [of _ w'] exI [of _ "?c\<lparr>ch_cbp := Some (w_fresh ?w), ch_ready := True\<rparr>"]
        exI [of _ "n\<lparr>nh_rx_head := h, nh_rx_tail := Some ?ch, nh_hmap := hm\<rparr>"] exI [of _ "w_fresh ?w"] exI [of _ cbp])
      (simp add: live_def)
qed

section \<open>Properties\<close>

lemma create_Some:
  assumes "chan_create_tx os (Some nh) (Some a) w = Some (Some ch, w')
    \<or> chan_create_rx os (Some nh) (Some a) w = Some (Some ch, w')"
  obtains w1 where "i_chan_create os (Some nh) (Some a) w = Some (Some ch, w1)"
  using assms
  by (auto simp: chan_create_tx_def chan_create_rx_def rx_attach_def Let_def bind_Some_iff
      dest: chan_destroy_ptr split: option.splits if_splits prod.splits)

text \<open>An example: a fresh nethandler on a 1 Gbit/s link and a stream of 8 bytes every millisecond.\<close>

definition idle_nh :: nethandler where
  "idle_nh = zero_nethandler\<lparr>nh_srp := Some demo_srp, nh_rx_sock := 5, nh_link_speed := 1000000000,
     nh_running := True, nh_ptp_fd := 6, nh_hmap := hm_alloc 8\<rparr>"

definition idle_world :: world where
  "idle_world = empty_world\<lparr>w_nh := [1 \<mapsto> idle_nh]\<rparr>"

definition demo_attrs :: channel_attrs where
  "demo_attrs = \<lparr>a_dst = [1, 0, 0x5E, 1, 2, 3], a_stream_id = 43, a_sc = SC_TAS, a_size = 8,
     a_interval_ns = 1000000, a_name = ''mcast''\<rparr>"

lemma demo_os_good: "os_good demo_os"
  by (simp add: os_good_def clock_ok_def demo_os_def ts_ns_def)

lemma idle_nh_at:
  "w_nh idle_world 1 = Some idle_nh" "nh_srp idle_nh = Some demo_srp" "\<not> nh_use_srp idle_nh" "0 \<le> nh_rx_sock idle_nh"
  "heap_ok idle_world" "tx_chans idle_world 1 [] None" "rx_chans idle_world 1 [] None" "tail_ok [] (None :: addr option)"
  "hm_inv (nh_hmap idle_nh)" "0 < hm_free (nh_hmap idle_nh)"
  by (simp_all add: idle_world_def idle_nh_def zero_nethandler_def heap_ok_def empty_world_def tx_chans_def
      rx_chans_def tail_ok_def)

lemma demo_attrs_admitted:
  "i_valid_size (a_size demo_attrs)" "a_stream_id demo_attrs \<noteq> 0" "\<forall>x. a_sc demo_attrs \<noteq> SC_undeclared x"
  "i_valid_interval (nh_link_speed idle_nh) (a_interval_ns demo_attrs) (a_size demo_attrs) = Some True"
  "hm_lookup (nh_hmap idle_nh) (a_stream_id demo_attrs) = None"
  by (simp_all add: demo_attrs_def idle_nh_def i_valid_size_def i_valid_interval_def min_sz_def Let_def NS_IN_SEC_def
      NS_IN_HOUR_def sizeof_avtpdu_cshdr_def)

text \<open>The attributes of the stream, as the channel keeps them; nothing after the common part changes them.\<close>

definition has_attrs :: "channel_attrs \<Rightarrow> channel \<Rightarrow> bool" where
  "has_attrs a c \<longleftrightarrow> ch_payload_size c = a_size a \<and> ch_full_size c = full_size_of (a_size a) \<and> ch_interval_ns c = a_interval_ns a
     \<and> ch_sidw c = a_stream_id a \<and> length (ch_payload c) = unat (a_size a)"

definition attrs_at :: "channel_attrs \<Rightarrow> addr \<Rightarrow> world \<Rightarrow> bool" where
  "attrs_at a ch w \<longleftrightarrow> (\<exists>c. w_ch w ch = Some c \<and> has_attrs a c)"

lemma i_chan_create_attrs:
  assumes "i_chan_create os (Some nh) (Some a) w = Some (Some ch, w')"
  shows "attrs_at a ch w'"
proof -
  have "i_chan_set_streamclass s sc iv c = Some c' \<Longrightarrow> has_attrs a c' = has_attrs a c" for s sc iv c c'
    by (auto simp: i_chan_set_streamclass_def has_attrs_def Let_def split: stream_class.splits)
  then show ?thesis using assms
    by (auto simp: i_chan_create_def attrs_at_def bind_Some_iff Let_def has_attrs_def i_chan_avtpdu_init_def zero_channel_def
        dest: chan_destroy_ptr split: if_splits option.splits)
qed

lemma attrs_at_upd:
  "upd_ch b f w = Some w' \<Longrightarrow> attrs_at a ch w \<Longrightarrow> (\<And>c. has_attrs a c \<Longrightarrow> has_attrs a (f c)) \<Longrightarrow> attrs_at a ch w'"
  by (auto simp: attrs_at_def upd_ch_def bind_Some_iff)

lemma attrs_at_cong: "w_ch w' = w_ch w \<Longrightarrow> attrs_at a ch w' = attrs_at a ch w"
  by (simp add: attrs_at_def)

lemma nh_add_attrs:
  "nh_add_tx p q w = Some (r, w') \<Longrightarrow> attrs_at a ch w \<Longrightarrow> attrs_at a ch w'"
  "nh_add_rx p q w = Some (r, w') \<Longrightarrow> attrs_at a ch w \<Longrightarrow> attrs_at a ch w'"
  by (auto simp: nh_add_tx_def nh_add_rx_def upd_ch_def bind_Some_iff attrs_at_def has_attrs_def split: option.splits if_splits)

lemma tx_sock_part_attrs:
  assumes "tx_sock_part os a' b w = Some (ok, w')" "attrs_at a ch w"
  shows "attrs_at a ch w'"
proof -
  have sock: "i_nc_create_tx_sock os b u = Some (s, u') \<Longrightarrow> attrs_at a ch u \<Longrightarrow> attrs_at a ch u'" for s u u'
    by (auto simp: i_nc_create_tx_sock_def bind_Some_iff Let_def upd_ch_def attrs_at_def has_attrs_def split: if_splits)
  have cbs: "nc_create_cbs_tx_sock os (Some b) u = Some (ok, u') \<Longrightarrow> attrs_at a ch u \<Longrightarrow> attrs_at a ch u'" for ok u u'
    by (auto simp: nc_create_cbs_tx_sock_def bind_Some_iff simp del: upd_ch_Some dest!: sock elim!: attrs_at_upd)
      (auto simp: has_attrs_def)
  have tas: "nc_create_tas_tx_sock os (Some b) u = Some (ok, u') \<Longrightarrow> attrs_at a ch u \<Longrightarrow> attrs_at a ch u'" for ok u u'
    by (auto simp: nc_create_tas_tx_sock_def bind_Some_iff Let_def attrs_at_cong [of "tick _"] attrs_at_cong [of "os_close _ _"] simp del: upd_ch_Some
        dest!: sock elim!: attrs_at_upd split: if_splits) (auto simp: has_attrs_def)
  show ?thesis using assms
    by (auto simp: tx_sock_part_def bind_Some_iff simp del: upd_ch_Some intro: cbs [OF _ assms(2)] tas [OF _ assms(2)] split: stream_class.splits if_splits)
      (rule attrs_at_upd, assumption, rule tas [OF _ assms(2)], assumption, simp add: has_attrs_def)
qed

lemma rx_attach_ptr: "rx_attach os ch c w = Some (Some b, w') \<Longrightarrow> b = ch"
  by (auto simp: rx_attach_def bind_Some_iff Let_def simp del: upd_ch_Some dest: chan_destroy_ptr split: if_splits)

lemma create_attrs:
  assumes "chan_create_tx os (Some nh) (Some a) w = Some (Some ch, w') \<or> chan_create_rx os (Some nh) (Some a) w = Some (Some ch, w')"
  shows "attrs_at a ch w'"
proof -
  have f: "has_attrs a (c\<lparr>ch_ready := r\<rparr>) = has_attrs a c" "has_attrs a (c\<lparr>ch_next_tx_ns := t\<rparr>) = has_attrs a c"
    "has_attrs a (c\<lparr>ch_cbp := p\<rparr>) = has_attrs a c" for c r t p by (simp_all add: has_attrs_def)
  have tai: "read_tai os u = Some (t, u') \<Longrightarrow> w_ch u' = w_ch u" for t u u' by (auto simp: read_tai_def read_clock_def bind_Some_iff)
  have srp: "nc_srp_new_talker os p u = Some (ok, u') \<Longrightarrow> w_ch u' = w_ch u" for p u ok u'
    using srp_channel_ops_only_mrp only_mrp_fields by blast
  have "attrs_at a ch w'" if "chan_create_tx os (Some nh) (Some a) w = Some (Some ch, w')"
  proof -
    from that obtain w1 w2 t w3 w4 r w5 where "i_chan_create os (Some nh) (Some a) w = Some (Some ch, w1)"
      "tx_sock_part os a ch w1 = Some (True, w2)" "read_tai os w2 = Some (t, w3)" "upd_ch ch (\<lambda>c. c\<lparr>ch_next_tx_ns := t\<rparr>) w3 = Some w4"
      "nh_add_tx (Some nh) (Some ch) w4 = Some (r, w5)"
      "upd_ch ch (\<lambda>c. c\<lparr>ch_ready := True\<rparr>) w5 = Some w' \<or> nc_srp_new_talker os (Some ch) w5 = Some (True, w')"
      by (auto simp: chan_create_tx_def bind_Some_iff simp del: upd_ch_Some dest: chan_destroy_ptr split: option.splits if_splits)
    note s = this
    have "attrs_at a ch w2" using tx_sock_part_attrs [OF s(2) i_chan_create_attrs [OF s(1)]] .
    then have "attrs_at a ch w3" using attrs_at_cong [OF tai [OF s(3)]] by simp
    from attrs_at_upd [OF s(4) this] f(2) have "attrs_at a ch w4" by blast
    with nh_add_attrs(1) [OF s(5)] have w5: "attrs_at a ch w5" .
    from s(6) show ?thesis
    proof
      assume "upd_ch ch (\<lambda>c. c\<lparr>ch_ready := True\<rparr>) w5 = Some w'"
      from attrs_at_upd [OF this w5] f(1) show ?thesis by blast
    next
      assume "nc_srp_new_talker os (Some ch) w5 = Some (True, w')"
      from attrs_at_cong [OF srp [OF this]] w5 show ?thesis by blast
    qed
  qed
  moreover have "attrs_at a ch w'" if "chan_create_rx os (Some nh) (Some a) w = Some (Some ch, w')"
  proof -
    from that obtain w1 c where s1: "i_chan_create os (Some nh) (Some a) w = Some (Some ch, w1)"
      "rx_attach os ch c (if take 3 (ch_dst c) = [0x01, 0x00, 0x5E] then tick w1 else w1) = Some (Some ch, w')"
      by (auto simp: chan_create_rx_def bind_Some_iff split: option.splits) (metis rx_attach_ptr)
    define w2 where "w2 = (if take 3 (ch_dst c) = [0x01, 0x00, 0x5E] then tick w1 else w1)"
    have s: "i_chan_create os (Some nh) (Some a) w = Some (Some ch, w1)" "w_ch w2 = w_ch w1" "rx_attach os ch c w2 = Some (Some ch, w')"
      using s1 by (simp_all add: w2_def)
    have w2: "attrs_at a ch w2" using i_chan_create_attrs [OF s(1)] attrs_at_cong [OF s(2)] by simp
    from s(3) obtain cba w3 w4 r w5 r' w6 where t: "upd_ch ch (\<lambda>c. c\<lparr>ch_cbp := Some cba\<rparr>) w3 = Some w4" "w_ch w3 = w_ch w2"
      "nh_add_rx (ch_nh c) (Some ch) w4 = Some (r, w5)" "nh_reg_callback (ch_nh c) (ch_sidw c) (Some cba) (Some Std_cb) w5 = Some (r', w6)"
      "upd_ch ch (\<lambda>c. c\<lparr>ch_ready := True\<rparr>) w6 = Some w' \<or> w' = w6"
      by (auto simp: rx_attach_def bind_Some_iff Let_def simp del: upd_ch_Some dest: chan_destroy_ptr split: if_splits)
    from attrs_at_upd [OF t(1)] f(3) attrs_at_cong [OF t(2)] w2 have "attrs_at a ch w4" by blast
    with nh_add_attrs(2) [OF t(3)] have "attrs_at a ch w5" .
    moreover have "w_ch w6 = w_ch w5" using t(4) by (auto simp: nh_reg_callback_def bind_Some_iff Let_def case_prod_unfold split: option.splits)
    ultimately have "attrs_at a ch w6" using attrs_at_cong by blast
    with t(5) f(1) attrs_at_upd show ?thesis by blast
  qed
  ultimately show ?thesis using assms by blast
qed

text \<open>C8: Admission.  Whatever the system calls answer, a channel that either constructor returns exists in the world after the
  call with the stream id, payload size and period that were asked for; the payload has 1 to 1476 bytes and is allocated in full, the period
  is below an hour, and the whole frame of the channel, with preamble, tag, checksum and gap, can be sent once per period at
  the speed of the link.  (The comment on the attributes allows 0 to 1500 bytes.)\<close>

theorem created_channel_fits_link:
  assumes "w_nh w nh = Some n"
    "chan_create_tx os (Some nh) (Some a) w = Some (Some ch, w') \<or> chan_create_rx os (Some nh) (Some a) w = Some (Some ch, w')"
  shows "\<exists>c. w_ch w' ch = Some c \<and> ch_sidw c = a_stream_id a \<and> ch_payload_size c = a_size a \<and> ch_interval_ns c = a_interval_ns a
    \<and> length (ch_payload c) = unat (ch_payload_size c)
    \<and> 1 \<le> uint (ch_payload_size c) \<and> uint (ch_payload_size c) \<le> 1476 \<and> uint (ch_interval_ns c) < NS_IN_HOUR
    \<and> 8 * uint (ch_full_size c) * 1000000000 \<le> uint (ch_interval_ns c) * uint (nh_link_speed n)"
proof -
  obtain w1 where w1: "i_chan_create os (Some nh) (Some a) w = Some (Some ch, w1)" using create_Some [OF assms(2)] .
  have "attrs_at a ch w'" by (rule create_attrs [OF assms(2)])
  then obtain c where c: "w_ch w' ch = Some c" "has_attrs a c" by (auto simp: attrs_at_def)
  moreover have "1 \<le> uint (a_size a) \<and> uint (a_size a) \<le> 1476 \<and> uint (a_interval_ns a) < NS_IN_HOUR
      \<and> 8 * uint (full_size_of (a_size a)) * 1000000000 \<le> uint (a_interval_ns a) * uint (nh_link_speed n)"
    using admitted_bounds i_chan_create_admitted [OF w1 assms(1)] by blast
  ultimately show ?thesis by (intro exI [of _ c]) (simp add: has_attrs_def)
qed

theorem created_channel_fits_link_witness:
  "\<exists>ch w' c. chan_create_tx demo_os (Some 1) (Some demo_attrs) idle_world = Some (Some ch, w')
    \<and> w_ch w' ch = Some c \<and> ch_payload_size c = 8 \<and> 8 * uint (ch_full_size c) * 1000000000 \<le> (1000000 :: int) * 1000000000"
proof -
  obtain ch w' where r: "chan_create_tx demo_os (Some 1) (Some demo_attrs) idle_world = Some (Some ch, w')"
    using chan_create_tx_ok [OF idle_nh_at(1-4) demo_os_good idle_nh_at(5,6,8) demo_attrs_admitted(1,4,2,3)] by blast
  with created_channel_fits_link [OF idle_nh_at(1), of demo_os demo_attrs ch w'] show ?thesis
    by (auto simp: demo_attrs_def idle_nh_def)
qed

text \<open>The header after a number of updates, and its bytes.\<close>

lemma fold_updated_header:
  "unat (ch_payload_size c) \<le> length (ch_payload c) \<Longrightarrow>
    \<exists>t tv sd. ch_pdu (fold (\<lambda>(ts, d). updated ts d) us c)
      = (ch_pdu c)\<lparr>p_seqnr := p_seqnr (ch_pdu c) + of_nat (length us), p_avtp_timestamp := t, p_tv := tv, p_sdl := sd\<rparr>
    \<and> ch_payload_size (fold (\<lambda>(ts, d). updated ts d) us c) = ch_payload_size c
    \<and> length (ch_payload (fold (\<lambda>(ts, d). updated ts d) us c)) = length (ch_payload c)"
proof (induction us arbitrary: c)
  case Nil
  show ?case by (intro exI [of _ "p_avtp_timestamp (ch_pdu c)"] exI [of _ "p_tv (ch_pdu c)"] exI [of _ "p_sdl (ch_pdu c)"]) simp
next
  case (Cons u us)
  obtain ts d where u: "u = (ts, d)" by (cases u)
  have l: "length (ch_payload (updated ts d c)) = length (ch_payload c)" "ch_payload_size (updated ts d c) = ch_payload_size c"
    using Cons.prems by (simp_all add: updated_def)
  have p: "ch_pdu (updated ts d c) = (ch_pdu c)\<lparr>p_seqnr := p_seqnr (ch_pdu c) + 1, p_avtp_timestamp := htonl (tai_to_avtp_ns ts),
      p_tv := 1, p_sdl := htons (ch_payload_size c)\<rparr>" by (simp add: updated_def)
  from Cons.IH [of "updated ts d c"] Cons.prems l obtain t tv sd where
    "ch_pdu (fold (\<lambda>(ts, d). updated ts d) us (updated ts d c)) = (ch_pdu (updated ts d c))\<lparr>p_seqnr := p_seqnr (ch_pdu (updated ts d c)) + of_nat (length us),
       p_avtp_timestamp := t, p_tv := tv, p_sdl := sd\<rparr>"
    "ch_payload_size (fold (\<lambda>(ts, d). updated ts d) us (updated ts d c)) = ch_payload_size c"
    "length (ch_payload (fold (\<lambda>(ts, d). updated ts d) us (updated ts d c))) = length (ch_payload c)"
    by auto
  then show ?case by (intro exI [of _ t] exI [of _ tv] exI [of _ sd]) (simp add: u p add.assoc)
qed

lemma zero_bytes: "le_bytes 4 (of_le (replicate 4 0) :: u32) = [0, 0, 0, 0]" "le_bytes 2 (of_le (replicate 2 0) :: u16) = [0, 0]"
  "le_bytes 4 (0 :: u32) = [0, 0, 0, 0]" "le_bytes 2 (0 :: u16) = [0, 0]"
  by (simp_all add: eval_nat_numeral)

lemma new_header_bytes:
  assumes "p = (new_header sid)\<lparr>p_seqnr := q, p_avtp_timestamp := htonl t, p_tv := 1, p_sdl := htons sz\<rparr>"
  shows "pdu_bytes p = [0x7F, 0x81, q, 0] @ rev (le_bytes 8 sid) @ rev (le_bytes 4 t) @ [0, 0, 0, 0] @ rev (le_bytes 2 sz) @ [0, 0]"
proof -
  have "pdu_flags p = 0x81" "pdu_flags_1 p = 0"
    by (simp_all add: assms pdu_flags_def pdu_flags_1_def new_header_def pdu_of_bytes_def)
  then show ?thesis
    by (simp add: pdu_bytes_def network_order_bytes) (simp add: assms new_header_def pdu_of_bytes_def AVTP_SUBTYPE_NETCHAN_def network_order_bytes zero_bytes)
qed

text \<open>C4: The frame on the wire.  A talker is created, without SRP and with no system call failing, and its payload updated any
  positive number of times.  The memory that is handed to the kernel as the frame then has the layout of the AVTP
  stream header: the subtype 0x7F, a byte with exactly the bits for a valid stream id (highest) and a valid timestamp (lowest), the number of
  updates before the last one modulo 256, a zero byte; the stream id, the low 32 bits of the last timestamp, four zero bytes,
  the payload size, each most significant byte first; two zero bytes; and then exactly the last payload.\<close>

theorem frame_wire_layout:
  assumes "w_nh w nh = Some n" "nh_srp n = Some s" "\<not> nh_use_srp n" "0 \<le> nh_rx_sock n" "os_good os" "heap_ok w"
    "tx_chans w nh xs tp" "tail_ok xs tp"
    "i_valid_size (a_size a)" "i_valid_interval (nh_link_speed n) (a_interval_ns a) (a_size a) = Some True"
    "a_stream_id a \<noteq> 0" "\<forall>x. a_sc a \<noteq> SC_undeclared x"
    and "\<forall>(t, d) \<in> set (us @ [(ts, data)]). unat (a_size a) \<le> length d"
  shows "\<exists>ch w1 w2 c. chan_create_tx os (Some nh) (Some a) w = Some (Some ch, w1)
    \<and> chan_updates ch (us @ [(ts, data)]) w1 = Some w2 \<and> w_ch w2 ch = Some c
    \<and> frame_bytes c = [0x7F, 0x81, of_nat (length us), 0] @ rev (le_bytes 8 (a_stream_id a)) @ rev (le_bytes 4 (ucast ts :: u32))
        @ [0, 0, 0, 0] @ rev (le_bytes 2 (a_size a)) @ [0, 0] @ take (unat (a_size a)) data"
proof -
  from chan_create_tx_new [OF assms(1-12)] obtain ch w1 c h where c: "chan_create_tx os (Some nh) (Some a) w = Some (Some ch, w1)"
    "w_ch w1 ch = Some c" "ch_nh c = Some nh" "valid_state c n" "new_talker os a c"
    "w_nh w1 = (w_nh w)(nh \<mapsto> n\<lparr>nh_tx_head := h, nh_tx_tail := Some ch\<rparr>)" by blast
  let ?n = "n\<lparr>nh_tx_head := h, nh_tx_tail := Some ch\<rparr>" and ?us = "us @ [(ts, data)]"
  have l: "live w1 ch c nh ?n" "valid_state c ?n" using c by (simp_all add: live_def valid_state_def)
  have nt: "ch_payload_size c = a_size a" "ch_pdu c = new_header (a_stream_id a)" "length (ch_payload c) = unat (a_size a)"
    using c(5) by (auto simp: new_talker_def payload_ok_def)
  define c0 where "c0 = fold (\<lambda>(ts, d). updated ts d) us c"
  define c' where "c' = updated ts data c0"
  have "\<forall>(ts, d) \<in> set ?us. unat (ch_payload_size c) \<le> length d" using assms(13) nt(1) by simp
  from chan_updates_valid [OF l this] have w2: "chan_updates ch ?us w1 = Some (w1\<lparr>w_ch := (w_ch w1)(ch \<mapsto> c')\<rparr>)" by (simp add: c'_def c0_def)
  obtain t tv sd where c0: "ch_pdu c0 = (ch_pdu c)\<lparr>p_seqnr := p_seqnr (ch_pdu c) + of_nat (length us), p_avtp_timestamp := t, p_tv := tv, p_sdl := sd\<rparr>"
    "ch_payload_size c0 = a_size a" "length (ch_payload c0) = unat (a_size a)"
    using fold_updated_header [of c us] assms(13) nt(1,3) by (auto simp: c0_def)
  have "pdu_bytes (ch_pdu c') = [0x7F, 0x81, of_nat (length us), 0] @ rev (le_bytes 8 (a_stream_id a)) @ rev (le_bytes 4 (ucast ts :: u32))
        @ [0, 0, 0, 0] @ rev (le_bytes 2 (a_size a)) @ [0, 0]"
    using new_header_bytes [where p = "ch_pdu c'" and sid = "a_stream_id a" and q = "of_nat (length us)" and t = "ucast ts" and sz = "a_size a"]
    by (simp add: c'_def updated_def c0 nt(2) tai_to_avtp_ns_ucast new_header_def)
  moreover have "ch_payload c' = take (unat (a_size a)) data" "ch_payload_size c' = a_size a"
    using c0(2,3) assms(13) by (simp_all add: c'_def updated_def overwrite_def)
  ultimately show ?thesis using c(1) w2 by (intro exI [of _ ch] exI [of _ w1] exI conjI) (auto simp: frame_bytes_def)
qed

theorem frame_wire_layout_witness:
  "\<exists>ch w1 w2 c. chan_create_tx demo_os (Some 1) (Some demo_attrs) idle_world = Some (Some ch, w1)
    \<and> chan_updates ch [(7, replicate 8 9), (0x123456789, [1, 2, 3, 4, 5, 6, 7, 8])] w1 = Some w2 \<and> w_ch w2 ch = Some c
    \<and> frame_bytes c = [0x7F, 0x81, 1, 0, 0, 0, 0, 0, 0, 0, 0, 43, 0x23, 0x45, 0x67, 0x89, 0, 0, 0, 0, 0, 8, 0, 0,
        1, 2, 3, 4, 5, 6, 7, 8]"
proof -
  have b: "rev (le_bytes 8 (43 :: u64)) = [0, 0, 0, 0, 0, 0, 0, 43]" "rev (le_bytes 4 (0x123456789 :: u32)) = [0x23, 0x45, 0x67, 0x89]"
    "rev (le_bytes 2 (8 :: u16)) = [0, 8]"
    by code_simp+
  show ?thesis
    using frame_wire_layout [OF idle_nh_at(1-4) demo_os_good idle_nh_at(5,6,8) demo_attrs_admitted(1,4,2,3),
        where us = "[(7, replicate 8 9)]" and ts = "0x123456789" and data = "[1, 2, 3, 4, 5, 6, 7, 8]"] b
    by (simp add: demo_attrs_def)
qed

text \<open>Refusal.  A stream that fails the size test or the bandwidth test gets no channel from
  either constructor, and the attempt changes nothing.\<close>

lemma inadmissible_stream_refused:
  assumes "w_nh w nh = Some n"
    "\<not> i_valid_size (a_size a) \<or> i_valid_interval (nh_link_speed n) (a_interval_ns a) (a_size a) = Some False"
  shows "chan_create_tx os (Some nh) (Some a) w = Some (None, w) \<and> chan_create_rx os (Some nh) (Some a) w = Some (None, w)"
proof -
  have "i_chan_create os (Some nh) (Some a) w = Some (None, w)"
    using assms by (auto simp: i_chan_create_def)
  then show ?thesis by (simp add: chan_create_tx_def chan_create_rx_def)
qed

text \<open>A talker without SRP.  When no system call fails and the stream is admissible, \<open>chan_create_tx\<close> returns a
  new channel at the end of the handler's Tx list that is valid, has the requested id, size and period, uses
  the operations of its class, and has as first launch time the TAI time at its creation.\<close>

lemma chan_create_tx_valid:
  assumes "w_nh w nh = Some n" "nh_srp n = Some s" "\<not> nh_use_srp n" "0 \<le> nh_rx_sock n" "os_good os" "heap_ok w"
    "tx_chans w nh xs tp" "tail_ok xs tp"
    "i_valid_size (a_size a)" "i_valid_interval (nh_link_speed n) (a_interval_ns a) (a_size a) = Some True"
    "a_stream_id a \<noteq> 0" "\<forall>x. a_sc a \<noteq> SC_undeclared x"
  shows "\<exists>ch w' c. chan_create_tx os (Some nh) (Some a) w = Some (Some ch, w') \<and> ch \<notin> set xs
    \<and> tx_chans w' nh (xs @ [ch]) (Some ch) \<and> chan_valid w' (Some ch) = Some True \<and> w_ch w' ch = Some c
    \<and> ch_sidw c = a_stream_id a \<and> ch_payload_size c = a_size a \<and> ch_interval_ns c = a_interval_ns a
    \<and> ch_ops c = Some (if a_sc a = SC_TAS then tas_ops else cbs_ops)
    \<and> (\<exists>t ts. os_clock os t CLOCK_TAI = Some ts \<and> ch_next_tx_ns c = ts_u64 ts)"
proof -
  obtain ch w' c n' ts where r: "chan_create_tx os (Some nh) (Some a) w = Some (Some ch, w')" "ch \<notin> set xs"
    "tx_chans w' nh (xs @ [ch]) (Some ch)" "live w' ch c nh n'" "valid_state c n'"
    "ch_sidw c = a_stream_id a" "ch_payload_size c = a_size a" "ch_interval_ns c = a_interval_ns a"
    "ch_ops c = Some (if a_sc a = SC_TAS then tas_ops else cbs_ops)"
    "\<exists>t ts. os_clock os t CLOCK_TAI = Some ts \<and> ch_next_tx_ns c = ts_u64 ts"
    using chan_create_tx_ok [OF assms] by blast
  moreover have "chan_valid w' (Some ch) = Some True" using chan_valid_live [OF r(4)] r(5) by simp
  moreover have "w_ch w' ch = Some c" using r(4) by (simp add: live_def)
  ultimately show ?thesis by blast
qed

text \<open>A listener without SRP.  When no system call fails, the stream is admissible, and a slot of the
  callback map is free and none holds this stream, \<open>chan_create_rx\<close> returns a valid channel at the end of the Rx list, and
  the callback map finds the standard callback, with the callback area of this channel, under the stream id.\<close>

lemma chan_create_rx_valid:
  assumes "w_nh w nh = Some n" "nh_srp n = Some s" "\<not> nh_use_srp n" "0 \<le> nh_rx_sock n" "os_good os" "heap_ok w"
    "rx_chans w nh xs tp" "tail_ok xs tp"
    "i_valid_size (a_size a)" "i_valid_interval (nh_link_speed n) (a_interval_ns a) (a_size a) = Some True"
    "a_stream_id a \<noteq> 0" "hm_inv (nh_hmap n)" "0 < hm_free (nh_hmap n)" "hm_lookup (nh_hmap n) (a_stream_id a) = None"
  shows "\<exists>ch w' c n' cba. chan_create_rx os (Some nh) (Some a) w = Some (Some ch, w')
    \<and> rx_chans w' nh (xs @ [ch]) (Some ch) \<and> chan_valid w' (Some ch) = Some True
    \<and> w_ch w' ch = Some c \<and> w_nh w' nh = Some n' \<and> ch_cbp c = Some cba
    \<and> hm_lookup (nh_hmap n') = (hm_lookup (nh_hmap n))(a_stream_id a \<mapsto> (Some cba, Std_cb))
    \<and> map_option cb_fd (w_cb w' cba) = Some (ch_fd_w c)"
proof -
  obtain ch w' c n' cba cbp where r: "chan_create_rx os (Some nh) (Some a) w = Some (Some ch, w')"
    "rx_chans w' nh (xs @ [ch]) (Some ch)" "live w' ch c nh n'" "valid_state c n'"
    "ch_cbp c = Some cba" "w_cb w' cba = Some cbp" "cb_fd cbp = ch_fd_w c"
    "hm_lookup (nh_hmap n') = (hm_lookup (nh_hmap n))(a_stream_id a \<mapsto> (Some cba, Std_cb))"
    using chan_create_rx_ok [OF assms] by blast
  moreover have "chan_valid w' (Some ch) = Some True" using chan_valid_live [OF r(3)] r(4) by simp
  ultimately show ?thesis by (fastforce simp: live_def)
qed

end
