(* ===== verification/Srp_Client.thy ===== *)
theory Srp_Client
  imports Srp_Monitor Chan_Create
begin

text \<open>
  The life cycle of SRP for a nethandler (\<^verbatim>\<open>src/netchan_srp_client.c\<close>,
  \<^verbatim>\<open>nc_mrp_get_domain\<close> of \<^verbatim>\<open>src/netchan_srp_helper.c\<close>, \<^verbatim>\<open>nh_set_srp\<close> of \<^verbatim>\<open>src/netchan.c\<close>): the
  container, its setup with the wait for the domain, and its teardown.  What the other
  threads do while the setup sleeps is a parameter \<open>others\<close>, given the number of the sleep.
\<close>

section \<open>The container\<close>

definition DEFAULT_CLASS_A_PRIO :: int where "DEFAULT_CLASS_A_PRIO = 3"
definition DEFAULT_CLASS_B_PRIO :: int where "DEFAULT_CLASS_B_PRIO = 2"

definition zero_srp :: srp where
  "zero_srp = \<lparr>srp_tid = 0, srp_announcer = 0, srp_prio_a = 0, srp_id_a = 0, srp_valid_a = False, srp_vid_a = 0,
     srp_prio_b = 0, srp_id_b = 0, srp_valid_b = False, srp_prio_tas = 0, srp_vid_b = 0, srp_sock = 0\<rparr>"

definition nc_srp_init :: "os \<Rightarrow> addr \<Rightarrow> world \<Rightarrow> (bool \<times> world) option" where
  "nc_srp_init os nh w =
     (if \<not> os_malloc os (w_tick w) then Some (False, tick w)
      else do {
        w \<leftarrow> upd_nh nh (\<lambda>n. n\<lparr>nh_srp := Some (zero_srp\<lparr>srp_prio_a := DEFAULT_CLASS_A_PRIO, srp_prio_b := DEFAULT_CLASS_B_PRIO\<rparr>),
                              nh_use_srp := False\<rparr>) (tick w);
        Some (True, w)
      })"

text \<open>A store through \<^verbatim>\<open>nh->srp\<close>.\<close>

definition upd_srp :: "addr \<Rightarrow> (srp \<Rightarrow> srp) \<Rightarrow> world \<Rightarrow> world option" where
  "upd_srp nh f w = do {
     n \<leftarrow> w_nh w nh;
     s \<leftarrow> nh_srp n;
     Some (set_nh nh (n\<lparr>nh_srp := Some (f s)\<rparr>) w)
   }"

section \<open>The domain\<close>

type_synonym interference = "nat \<Rightarrow> world \<Rightarrow> world option"

partial_function (option) get_domain_wait :: "interference \<Rightarrow> addr \<Rightarrow> nat \<Rightarrow> world \<Rightarrow> world option" where
  "get_domain_wait others nh k w = do {
     n \<leftarrow> w_nh w nh;
     s \<leftarrow> nh_srp n;
     if nh_running n \<and> \<not> srp_valid_a s \<and> \<not> srp_valid_b s
     then do { w \<leftarrow> others k w; get_domain_wait others nh (Suc k) w }
     else Some w
   }"

definition nc_mrp_get_domain :: "os \<Rightarrow> interference \<Rightarrow> addr \<Rightarrow> world \<Rightarrow> (bool \<times> world) option" where
  "nc_mrp_get_domain os others nh w = do {
     n \<leftarrow> w_nh w nh;
     if nh_srp n = None then Some (False, w)
     else do {
       let (r, w) = i_send_msg os (nh_srp n) ''S??'' w;
       if r < 0 then Some (False, w)
       else do {
         w \<leftarrow> get_domain_wait others nh 0 w;
         n \<leftarrow> w_nh w nh;
         Some (nh_running n, w)
       }
     }
   }"

section \<open>Setup\<close>

text \<open>The label \<^verbatim>\<open>err_out\<close>; \<^verbatim>\<open>pthread_join\<close> returns because \<^verbatim>\<open>running\<close> is cleared.\<close>

definition srp_err_out :: "addr \<Rightarrow> world \<Rightarrow> (bool \<times> world) option" where
  "srp_err_out nh w = do {
     n \<leftarrow> w_nh w nh;
     s \<leftarrow> nh_srp n;
     let w = (if srp_sock s > 0 then os_close (srp_sock s) w else w);
     Some (False, set_nh nh (n\<lparr>nh_running := False, nh_srp := None\<rparr>) w)
   }"

text \<open>
  The return value of \<^verbatim>\<open>nc_mrp_get_domain\<close>, a \<^verbatim>\<open>bool\<close>, is compared with \<open>-1\<close>: the test never
  succeeds, so it is absent here.
\<close>

definition srp_join :: "os \<Rightarrow> interference \<Rightarrow> addr \<Rightarrow> world \<Rightarrow> (bool \<times> world) option" where
  "srp_join os others nh w = do {
     (_, w) \<leftarrow> nc_mrp_get_domain os others nh w;
     n \<leftarrow> w_nh w nh;
     let (ok, w) = nc_mrp_register_domain_class_a os (nh_srp n) w;
     if \<not> ok then srp_err_out nh w
     else do {
       n \<leftarrow> w_nh w nh;
       (ok, w) \<leftarrow> nc_mrp_join_vlan os (nh_srp n) w;
       if \<not> ok then srp_err_out nh w
       else
         let tid = os_pthread_create os (w_tick w); w = tick w
         in case tid of
              None \<Rightarrow> srp_err_out nh w
            | Some t \<Rightarrow> do {
                w \<leftarrow> upd_srp nh (\<lambda>s. s\<lparr>srp_announcer := t\<rparr>) w;
                Some (True, w)
              }
     }
   }"

definition nc_srp_setup :: "os \<Rightarrow> interference \<Rightarrow> addr option \<Rightarrow> world \<Rightarrow> (bool \<times> world) option" where
  "nc_srp_setup os others nhp w =
     (case nhp of
        None \<Rightarrow> Some (False, w)
      | Some nh \<Rightarrow> do {
          n \<leftarrow> w_nh w nh;
          if nh_srp n = None then Some (False, w)
          else do {
            let sock = os_socket os (w_tick w);
            let w = tick w;
            let w = (if sock < 0 then w else w\<lparr>w_fds := (w_fds w)(sock \<mapsto> Fd_other)\<rparr>);
            w \<leftarrow> upd_srp nh (\<lambda>s. s\<lparr>srp_sock := sock\<rparr>) w;
            if sock \<le> 2 then srp_err_out nh w
            else
              let r = os_call os (w_tick w) ''bind''; w = tick w
              in if r < 0 then srp_err_out nh w
                 else
                   let tid = os_pthread_create os (w_tick w); w = tick w
                   in case tid of
                        None \<Rightarrow> srp_err_out nh w
                      | Some t \<Rightarrow> do {
                          w \<leftarrow> upd_srp nh (\<lambda>s. s\<lparr>srp_tid := t\<rparr>) w;
                          srp_join os others nh w
                        }
          }
        })"

section \<open>Teardown and switch\<close>

text \<open>Once the threads are joined: leave the VLAN and the domain, and close the socket.\<close>

definition srp_leave :: "os \<Rightarrow> addr \<Rightarrow> srp \<Rightarrow> world \<Rightarrow> world option" where
  "srp_leave os nh s w = do {
     let s = s\<lparr>srp_tid := 0, srp_announcer := 0\<rparr>;
     w \<leftarrow> upd_srp nh (\<lambda>_. s) w;
     (_, w) \<leftarrow> nc_mrp_leave_vlan os (Some s) w;
     let (_, w) = nc_mrp_unregister_domain_class_a os (Some s) w;
     Some (os_close (srp_sock s) w)
   }"

definition nc_srp_teardown :: "os \<Rightarrow> addr option \<Rightarrow> world \<Rightarrow> world option" where
  "nc_srp_teardown os nhp w =
     (case nhp of
        None \<Rightarrow> Some w
      | Some nh \<Rightarrow> do {
          n \<leftarrow> w_nh w nh;
          (case nh_srp n of
             None \<Rightarrow> Some w
           | Some s \<Rightarrow> do {
               w \<leftarrow> (if nh_use_srp n then srp_leave os nh s w else Some w);
               upd_nh nh (\<lambda>n. n\<lparr>nh_srp := None\<rparr>) w
             })
        })"

definition nh_set_srp :: "os \<Rightarrow> interference \<Rightarrow> addr option \<Rightarrow> bool \<Rightarrow> world \<Rightarrow> world option" where
  "nh_set_srp os others nhp use_srp w =
     (case nhp of
        None \<Rightarrow> Some w
      | Some nh \<Rightarrow> do {
          n \<leftarrow> w_nh w nh;
          (ok, w) \<leftarrow> (if use_srp \<and> \<not> nh_use_srp n then nc_srp_setup os others nhp w else Some (True, w));
          if \<not> ok then Some w else upd_nh nh (\<lambda>n. n\<lparr>nh_use_srp := use_srp\<rparr>) w
        })"

section \<open>Facts\<close>

lemma srp_err_out_result:
  assumes "srp_err_out nh w = Some (r, w')"
  shows "\<not> r \<and> (\<exists>n'. w_nh w' nh = Some n' \<and> nh_srp n' = None \<and> \<not> nh_running n')"
  using assms by (auto simp: srp_err_out_def bind_Some_iff Let_def split: if_splits)

lemma srp_join_fails:
  assumes "srp_join os others nh w = Some (False, w')"
  shows "\<exists>n'. w_nh w' nh = Some n' \<and> nh_srp n' = None \<and> \<not> nh_running n'"
  using assms
  by (auto simp: srp_join_def bind_Some_iff Let_def split_beta dest!: srp_err_out_result split: if_splits option.splits)

lemma nc_srp_setup_fails:
  assumes "nc_srp_setup os others (Some nh) w = Some (False, w')" "w_nh w nh = Some n" "nh_srp n \<noteq> None"
  shows "\<exists>n'. w_nh w' nh = Some n' \<and> nh_srp n' = None \<and> \<not> nh_running n'"
  using assms
  by (auto simp: nc_srp_setup_def bind_Some_iff Let_def dest!: srp_err_out_result srp_join_fails split: if_splits option.splits)

text \<open>Without a container no stream class can be set.\<close>

lemma i_chan_create_without_srp:
  assumes "w_nh w nh = Some n" "nh_srp n = None" "os_good os"
    "i_valid_size (a_size a)" "i_valid_interval (nh_link_speed n) (a_interval_ns a) (a_size a) = Some True"
    "\<forall>x. a_sc a \<noteq> SC_undeclared x"
  shows "i_chan_create os (Some nh) (Some a) w = None"
proof -
  have "os_malloc os t" "os_mutex_init os t = 0" for t using assms(3) by (auto simp: os_good_def)
  moreover have "i_chan_set_streamclass None (a_sc a) iv c = None" for iv c
    using assms(6) by (cases "a_sc a") (auto simp: i_chan_set_streamclass_def)
  ultimately show ?thesis using assms(1,2,4,5) by (simp add: i_chan_create_def Let_def)
qed

text \<open>The wait for the domain.  \<open>rounds others i k w\<close> is the world after the other threads have acted in \<open>k\<close> sleeps, from
  sleep \<open>i\<close> on; the wait goes through exactly those rounds that find the domain pending.\<close>

fun rounds :: "interference \<Rightarrow> nat \<Rightarrow> nat \<Rightarrow> world \<Rightarrow> world option" where
  "rounds others i 0 w = Some w"
| "rounds others i (Suc k) w = do { u \<leftarrow> others i w; rounds others (Suc i) k u }"

definition domain_pending :: "addr \<Rightarrow> world \<Rightarrow> bool" where
  "domain_pending nh w \<longleftrightarrow>
     (\<exists>n s. w_nh w nh = Some n \<and> nh_srp n = Some s \<and> nh_running n \<and> \<not> srp_valid_a s \<and> \<not> srp_valid_b s)"

definition domain_settled :: "addr \<Rightarrow> world \<Rightarrow> bool" where
  "domain_settled nh w \<longleftrightarrow>
     (\<exists>n s. w_nh w nh = Some n \<and> nh_srp n = Some s \<and> (\<not> nh_running n \<or> srp_valid_a s \<or> srp_valid_b s))"

definition pending_until :: "interference \<Rightarrow> addr \<Rightarrow> nat \<Rightarrow> nat \<Rightarrow> world \<Rightarrow> bool" where
  "pending_until others nh i k w \<longleftrightarrow> (\<forall>j < k. \<exists>u. rounds others i j w = Some u \<and> domain_pending nh u)"

lemma pending_until_Suc:
  "pending_until others nh i (Suc k) w \<longleftrightarrow>
     domain_pending nh w \<and> (k = 0 \<or> (\<exists>u. others i w = Some u \<and> pending_until others nh (Suc i) k u))"
proof -
  have "pending_until others nh i (Suc k) w \<longleftrightarrow> domain_pending nh w \<and> (\<forall>j < k. \<exists>u. rounds others i (Suc j) w = Some u \<and> domain_pending nh u)"
    unfolding pending_until_def using less_Suc_eq_0_disj by auto
  then show ?thesis by (cases "others i w") (auto simp: pending_until_def)
qed

lemma get_domain_wait_step:
  "domain_pending nh w \<Longrightarrow> get_domain_wait others nh i w = Option.bind (others i w) (get_domain_wait others nh (Suc i))"
  "domain_settled nh w \<Longrightarrow> get_domain_wait others nh i w = Some w"
  by (subst get_domain_wait.simps; fastforce simp: domain_pending_def domain_settled_def)+

lemma get_domain_wait_rounds:
  "rounds others i k w = Some u \<Longrightarrow> pending_until others nh i k w \<Longrightarrow>
    get_domain_wait others nh i w = get_domain_wait others nh (i + k) u"
proof (induction k arbitrary: i w)
  case (Suc k)
  then obtain v where v: "others i w = Some v" "rounds others (Suc i) k v = Some u" by (auto simp: bind_Some_iff)
  with Suc.prems(2) have "domain_pending nh w" "pending_until others nh (Suc i) k v"
    by (auto simp: pending_until_Suc) (simp add: pending_until_def)
  with Suc.IH [OF v(2)] v(1) show ?case by (simp add: get_domain_wait_step(1))
qed simp

lemma get_domain_wait_iff:
  "get_domain_wait others nh i w = Some w' \<longleftrightarrow>
    (\<exists>k. rounds others i k w = Some w' \<and> pending_until others nh i k w \<and> domain_settled nh w')"
proof
  assume l: "get_domain_wait others nh i w = Some w'"
  show "\<exists>k. rounds others i k w = Some w' \<and> pending_until others nh i k w \<and> domain_settled nh w'"
  proof (rule get_domain_wait.raw_induct [where P = "\<lambda>others nh i w w'.
      \<exists>k. rounds others i k w = Some w' \<and> pending_until others nh i k w \<and> domain_settled nh w'", OF _ l], goal_cases)
    case (1 loop others nh i w w')
    from 1(2) obtain n s where n: "w_nh w nh = Some n" "nh_srp n = Some s" by (auto simp: bind_Some_iff)
    show ?case
    proof (cases "nh_running n \<and> \<not> srp_valid_a s \<and> \<not> srp_valid_b s")
      case True
      with 1(2) n obtain u where u: "others i w = Some u" "loop others nh (Suc i) u = Some w'" by (auto simp: bind_Some_iff)
      from 1(1) [OF u(2)] obtain k where "rounds others (Suc i) k u = Some w'" "pending_until others nh (Suc i) k u" "domain_settled nh w'"
        by blast
      moreover have "domain_pending nh w" using True n by (simp add: domain_pending_def)
      ultimately show ?thesis using u(1) by (intro exI [of _ "Suc k"]) (simp add: pending_until_Suc)
    next
      case False
      with 1(2) n have "w' = w" "domain_settled nh w" by (auto simp: domain_settled_def)
      then show ?thesis by (intro exI [of _ 0]) (simp add: pending_until_def)
    qed
  qed
qed (auto dest: get_domain_wait_rounds simp: get_domain_wait_step(2))

text \<open>The message with which the daemon reports the domain.\<close>

definition domain_msg :: "nat \<Rightarrow> nat \<Rightarrow> nat \<Rightarrow> string" where
  "domain_msg cls prio vid = ''SJO D:C='' @ dec cls @ '',P='' @ dec prio @ '',V='' @ hexn False 4 vid"

lemma domain_msg_processed:
  assumes "cls < 10" "prio < 10" "vid < 65536" "w_nh w nh = Some n" "nh_srp n = Some s"
  shows "nc_mrp_listener_process_msg os (domain_msg cls prio vid @ CHR 0x00 # pad) (length (domain_msg cls prio vid)) (Some nh) w
    = Some (0, set_nh nh (n\<lparr>nh_srp := Some (if cls = 6 then update_class_a (int prio) 6 (int vid) s
        else update_class_b (int prio) (int cls) (int vid) s)\<rparr>) w)"
proof -
  let ?m = "domain_msg cls prio vid @ CHR 0x00 # pad"
  have one: "length (dec k) = 1" if "k < 10" for k using that by (subst dec.simps) simp
  have cmp: "strncmp_mem 6 ?m ''SNE T:'' = Some False" "strncmp_mem 6 ?m ''SJO T:'' = Some False"
    "strncmp_mem 7 ?m ''SLE T:S'' = Some False" "strncmp_mem 6 ?m ''SJO D:'' = Some True"
    by (simp_all add: domain_msg_def eval_nat_numeral)
  have sep: "digit_value 10 (CHR '','') = None" "digit_value 16 (CHR 0x00) = None"
    by (simp_all add: digit_value_def unhex_digit_def Let_def)
  have d8: "drop 8 ?m = dec cls @ CHR '','' # ''P='' @ dec prio @ CHR '','' # ''V='' @ hexn False 4 vid @ CHR 0x00 # pad"
    by (simp add: domain_msg_def)
  have "drop 12 ?m = drop 4 (drop 8 ?m)" by (simp only: drop_drop) simp
  then have d12: "drop 12 ?m = dec prio @ CHR '','' # ''V='' @ hexn False 4 vid @ CHR 0x00 # pad"
    unfolding d8 using one [OF assms(1)] by simp
  have "drop 16 ?m = drop 4 (drop 12 ?m)" by (simp only: drop_drop) simp
  then have d16: "drop 16 ?m = hexn False 4 vid @ CHR 0x00 # pad"
    unfolding d12 using one [OF assms(2)] by simp
  have "sscanf_d (drop 8 ?m) = Some (Some (of_nat cls))" "sscanf_d (drop 12 ?m) = Some (Some (of_nat prio))"
    unfolding d8 d12 using assms(1,2) by (auto intro!: sscanf_d_dec [OF sep(1)])
  moreover have "5 \<le> Suc (length ?m)" by (simp add: domain_msg_def)
  then have "sscanf_x (Suc (length ?m)) (drop 16 ?m) = Some (Some (of_nat vid))"
    unfolding d16 by (intro sscanf_x_4 [OF assms(3) sep(2)])
  moreover have "sint (of_nat k :: u32) = int k" if "k < 65536" for k
    using that by (simp add: sint_uint unsigned_of_nat signed_take_bit_eq_if_positive take_bit_eq_mod bit_iff_odd)
  moreover have "cls < 65536" "prio < 65536" using assms(1,2) by auto
  ultimately show ?thesis
    using assms cmp
    by (simp add: nc_mrp_listener_process_msg_def listener_talker_part_def i_update_srp_fields_def
        del: drop_append length_append)
qed

section \<open>Properties\<close>

text \<open>C16: The wait for the SRP domain.  After the question has been sent, and whatever the other threads do in each sleep,
  \<open>nc_mrp_get_domain\<close> returns exactly after the first sleep that leaves the handler stopped or a domain valid, and never when there
  is none; it returns whether the handler is still running.  In particular, when the monitor processes the daemon's domain message
  in a sleep before which the domain is pending, it returns true, with the reported priority and VLAN in the handler.\<close>

theorem get_domain_waits_for_answer:
  assumes "w_nh w nh = Some n" "nh_srp n = Some s" "0 \<le> srp_sock s" "\<And>m. 0 \<le> os_mrp_send os (w_tick w) (srp_sock s) m"
    "prio < 10" "vid < 65536"
    and w1: "w1 = (tick w)\<lparr>w_mrp := w_mrp w @ [(srp_sock s, ''S??'')]\<rparr>"
  shows "(\<forall>r w'. nc_mrp_get_domain os others nh w = Some (r, w') \<longleftrightarrow>
      (\<exists>k n'. rounds others 0 k w1 = Some w' \<and> pending_until others nh 0 k w1 \<and> domain_settled nh w'
        \<and> w_nh w' nh = Some n' \<and> r = nh_running n'))
    \<and> (\<forall>k u n' s'. pending_until others nh 0 (Suc k) w1 \<longrightarrow> rounds others 0 k w1 = Some u \<longrightarrow>
        w_nh u nh = Some n' \<longrightarrow> nh_srp n' = Some s' \<longrightarrow> srp_id_a s' \<noteq> 6 \<longrightarrow>
        others k u = map_option snd (nc_mrp_listener_process_msg os (domain_msg 6 prio vid @ CHR 0x00 # pad)
          (length (domain_msg 6 prio vid)) (Some nh) u) \<longrightarrow>
        nc_mrp_get_domain os others nh w = Some (True, set_nh nh (n'\<lparr>nh_srp := Some (s'\<lparr>srp_prio_a := int prio, srp_id_a := 6,
          srp_vid_a := int vid, srp_valid_a := True\<rparr>)\<rparr>) u))"
proof -
  have start: "nc_mrp_get_domain os others nh w
      = do { w \<leftarrow> get_domain_wait others nh 0 w1; n \<leftarrow> w_nh w nh; Some (nh_running n, w) }"
    using assms(1-3) assms(4) [of "''S??''"] by (simp add: nc_mrp_get_domain_def i_send_msg_def w1 Let_def not_less)
  have answer: "nc_mrp_get_domain os others nh w = Some (True, set_nh nh (n'\<lparr>nh_srp := Some (s'\<lparr>srp_prio_a := int prio, srp_id_a := 6,
          srp_vid_a := int vid, srp_valid_a := True\<rparr>)\<rparr>) u)"
    if r: "pending_until others nh 0 (Suc k) w1" "rounds others 0 k w1 = Some u" "w_nh u nh = Some n'" "nh_srp n' = Some s'" "srp_id_a s' \<noteq> 6"
      "others k u = map_option snd (nc_mrp_listener_process_msg os (domain_msg 6 prio vid @ CHR 0x00 # pad)
          (length (domain_msg 6 prio vid)) (Some nh) u)" for k u n' s'
  proof -
    let ?s = "s'\<lparr>srp_prio_a := int prio, srp_id_a := 6, srp_vid_a := int vid, srp_valid_a := True\<rparr>"
    let ?u = "set_nh nh (n'\<lparr>nh_srp := Some ?s\<rparr>) u"
    have p: "pending_until others nh 0 k w1" "domain_pending nh u" using r(1,2) by (fastforce simp: pending_until_def)+
    have "others k u = Some ?u"
      using domain_msg_processed [OF _ assms(5,6) r(3,4), of 6 os pad] r(5,6) by (simp add: update_class_a_def)
    moreover have "domain_settled nh ?u" by (simp add: domain_settled_def)
    ultimately have "get_domain_wait others nh 0 w1 = Some ?u"
      using get_domain_wait_rounds [OF r(2) p(1)] p(2) by (simp add: get_domain_wait_step)
    moreover have "nh_running n'" using p(2) r(3) by (auto simp: domain_pending_def)
    ultimately show ?thesis using start by simp
  qed
  have "nc_mrp_get_domain os others nh w = Some (r, w') \<longleftrightarrow>
      (\<exists>k n'. rounds others 0 k w1 = Some w' \<and> pending_until others nh 0 k w1 \<and> domain_settled nh w'
        \<and> w_nh w' nh = Some n' \<and> r = nh_running n')" for r w'
    unfolding start using get_domain_wait_iff [of others nh 0 w1 w'] by (auto simp: bind_Some_iff)
  with answer show ?thesis by blast
qed

text \<open>C26: A failed SRP setup leaves an unusable handler.  When \<open>nh_set_srp\<close> cannot enable SRP, whatever the reason and whatever the
  other threads did, the receive thread has been told to stop and the container is gone; the next creation of
  an admissible talker or listener dereferences it.\<close>

theorem failed_srp_setup_breaks_handler:
  assumes "w_nh w nh = Some n" "nh_srp n \<noteq> None" "\<not> nh_use_srp n"
    "nh_set_srp os others (Some nh) True w = Some w'" "w_nh w' nh = Some n'" "\<not> nh_use_srp n'"
    and adm: "os_good os'" "i_valid_size (a_size a)" "i_valid_interval (nh_link_speed n') (a_interval_ns a) (a_size a) = Some True"
      "\<forall>x. a_sc a \<noteq> SC_undeclared x"
  shows "nh_srp n' = None \<and> \<not> nh_running n'
    \<and> chan_create_tx os' (Some nh) (Some a) w' = None \<and> chan_create_rx os' (Some nh) (Some a) w' = None"
proof -
  obtain ok w1 where s: "nc_srp_setup os others (Some nh) w = Some (ok, w1)"
    "(if \<not> ok then Some w1 else upd_nh nh (\<lambda>n. n\<lparr>nh_use_srp := True\<rparr>) w1) = Some w'"
    using assms(1,3,4) by (auto simp: nh_set_srp_def bind_Some_iff)
  have "\<not> ok"
  proof
    assume ok
    with s(2) have "upd_nh nh (\<lambda>n. n\<lparr>nh_use_srp := True\<rparr>) w1 = Some w'" by simp
    with assms(5,6) show False by (auto simp: upd_nh_def)
  qed
  with s have "nc_srp_setup os others (Some nh) w = Some (False, w')" by simp
  from nc_srp_setup_fails [OF this assms(1,2)] assms(5) have srp: "nh_srp n' = None \<and> \<not> nh_running n'" by simp
  with i_chan_create_without_srp [OF assms(5) _ adm] show ?thesis by (simp add: chan_create_tx_def chan_create_rx_def)
qed

text \<open>The handler without channels, with the container that \<open>nc_srp_init\<close> makes.\<close>

definition fresh_srp_world :: world where
  "fresh_srp_world = idle_world\<lparr>w_nh := [1 \<mapsto> idle_nh\<lparr>nh_srp := Some (zero_srp\<lparr>srp_prio_a := 3, srp_prio_b := 2, srp_sock := 9\<rparr>)\<rparr>]\<rparr>"

lemma idle_rounds: "rounds (\<lambda>_. Some) i k w = Some w"
  by (induction k arbitrary: i) simp_all

theorem get_domain_waits_for_answer_witness:
  "(\<exists>w'. nc_mrp_get_domain demo_os (\<lambda>_ u. map_option snd (nc_mrp_listener_process_msg demo_os
        (domain_msg 6 3 2 @ CHR 0x00 # []) (length (domain_msg 6 3 2)) (Some 1) u)) 1 fresh_srp_world = Some (True, w'))
    \<and> nc_mrp_get_domain demo_os (\<lambda>_. Some) 1 fresh_srp_world = None"
proof -
  let ?s = "zero_srp\<lparr>srp_prio_a := 3, srp_prio_b := 2, srp_sock := 9\<rparr>"
  let ?w = "(tick fresh_srp_world)\<lparr>w_mrp := w_mrp fresh_srp_world @ [(srp_sock ?s, ''S??'')]\<rparr>"
  have w: "w_nh fresh_srp_world 1 = Some (idle_nh\<lparr>nh_srp := Some ?s\<rparr>)" "nh_running idle_nh" by (simp_all add: fresh_srp_world_def idle_nh_def)
  note th = get_domain_waits_for_answer [OF w(1), of ?s demo_os 3 2 ?w _ "[]"]
  have p: "domain_pending 1 ?w" "\<not> domain_settled 1 ?w" using w by (auto simp: domain_pending_def domain_settled_def zero_srp_def)
  have ids: "0 \<le> srp_sock ?s" "\<And>m. 0 \<le> os_mrp_send demo_os (w_tick fresh_srp_world) (srp_sock ?s) m" "srp_id_a ?s \<noteq> 6"
    by (simp_all add: zero_srp_def demo_os_def)
  have "nc_mrp_get_domain demo_os (\<lambda>_. Some) 1 fresh_srp_world \<noteq> Some (r, w')" for r w'
    using th [of "\<lambda>_. Some"] ids p(2) by (auto simp: idle_rounds)
  then have "nc_mrp_get_domain demo_os (\<lambda>_. Some) 1 fresh_srp_world = None" by (metis option.exhaust surj_pair)
  moreover have "pending_until others 1 0 (Suc 0) ?w" "rounds others 0 0 ?w = Some ?w" for others
    using p(1) by (simp_all add: pending_until_def)
  ultimately show ?thesis
    using th [of "\<lambda>_ u. map_option snd (nc_mrp_listener_process_msg demo_os
        (domain_msg 6 3 2 @ CHR 0x00 # []) (length (domain_msg 6 3 2)) (Some 1) u)"] ids w(1) by fastforce
qed

theorem failed_srp_setup_breaks_handler_witness:
  "\<exists>w'. nh_set_srp (demo_os\<lparr>os_socket := \<lambda>_. -1\<rparr>) (\<lambda>_ u. Some u) (Some 1) True idle_world = Some w'
    \<and> chan_create_rx demo_os (Some 1) (Some demo_attrs) w' = None"
proof -
  let ?n = "idle_nh\<lparr>nh_srp := None, nh_running := False\<rparr>"
  obtain w' where w': "nh_set_srp (demo_os\<lparr>os_socket := \<lambda>_. -1\<rparr>) (\<lambda>_ u. Some u) (Some 1) True idle_world = Some w'"
    "w_nh w' 1 = Some ?n"
    using idle_nh_at(1-3) by (simp add: nh_set_srp_def nc_srp_setup_def upd_srp_def srp_err_out_def Let_def)
  with failed_srp_setup_breaks_handler [OF idle_nh_at(1) _ _ w' _ demo_os_good demo_attrs_admitted(1)] idle_nh_at(2,3)
    demo_attrs_admitted(3,4)
  show ?thesis by auto
qed

end
