(* ===== verification/Nethandler.thy ===== *)
theory Nethandler
  imports Srp_Client
begin

text \<open>
  The nethandler (\<^verbatim>\<open>src/netchan.c\<close>, with \<^verbatim>\<open>nc_create_rx_sock\<close> of \<^verbatim>\<open>src/netchan_socket.c\<close> and
  \<^verbatim>\<open>get_ptp_fd\<close> of \<^verbatim>\<open>src/ptp_getclock.c\<close>): network setup, receive thread, real-time measures,
  creation, configuration, stop and destruction.  The trace file is only open or closed here.
\<close>

section \<open>Network\<close>

definition IFNAMSIZ :: nat where "IFNAMSIZ = 16"

text \<open>\<^verbatim>\<open>ioctl\<close> on a descriptor that is not open fails.\<close>

definition ioctl :: "os \<Rightarrow> int \<Rightarrow> string \<Rightarrow> world \<Rightarrow> bytes option \<times> world" where
  "ioctl os fd req w = (if fd < 0 then None else os_ioctl os (w_tick w) req, tick w)"

definition open_fd :: "int \<Rightarrow> world \<Rightarrow> world" where
  "open_fd fd w = (if fd < 0 then w else w\<lparr>w_fds := (w_fds w)(fd \<mapsto> Fd_other)\<rparr>)"

text \<open>The descriptor stays open when \<^verbatim>\<open>bind\<close> fails.\<close>

definition nc_create_rx_sock :: "os \<Rightarrow> string \<Rightarrow> world \<Rightarrow> int \<times> world" where
  "nc_create_rx_sock os ifname w =
     (let sock = os_socket os (w_tick w); w = tick w
      in if sock < 0 then (-1, w)
         else
           let w = open_fd sock w; r = os_setsockopt os (w_tick w); w = tick w
           in if r = -1 then (-1, os_close sock w)
              else
                let r = os_setsockopt os (w_tick w); w = tick w
                in if r < 0 then (-1, os_close sock w)
                   else
                     let (ifr, w) = ioctl os sock ''SIOCGIFINDEX'' w
                     in if ifr = None then (-1, os_close sock w)
                        else
                          let r = os_call os (w_tick w) ''bind''; w = tick w
                          in if r \<noteq> 0 then (-1, w)
                             else
                               let r = os_setsockopt os (w_tick w); w = tick w
                               in if r < 0 then (-1, os_close sock w) else (sock, w))"

definition i_get_link_speed_Mbps :: "os \<Rightarrow> addr option \<Rightarrow> world \<Rightarrow> (u32 \<times> world) option" where
  "i_get_link_speed_Mbps os nhp w =
     (case nhp of
        None \<Rightarrow> Some (-1, w)
      | Some nh \<Rightarrow> do {
          n \<leftarrow> w_nh w nh;
          if nh_rx_sock n \<le> 0 then Some (-1, w)
          else if nh_is_lo n then Some (1000, w)
          else
            let (r, w) = ioctl os (nh_rx_sock n) ''SIOCETHTOOL'' w
            in Some (case r of None \<Rightarrow> (-1, w) | Some bs \<Rightarrow> (of_le bs, w))
        })"

text \<open>
  \<^verbatim>\<open>nh->link_speed = speed * 1e6\<close>: the product is exact in \<^verbatim>\<open>double\<close>; its conversion to 32 bits
  keeps the low ones, as the conversion instruction of the 64-bit platforms does (the language leaves a
  value out of range undefined).
\<close>

definition link_speed_of :: "u32 \<Rightarrow> u32" where
  "link_speed_of mbps = word_of_int (uint mbps * 1000000)"

definition i_nh_net_setup :: "os \<Rightarrow> addr option \<Rightarrow> string option \<Rightarrow> world \<Rightarrow> (int \<times> world) option" where
  "i_nh_net_setup os nhp ifnamep w =
     (case (nhp, ifnamep) of
        (Some nh, Some ifname) \<Rightarrow>
          if length ifname < 1 then Some (-1, w)
          else do {
            w \<leftarrow> upd_nh nh (\<lambda>n. n\<lparr>nh_ifname := strncpy ifname (IFNAMSIZ - 1)\<rparr>) w;
            let (sock, w) = nc_create_rx_sock os ifname w;
            w \<leftarrow> upd_nh nh (\<lambda>n. n\<lparr>nh_rx_sock := sock\<rparr>) w;
            let (idx, w) = ioctl os sock ''SIOCGIFINDEX'' w;
            (case idx of
               None \<Rightarrow> Some (-1, w)
             | Some bs \<Rightarrow> do {
                 let is_lo = strncmp_eq (strncpy ifname (IFNAMSIZ - 1)) ''lo'' 2;
                 w \<leftarrow> upd_nh nh (\<lambda>n. n\<lparr>nh_ifidx := sint (of_le bs :: u32), nh_is_lo := is_lo\<rparr>) w;
                 (ok, w) \<leftarrow>
                   (if is_lo
                    then
                      let (fl, w) = ioctl os sock ''SIOCGIFFLAGS'' w
                      in Some (True, if fl = None then w else snd (ioctl os sock ''SIOCSIFFLAGS'' w))
                    else
                      let (hw, w) = ioctl os sock ''SIOCGIFHWADDR'' w
                      in case hw of
                           None \<Rightarrow> Some (False, w)
                         | Some mac \<Rightarrow> do { w \<leftarrow> upd_nh nh (\<lambda>n. n\<lparr>nh_mac := take 6 mac\<rparr>) w; Some (True, w) });
                 if \<not> ok then Some (-1, w)
                 else do {
                   (mbps, w) \<leftarrow> i_get_link_speed_Mbps os nhp w;
                   w \<leftarrow> upd_nh nh (\<lambda>n. n\<lparr>nh_link_speed := link_speed_of mbps\<rparr>) w;
                   Some (0, w)
                 }
               })
          }
      | _ \<Rightarrow> Some (-1, w))"

text \<open>The descriptor of the PTP device; the control socket stays open when the query fails.\<close>

definition get_ptp_fd :: "os \<Rightarrow> string \<Rightarrow> world \<Rightarrow> int \<times> world" where
  "get_ptp_fd os ifname w =
     (if strncmp_eq ifname ''lo'' 2 then (-1, w)
      else
        let ioctl_fd = os_socket os (w_tick w); w = open_fd ioctl_fd (tick w)
        in if ioctl_fd < 0 then (-1, w)
           else
             let (r, w) = ioctl os ioctl_fd ''SIOCETHTOOL'' w
             in case r of
                  None \<Rightarrow> (-1, w)
                | Some bs \<Rightarrow>
                    let phc_index = sint (of_le bs :: u32)
                    in if phc_index < 0 then (-1, w)
                       else
                         let w = os_close ioctl_fd w;
                             ptp_fd = os_open os (w_tick w) (''/dev/ptp'' @ dec_int phc_index);
                             w = open_fd ptp_fd (tick w)
                         in if ptp_fd < 0 then (-1, w) else (ptp_fd, w))"

section \<open>Receive thread and real-time measures\<close>

definition i_nh_start_rx :: "os \<Rightarrow> addr \<Rightarrow> world \<Rightarrow> (int \<times> world) option" where
  "i_nh_start_rx os nh w = do {
     w \<leftarrow> upd_nh nh (\<lambda>n. n\<lparr>nh_running := True\<rparr>) w;
     let tid = os_pthread_create os (w_tick w);
     let w = tick w;
     (case tid of
        None \<Rightarrow> do { w \<leftarrow> upd_nh nh (\<lambda>n. n\<lparr>nh_tid := 0, nh_running := False\<rparr>) w; Some (-1, w) }
      | Some t \<Rightarrow> do { w \<leftarrow> upd_nh nh (\<lambda>n. n\<lparr>nh_tid := t\<rparr>) w; Some (0, w) })
   }"

text \<open>\<^verbatim>\<open>pthread_join\<close> returns: the receive socket has a timeout and the thread reads \<^verbatim>\<open>running\<close> after it.\<close>

definition i_nh_stop_rx :: "addr option \<Rightarrow> world \<Rightarrow> world option" where
  "i_nh_stop_rx nhp w =
     (case nhp of
        None \<Rightarrow> Some w
      | Some nh \<Rightarrow> upd_nh nh (\<lambda>n. if nh_running n
            then if nh_tid n > 0 then n\<lparr>nh_running := False, nh_tid := 0, nh_rx_sock := -1\<rparr>
                 else n\<lparr>nh_running := False\<rparr>
            else n) w)"

definition i_nh_enable_rt_measures :: "os \<Rightarrow> addr \<Rightarrow> world \<Rightarrow> (int \<times> world) option" where
  "i_nh_enable_rt_measures os nh w = do {
     let res = (if os_call os (w_tick w) ''mlockall'' \<noteq> 0 then -1 else 0);
     let w = tick w;
     let fd = os_open os (w_tick w) ''/dev/cpu_dma_latency'';
     let w = open_fd fd (tick w);
     w \<leftarrow> upd_nh nh (\<lambda>n. n\<lparr>nh_dma_lat_fd := fd\<rparr>) w;
     if fd \<ge> 0
     then
       let wres = os_call os (w_tick w) ''write''; w = tick w
       in Some (if wres < 1 then -2 else res, w)
     else Some (res, w)
   }"

section \<open>Configuration\<close>

definition nh_set_verbose :: "addr option \<Rightarrow> bool \<Rightarrow> world \<Rightarrow> world option" where
  "nh_set_verbose nhp verbose w =
     (case nhp of None \<Rightarrow> Some w | Some nh \<Rightarrow> upd_nh nh (\<lambda>n. n\<lparr>nh_verbose := verbose\<rparr>) w)"

text \<open>\<^verbatim>\<open>tb_open\<close> succeeds when the marker file of the tracer can be opened.\<close>

definition nh_enable_ftrace :: "os \<Rightarrow> addr option \<Rightarrow> world \<Rightarrow> world option" where
  "nh_enable_ftrace os nhp w =
     (case nhp of
        None \<Rightarrow> Some w
      | Some nh \<Rightarrow> do {
          n \<leftarrow> w_nh w nh;
          if nh_tb n then Some w
          else upd_nh nh (\<lambda>n. n\<lparr>nh_tb := os_fopen os ''/sys/kernel/tracing/trace_marker''\<rparr>) w
        })"

definition nh_set_trace_breakval :: "os \<Rightarrow> addr option \<Rightarrow> int \<Rightarrow> world \<Rightarrow> world option" where
  "nh_set_trace_breakval os nhp break_us w =
     (case nhp of
        None \<Rightarrow> Some w
      | Some nh \<Rightarrow> do {
          w \<leftarrow> (if break_us \<le> 0 \<or> break_us > 1000000
                then upd_nh nh (\<lambda>n. n\<lparr>nh_ftrace_break_us := -1\<rparr>) w else Some w);
          w \<leftarrow> upd_nh nh (\<lambda>n. n\<lparr>nh_ftrace_break_us := break_us\<rparr>) w;
          nh_enable_ftrace os nhp w
        })"

definition nh_set_tx_prio :: "addr option \<Rightarrow> stream_class \<Rightarrow> int \<Rightarrow> world \<Rightarrow> (bool \<times> world) option" where
  "nh_set_tx_prio nhp sc tx_prio w =
     (case nhp of
        None \<Rightarrow> Some (False, w)
      | Some nh \<Rightarrow>
          if tx_prio < 0 \<or> tx_prio > 8 then Some (False, w)
          else do {
            n \<leftarrow> w_nh w nh;
            if nh_tx_head n \<noteq> None then Some (False, w)
            else Some (True, set_nh nh
              (case sc of
                 SC_TAS \<Rightarrow> n\<lparr>nh_tx_tas_sock_prio := tx_prio\<rparr>
               | SC_CLASS_A \<Rightarrow> n\<lparr>nh_tx_cbs_sock_prio := tx_prio\<rparr>
               | SC_CLASS_B \<Rightarrow> n\<lparr>nh_tx_cbs_sock_prio := tx_prio\<rparr>
               | SC_undeclared _ \<Rightarrow> n) w)
          })"

definition nh_rotate_logs :: "os \<Rightarrow> addr option \<Rightarrow> world \<Rightarrow> world option" where
  "nh_rotate_logs os nhp w = do {
     nh \<leftarrow> nhp;
     with_logger (log_flush_and_rotate (os_fopen os)) nh w
   }"

section \<open>Stop and destruction\<close>

partial_function (option) stop_walk :: "os \<Rightarrow> addr option \<Rightarrow> world \<Rightarrow> world option" where
  "stop_walk os p w =
     (case p of
        None \<Rightarrow> Some w
      | Some ch \<Rightarrow> do {
          (_, w) \<leftarrow> chan_stop os (Some ch) w;
          c \<leftarrow> w_ch w ch;
          stop_walk os (ch_next c) w
        })"

definition nh_stop :: "os \<Rightarrow> addr option \<Rightarrow> world \<Rightarrow> world option" where
  "nh_stop os nhp w = do {
     n \<leftarrow> get_nh w nhp;
     w \<leftarrow> stop_walk os (nh_tx_head n) w;
     n \<leftarrow> get_nh w nhp;
     stop_walk os (nh_rx_head n) w
   }"

text \<open>
  \<^verbatim>\<open>nh_destroy\<close> gets the address of a pointer, which it reads again at every use: the address of
  a variable that holds the pointer, or of the \<^verbatim>\<open>nh\<close> field of a channel.
\<close>

datatype nh_var = Nh_local "addr option" | Nh_field addr

definition load_nh :: "nh_var \<Rightarrow> world \<Rightarrow> addr option option" where
  "load_nh v w = (case v of Nh_local p \<Rightarrow> Some p | Nh_field ch \<Rightarrow> map_option ch_nh (w_ch w ch))"

definition star_nh :: "nh_var \<Rightarrow> world \<Rightarrow> (addr \<times> nethandler) option" where
  "star_nh v w = do { p \<leftarrow> load_nh v w; nh \<leftarrow> p; n \<leftarrow> w_nh w nh; Some (nh, n) }"

partial_function (option) destroy_tx :: "os \<Rightarrow> nh_var \<Rightarrow> world \<Rightarrow> world option" where
  "destroy_tx os v w = do {
     (nh, n) \<leftarrow> star_nh v w;
     (case nh_tx_head n of
        None \<Rightarrow> Some w
      | Some ch \<Rightarrow> do {
          c \<leftarrow> w_ch w ch;
          w \<leftarrow> i_chan_destroy os ch False (set_nh nh (n\<lparr>nh_tx_head := ch_next c\<rparr>) w);
          destroy_tx os v w
        })
   }"

partial_function (option) destroy_rx :: "os \<Rightarrow> nh_var \<Rightarrow> world \<Rightarrow> world option" where
  "destroy_rx os v w = do {
     (nh, n) \<leftarrow> star_nh v w;
     (case nh_rx_head n of
        None \<Rightarrow> Some w
      | Some ch \<Rightarrow> do {
          c \<leftarrow> w_ch w ch;
          w \<leftarrow> i_chan_destroy os ch False (set_nh nh (n\<lparr>nh_rx_head := ch_next c\<rparr>) w);
          destroy_rx os v w
        })
   }"

text \<open>Flush and release the logger, if there is one.\<close>

definition destroy_logger :: "os \<Rightarrow> addr \<Rightarrow> nethandler \<Rightarrow> world \<Rightarrow> world option" where
  "destroy_logger os nh n w =
     (if nh_logger n \<noteq> None
      then do {
        w \<leftarrow> with_logger (log_flush_and_rotate (os_fopen os)) nh w;
        upd_nh nh (\<lambda>n. n\<lparr>nh_logger := log_destroy (nh_logger n)\<rparr>) w
      }
      else Some w)"

text \<open>From the start to the release of the callback map.\<close>

definition destroy_services :: "os \<Rightarrow> nh_var \<Rightarrow> world \<Rightarrow> world option" where
  "destroy_services os v w = do {
     p \<leftarrow> load_nh v w;
     w \<leftarrow> i_nh_stop_rx p w;
     (nh, n) \<leftarrow> star_nh v w;
     let w = (if nh_dma_lat_fd n > 0 then os_close (nh_dma_lat_fd n) w else w);
     w \<leftarrow> destroy_logger os nh n w;
     upd_nh nh (\<lambda>n. n\<lparr>nh_tb := False, nh_hmap := []\<rparr>) w
   }"

definition nh_destroy :: "os \<Rightarrow> nh_var \<Rightarrow> world \<Rightarrow> world option" where
  "nh_destroy os v w = do {
     p \<leftarrow> load_nh v w;
     w \<leftarrow> (if p = None then Some w
           else do {
             w \<leftarrow> destroy_services os v w;
             w \<leftarrow> destroy_tx os v w;
             w \<leftarrow> destroy_rx os v w;
             (nh, n) \<leftarrow> star_nh v w;
             w \<leftarrow> (if nh_use_srp n then nc_srp_teardown os (Some nh) w else Some w);
             (nh, n) \<leftarrow> star_nh v w;
             free_nh nh w
           });
     (case v of Nh_local _ \<Rightarrow> Some w | Nh_field ch \<Rightarrow> upd_ch ch (\<lambda>c. c\<lparr>ch_nh := None\<rparr>) w)
   }"

section \<open>Creation\<close>

definition DEFAULT_TX_TAS_SOCKET_PRIO :: int where "DEFAULT_TX_TAS_SOCKET_PRIO = 3"
definition DEFAULT_TX_CBS_SOCKET_PRIO :: int where "DEFAULT_TX_CBS_SOCKET_PRIO = 2"

definition give_up :: "os \<Rightarrow> addr \<Rightarrow> world \<Rightarrow> (addr option \<times> world) option" where
  "give_up os nh w = map_option (Pair None) (nh_destroy os (Nh_local (Some nh)) w)"

text \<open>From the first setup of SRP on.\<close>

definition create_services :: "os \<Rightarrow> addr \<Rightarrow> string \<Rightarrow> string option \<Rightarrow> world \<Rightarrow> (addr option \<times> world) option" where
  "create_services os nh ifname logfile w = do {
     (ok, w) \<leftarrow> nc_srp_init os nh w;
     if \<not> ok then give_up os nh w
     else do {
       w \<leftarrow> (case logfile of
               None \<Rightarrow> Some w
             | Some f \<Rightarrow>
                 if length f > 0
                 then upd_nh nh (\<lambda>n. n\<lparr>nh_logger := log_create (os_log_allocs os (w_tick w)) logfile\<rparr>) (tick w)
                 else Some w);
       let (fd, w) = get_ptp_fd os ifname w;
       w \<leftarrow> upd_nh nh (\<lambda>n. n\<lparr>nh_ptp_fd := fd\<rparr>) w;
       n \<leftarrow> w_nh w nh;
       if fd < 0 \<and> \<not> nh_is_lo n then give_up os nh w else Some (Some nh, w)
     }
   }"

definition nh_create_init ::
  "os \<Rightarrow> string option \<Rightarrow> nat \<Rightarrow> string option \<Rightarrow> world \<Rightarrow> (addr option \<times> world) option" where
  "nh_create_init os ifnamep hmap_size logfile w =
     (case ifnamep of
        None \<Rightarrow> Some (None, w)
      | Some ifname \<Rightarrow>
          if hmap_size = 0 then Some (None, w)
          else
            let nh_ok = os_malloc os (w_tick w); w = tick w
            in if \<not> nh_ok then Some (None, w)
               else
                 let nh = w_fresh w; hmap_ok = os_malloc os (w_tick w); w = tick w
                 in if \<not> hmap_ok then Some (None, w\<lparr>w_fresh := nh + 1\<rparr>)
                    else do {
                      let w = (set_nh nh (zero_nethandler\<lparr>nh_tx_tas_sock_prio := DEFAULT_TX_TAS_SOCKET_PRIO,
                                 nh_tx_cbs_sock_prio := DEFAULT_TX_CBS_SOCKET_PRIO, nh_hmap := hm_alloc hmap_size\<rparr>) w)
                              \<lparr>w_fresh := nh + 1\<rparr>;
                      (r, w) \<leftarrow> i_nh_net_setup os (Some nh) ifnamep w;
                      if r \<noteq> 0 then give_up os nh w
                      else do {
                        (r, w) \<leftarrow> i_nh_start_rx os nh w;
                        if r \<noteq> 0 then give_up os nh w
                        else do {
                          (_, w) \<leftarrow> i_nh_enable_rt_measures os nh w;
                          create_services os nh ifname logfile w
                        }
                      }
                    })"

section \<open>Destroying channels\<close>

text \<open>
  What the channels of a handler own: each its pipe \<open>P a\<close> with an open read end, sockets that are no
  pipes, and its own callback area.
\<close>

definition no_pipe :: "world \<Rightarrow> int \<Rightarrow> bool" where
  "no_pipe w fd \<longleftrightarrow> w_fds w fd \<in> {None, Some Fd_other}"

definition owns :: "world \<Rightarrow> addr \<Rightarrow> addr \<Rightarrow> addr \<Rightarrow> channel \<Rightarrow> bool" where
  "owns w nh a p c \<longleftrightarrow> w_ch w a = Some c \<and> ch_nh c = Some nh \<and> 0 \<le> ch_fd_r c \<and> 0 \<le> ch_fd_w c
     \<and> w_fds w (ch_fd_r c) = Some (Fd_pipe_r p) \<and> w_fds w (ch_fd_w c) = Some (Fd_pipe_w p)
     \<and> (\<exists>pb. w_pipes w p = Some pb \<and> pb_ropen pb) \<and> (0 \<le> ch_tx_sock c \<longrightarrow> no_pipe w (ch_tx_sock c))
     \<and> (\<forall>b. ch_cbp c = Some b \<longrightarrow> w_cb w b \<noteq> None)"

definition cb_separate :: "world \<Rightarrow> addr list \<Rightarrow> bool" where
  "cb_separate w xs \<longleftrightarrow> (\<forall>a \<in> set xs. \<forall>a' \<in> set xs. \<forall>b. a \<noteq> a' \<longrightarrow> map_option ch_cbp (w_ch w a) = Some (Some b) \<longrightarrow>
     map_option ch_cbp (w_ch w a') \<noteq> Some (Some b))"

definition owners :: "world \<Rightarrow> addr \<Rightarrow> addr list \<Rightarrow> (addr \<Rightarrow> addr) \<Rightarrow> bool" where
  "owners w nh xs P \<longleftrightarrow> distinct xs \<and> inj_on P (set xs) \<and> (\<forall>a \<in> set xs. \<exists>c. owns w nh a (P a) c)
     \<and> cb_separate w xs"

definition fds_of :: "channel \<Rightarrow> int set" where
  "fds_of c = {ch_fd_r c, ch_fd_w c} \<union> (if 0 \<le> ch_tx_sock c then {ch_tx_sock c} else {})"

text \<open>The channel at \<open>a\<close> is gone and all it owned is released; everything else is as before.\<close>

definition released :: "addr \<Rightarrow> channel \<Rightarrow> addr \<Rightarrow> world \<Rightarrow> world \<Rightarrow> bool" where
  "released a c p w w' \<longleftrightarrow> w_ch w' = (w_ch w)(a := None) \<and> w_nh w' = w_nh w
     \<and> (\<forall>b. w_cb w' b = (if ch_cbp c = Some b then None else w_cb w b))
     \<and> (\<forall>fd. w_fds w' fd = (if fd \<in> fds_of c then None else w_fds w fd))
     \<and> (\<forall>q. q \<noteq> p \<longrightarrow> w_pipes w' q = w_pipes w q)"

lemma os_close_fds: "w_fds (os_close fd w) = (w_fds w)(fd := None)"
  by (simp add: os_close_def Let_def split: option.splits fdesc.splits)

lemma os_close_other_pipes:
  "w_fds w fd \<in> {None, Some Fd_other, Some (Fd_pipe_r p), Some (Fd_pipe_w p)} \<Longrightarrow> q \<noteq> p \<Longrightarrow> w_pipes (os_close fd w) q = w_pipes w q"
  by (auto simp: os_close_def Let_def split: option.splits fdesc.splits)

lemma chan_stop_owned:
  assumes "owns w nh a p c" "w_nh w nh = Some n" "unbounded_pipes os"
  shows "\<exists>r w'. chan_stop os (Some a) w = Some (r, w') \<and> w_ch w' = (w_ch w)(a \<mapsto> stopped c) \<and> w_nh w' = w_nh w
    \<and> w_cb w' = w_cb w \<and> w_fds w' = w_fds w \<and> (\<forall>q. q \<noteq> p \<longrightarrow> w_pipes w' q = w_pipes w q)
    \<and> (\<exists>pb. w_pipes w' p = Some pb \<and> pb_ropen pb)"
proof (cases "ch_stopping c")
  case True
  then have "c\<lparr>ch_ready := False\<rparr> = stopped c" by (simp add: stopped_def)
  with True assms(1) show ?thesis by (auto simp: owns_def chan_stop_again)
next
  case False
  have live: "live w a c nh n" using assms by (simp add: owns_def live_def)
  have "can_write os w (ch_fd_w c) (unat (ch_payload_size c))"
    using assms by (auto simp: can_write_def owns_def unbounded_pipes_def)
  from chan_stop_first [OF live False this] obtain w1 r w' where
    w1: "only_mrp (set_ch a (stopped c) w) w1"
      "(if os_malloc os (w_tick w1)
       then os_write (os_room os) (ch_fd_w c) (replicate (unat (ch_payload_size c)) 0) (tick w1)
       else Some (-1, tick w1)) = Some (r, w')"
      "chan_stop os (Some a) w = Some (True, w')" "w_ch w' = (w_ch w)(a \<mapsto> stopped c)" "w_nh w' = w_nh w"
      "w_cb w' = w_cb w" "w_fds w' = w_fds w" by blast
  note f = only_mrp_fields [OF w1(1)]
  have "(\<forall>q. q \<noteq> p \<longrightarrow> w_pipes w' q = w_pipes w q) \<and> (\<exists>pb. w_pipes w' p = Some pb \<and> pb_ropen pb)"
    using w1(2) f assms(1) by (auto simp: owns_def os_write_def bind_Some_iff split: if_splits option.splits)
  with w1(3-7) show ?thesis by blast
qed

lemma i_chan_destroy_owned:
  assumes "owns w nh a p c" "w_nh w nh = Some n" "unbounded_pipes os"
  shows "\<exists>w'. i_chan_destroy os a False w = Some w' \<and> released a c p w w'"
proof -
  obtain r w1 where w1: "chan_stop os (Some a) w = Some (r, w1)" "w_ch w1 = (w_ch w)(a \<mapsto> stopped c)" "w_nh w1 = w_nh w"
    "w_cb w1 = w_cb w" "w_fds w1 = w_fds w" "\<forall>q. q \<noteq> p \<longrightarrow> w_pipes w1 q = w_pipes w q"
    using chan_stop_owned [OF assms] by blast
  let ?w2 = "os_close (ch_fd_w c) (os_close (ch_fd_r c) w1)"
  define w3 where "w3 = (if 0 \<le> ch_tx_sock c then set_ch a ((stopped c)\<lparr>ch_tx_sock := -1\<rparr>) (os_close (ch_tx_sock c) ?w2) else ?w2)"
  have o: "0 \<le> ch_fd_r c" "0 \<le> ch_fd_w c" "w_fds w (ch_fd_r c) = Some (Fd_pipe_r p)" "w_fds w (ch_fd_w c) = Some (Fd_pipe_w p)"
    "0 \<le> ch_tx_sock c \<Longrightarrow> no_pipe w (ch_tx_sock c)" "\<And>b. ch_cbp c = Some b \<Longrightarrow> w_cb w b \<noteq> None"
    using assms(1) by (auto simp: owns_def)
  have w3: "w_nh w3 = w_nh w" "w_cb w3 = w_cb w" "\<And>b. b \<noteq> a \<Longrightarrow> w_ch w3 b = w_ch w b" "w_ch w3 a \<noteq> None"
    using w1(2-4) by (auto simp: w3_def)
  have fds: "w_fds w3 fd = (if fd \<in> fds_of c then None else w_fds w fd)" for fd
    using w1(5) by (auto simp: w3_def fds_of_def os_close_fds)
  have pipes: "w_pipes w3 q = w_pipes w q" if "q \<noteq> p" for q
    using w1(5,6) o that
    by (auto simp: w3_def os_close_other_pipes [where p = p] os_close_fds no_pipe_def)
  obtain w4 where w4: "free_cb (ch_cbp c) w3 = Some w4" "w_ch w4 = w_ch w3" "w_nh w4 = w_nh w3" "w_fds w4 = w_fds w3"
    "w_pipes w4 = w_pipes w3" "\<forall>b. w_cb w4 b = (if ch_cbp c = Some b then None else w_cb w3 b)"
    using o(6) w3(2) by (cases "ch_cbp c") (auto simp: free_cb_def)
  have "i_chan_destroy os a False w = free_ch a w4"
    using w1(1,2) o(1,2) w4(1) by (cases "0 \<le> ch_tx_sock c") (simp_all add: i_chan_destroy_def w3_def Let_def)
  moreover have "w_ch w4 a \<noteq> None" using w4(2) w3(4) by simp
  moreover have "(w_ch w4)(a := None) = (w_ch w)(a := None)" using w4(2) w3(3) by auto
  ultimately show ?thesis
    using w4 w3 fds pipes by (auto simp: free_ch_def released_def)
qed

lemma owners_at: "owners w nh xs P \<Longrightarrow> a \<in> set xs \<Longrightarrow> \<exists>c. owns w nh a (P a) c"
  by (simp add: owners_def)

lemma cb_separate_mono:
  assumes "cb_separate w xs" "set ys \<subseteq> set xs" "\<And>b. b \<in> set ys \<Longrightarrow> map_option ch_cbp (w_ch w' b) = map_option ch_cbp (w_ch w b)"
  shows "cb_separate w' ys"
  unfolding cb_separate_def
proof (intro ballI allI impI)
  fix x y q
  assume xy: "x \<in> set ys" "y \<in> set ys" "x \<noteq> y" "map_option ch_cbp (w_ch w' x) = Some (Some q)"
  then show "map_option ch_cbp (w_ch w' y) \<noteq> Some (Some q)"
    using assms(1) [unfolded cb_separate_def, rule_format, of x y q] assms(2) assms(3) [of x] assms(3) [of y] by auto
qed

lemma released_owners:
  assumes "owners w nh (a # xs) P" "w_ch w a = Some c" "released a c (P a) w w'"
  shows "owners w' nh xs P"
proof -
  from assms(1,2) have oa: "owns w nh a (P a) c" by (auto simp: owners_def owns_def)
  have "owns w' nh b (P b) c'" if b: "b \<in> set xs" "owns w nh b (P b) c'" for b c'
  proof -
    have ne: "b \<noteq> a" "P b \<noteq> P a" using assms(1) b(1) by (auto simp: owners_def inj_on_def)
    have "cb_separate w (a # xs)" using assms(1) by (simp add: owners_def)
    from this [unfolded cb_separate_def, rule_format, of a b] have cb: "ch_cbp c = Some q \<Longrightarrow> ch_cbp c' \<noteq> Some q" for q
      using assms(2) b ne(1) by (simp add: owns_def)
    have keep: "w_fds w' fd = w_fds w fd" if "w_fds w fd \<in> {Some (Fd_pipe_r (P b)), Some (Fd_pipe_w (P b))}" for fd
      using that oa ne(2) assms(3) by (auto simp: released_def fds_of_def owns_def no_pipe_def)
    have np: "no_pipe w fd \<Longrightarrow> no_pipe w' fd" for fd using assms(3) by (simp add: released_def no_pipe_def)
    show ?thesis
      using b(2) keep [of "ch_fd_r c'"] keep [of "ch_fd_w c'"] np ne cb assms(3)
      by (auto simp: owns_def released_def)
  qed
  moreover have "w_ch w' b = w_ch w b" if "b \<in> set xs" for b
    using that assms(1,3) by (auto simp: owners_def released_def)
  moreover have "distinct xs" "inj_on P (set xs)" "\<forall>x \<in> set xs. \<exists>c. owns w nh x (P x) c" "cb_separate w (a # xs)"
    using assms(1) by (simp_all add: owners_def inj_on_def)
  moreover have "cb_separate w' xs" using cb_separate_mono [of w "a # xs" xs w'] calculation(2,6) by auto
  ultimately show ?thesis unfolding owners_def by blast
qed

lemma owners_cong:
  "w_ch w' = w_ch w \<Longrightarrow> w_fds w' = w_fds w \<Longrightarrow> w_pipes w' = w_pipes w \<Longrightarrow> w_cb w' = w_cb w \<Longrightarrow>
    owners w' nh xs P = owners w nh xs P"
  by (simp add: owners_def owns_def no_pipe_def cb_separate_def)

text \<open>The loops over the two lists, as one.\<close>

locale list_teardown =
  fixes head :: "nethandler \<Rightarrow> addr option"
    and set_head :: "addr option \<Rightarrow> nethandler \<Rightarrow> nethandler"
    and loop :: "os \<Rightarrow> nh_var \<Rightarrow> world \<Rightarrow> world option"
  assumes head_set: "head (set_head p n) = p"
    and set_set: "set_head q (set_head p n) = set_head q n"
    and loop_eq: "w_nh w nh = Some n \<Longrightarrow> loop os (Nh_local (Some nh)) w =
      (case head n of
         None \<Rightarrow> Some w
       | Some ch \<Rightarrow> do {
           c \<leftarrow> w_ch w ch;
           w \<leftarrow> i_chan_destroy os ch False (set_nh nh (set_head (ch_next c) n) w);
           loop os (Nh_local (Some nh)) w
         })"
begin

lemma destroys_all:
  assumes "w_nh w nh = Some n" "chain (w_ch w) (head n) xs" "owners w nh (xs @ ys) P" "unbounded_pipes os"
  shows "\<exists>w'. loop os (Nh_local (Some nh)) w = Some w'
    \<and> w_ch w' = (\<lambda>a. if a \<in> set xs then None else w_ch w a)
    \<and> w_nh w' = (w_nh w)(nh \<mapsto> if xs = [] then n else set_head None n)
    \<and> owners w' nh ys P
    \<and> (\<forall>b. w_cb w' b = (if \<exists>a \<in> set xs. map_option ch_cbp (w_ch w a) = Some (Some b) then None else w_cb w b))
    \<and> (\<forall>fd. w_fds w' fd = (if \<exists>a \<in> set xs. \<exists>c. w_ch w a = Some c \<and> fd \<in> fds_of c then None else w_fds w fd))"
  using assms(1-3)
proof (induction xs arbitrary: n w)
  case Nil
  then show ?case by (auto simp: loop_eq fun_upd_idem)
next
  case (Cons a xs)
  then obtain c where c: "head n = Some a" "w_ch w a = Some c" "chain (w_ch w) (ch_next c) xs" by auto
  let ?n = "set_head (ch_next c) n" and ?w = "set_nh nh (set_head (ch_next c) n) w"
  have o: "owners ?w nh ((a # xs) @ ys) P" using Cons.prems(3) owners_cong [of ?w w nh "(a # xs) @ ys" P] by simp
  then have "owns ?w nh a (P a) c" using c(2) by (auto simp: owners_def owns_def)
  from i_chan_destroy_owned [OF this, of ?n] assms(4) obtain w1 where
    w1: "i_chan_destroy os a False ?w = Some w1" "released a c (P a) ?w w1" by auto
  have nin: "a \<notin> set xs" using Cons.prems(3) by (simp add: owners_def)
  have ch1: "w_ch w1 = (w_ch w)(a := None)" using w1(2) by (simp add: released_def)
  have "owners w1 nh (xs @ ys) P" using released_owners [of ?w nh a "xs @ ys" P c w1] o c(2) w1(2) by simp
  moreover have "w_nh w1 nh = Some ?n" using w1(2) by (simp add: released_def)
  moreover have "chain (w_ch w1) (head ?n) xs" using c(3) nin by (simp add: head_set ch1)
  ultimately obtain w' where w': "loop os (Nh_local (Some nh)) w1 = Some w'"
    "w_ch w' = (\<lambda>a. if a \<in> set xs then None else w_ch w1 a)"
    "w_nh w' = (w_nh w1)(nh \<mapsto> if xs = [] then ?n else set_head None ?n)" "owners w' nh ys P"
    "\<forall>b. w_cb w' b = (if \<exists>a \<in> set xs. map_option ch_cbp (w_ch w1 a) = Some (Some b) then None else w_cb w1 b)"
    "\<forall>fd. w_fds w' fd = (if \<exists>a \<in> set xs. \<exists>c. w_ch w1 a = Some c \<and> fd \<in> fds_of c then None else w_fds w1 fd)"
    using Cons.IH [of w1 ?n] by blast
  have "loop os (Nh_local (Some nh)) w = Some w'"
    using loop_eq [OF Cons.prems(1)] c(1,2) w1(1) w'(1) by simp
  moreover have "w_ch w' = (\<lambda>b. if b \<in> set (a # xs) then None else w_ch w b)" using w'(2) ch1 by auto
  moreover have "w_nh w' = (w_nh w)(nh \<mapsto> set_head None n)"
    using w'(3) w1(2) c(3) by (cases "xs = []") (auto simp: released_def set_set)
  moreover have "w_cb w' b = (if \<exists>x \<in> set (a # xs). map_option ch_cbp (w_ch w x) = Some (Some b) then None else w_cb w b)" for b
    using w'(5) w1(2) c(2) nin by (auto simp: ch1 released_def)
  moreover have "w_fds w' fd = (if \<exists>x \<in> set (a # xs). \<exists>c. w_ch w x = Some c \<and> fd \<in> fds_of c then None else w_fds w fd)" for fd
    using w'(6) w1(2) c(2) nin by (auto simp: ch1 released_def)
  ultimately show ?case using w'(4) by (simp add: fun_upd_def)
qed

end

interpretation tx_teardown: list_teardown nh_tx_head "\<lambda>p n. n\<lparr>nh_tx_head := p\<rparr>" destroy_tx
proof
  fix w :: world and nh n os
  assume "w_nh w nh = Some n"
  then show "destroy_tx os (Nh_local (Some nh)) w =
      (case nh_tx_head n of
         None \<Rightarrow> Some w
       | Some ch \<Rightarrow> do {
           c \<leftarrow> w_ch w ch;
           w \<leftarrow> i_chan_destroy os ch False (set_nh nh (n\<lparr>nh_tx_head := ch_next c\<rparr>) w);
           destroy_tx os (Nh_local (Some nh)) w
         })"
    by (subst destroy_tx.simps) (simp add: star_nh_def load_nh_def)
qed simp_all

interpretation rx_teardown: list_teardown nh_rx_head "\<lambda>p n. n\<lparr>nh_rx_head := p\<rparr>" destroy_rx
proof
  fix w :: world and nh n os
  assume "w_nh w nh = Some n"
  then show "destroy_rx os (Nh_local (Some nh)) w =
      (case nh_rx_head n of
         None \<Rightarrow> Some w
       | Some ch \<Rightarrow> do {
           c \<leftarrow> w_ch w ch;
           w \<leftarrow> i_chan_destroy os ch False (set_nh nh (n\<lparr>nh_rx_head := ch_next c\<rparr>) w);
           destroy_rx os (Nh_local (Some nh)) w
         })"
    by (subst destroy_rx.simps) (simp add: star_nh_def load_nh_def)
qed simp_all

section \<open>Destroying a handler\<close>

lemma owners_close:
  assumes "owners w nh xs P" "no_pipe w fd"
  shows "owners (os_close fd w) nh xs P"
proof -
  have "w_pipes (os_close fd w) = w_pipes w"
    using assms(2) by (auto simp: no_pipe_def os_close_def Let_def split: option.splits fdesc.splits)
  moreover have "owns (os_close fd w) nh a p c" if "owns w nh a p c" "w_pipes (os_close fd w) = w_pipes w" for a p c
    using that assms(2) by (auto simp: owns_def no_pipe_def os_close_fds)
  ultimately show ?thesis using assms(1) cb_separate_mono [of w xs xs "os_close fd w"]
    unfolding owners_def by (metis os_close_heaps(1) subset_refl)
qed

text \<open>The part before the lists.\<close>

definition logger_ok :: "nethandler \<Rightarrow> bool" where
  "logger_ok n \<longleftrightarrow> (case nh_logger n of None \<Rightarrow> True | Some l \<Rightarrow> log_wf l)"

lemma destroy_logger_ok:
  assumes "w_nh w nh = Some n" "logger_ok n"
  shows "\<exists>fs lg. destroy_logger os nh n w = Some (w\<lparr>w_files := fs, w_nh := (w_nh w)(nh \<mapsto> n\<lparr>nh_logger := lg\<rparr>)\<rparr>)"
proof (cases "nh_logger n")
  case None
  then have "n\<lparr>nh_logger := None\<rparr> = n" by (cases n) simp
  moreover from this have "w\<lparr>w_files := w_files w, w_nh := (w_nh w)(nh \<mapsto> n\<lparr>nh_logger := None\<rparr>)\<rparr> = w"
    using assms(1) by (cases w) (simp add: fun_upd_idem)
  ultimately show ?thesis using None
    by (intro exI [of _ "w_files w"] exI [of _ None]) (simp add: destroy_logger_def)
next
  case (Some l)
  then obtain l' fs' where "log_flush_and_rotate (os_fopen os) (Some l) (w_files w) = Some (Some l', fs')"
    using log_flush_and_rotate_wf [of l "os_fopen os" "w_files w"] assms(2) by (auto simp: logger_ok_def)
  with Some assms(1) show ?thesis
    by (intro exI [of _ fs'] exI [of _ None]) (simp add: destroy_logger_def with_logger_def log_destroy_def)
qed

lemma destroy_services_ok:
  assumes "w_nh w nh = Some n" "logger_ok n" "0 < nh_dma_lat_fd n \<longrightarrow> no_pipe w (nh_dma_lat_fd n)" "owners w nh xs P"
  shows "\<exists>w' n'. destroy_services os (Nh_local (Some nh)) w = Some w' \<and> w_nh w' = (w_nh w)(nh \<mapsto> n')
    \<and> nh_tx_head n' = nh_tx_head n \<and> nh_rx_head n' = nh_rx_head n \<and> owners w' nh xs P
    \<and> w_ch w' = w_ch w \<and> w_cb w' = w_cb w \<and> nh_use_srp n' = nh_use_srp n \<and> nh_srp n' = nh_srp n
    \<and> (\<forall>fd. w_fds w' fd = (if 0 < fd \<and> fd = nh_dma_lat_fd n then None else w_fds w fd))"
proof -
  define n1 where "n1 = (if nh_running n then if nh_tid n > 0 then n\<lparr>nh_running := False, nh_tid := 0, nh_rx_sock := -1\<rparr>
      else n\<lparr>nh_running := False\<rparr> else n)"
  have n1: "i_nh_stop_rx (Some nh) w = Some (set_nh nh n1 w)" "nh_dma_lat_fd n1 = nh_dma_lat_fd n"
    "nh_logger n1 = nh_logger n" "nh_tx_head n1 = nh_tx_head n" "nh_rx_head n1 = nh_rx_head n"
    "nh_use_srp n1 = nh_use_srp n" "nh_srp n1 = nh_srp n"
    using assms(1) by (simp_all add: i_nh_stop_rx_def n1_def)
  define w1 where "w1 = (if nh_dma_lat_fd n > 0 then os_close (nh_dma_lat_fd n) (set_nh nh n1 w) else set_nh nh n1 w)"
  have o0: "owners (set_nh nh n1 w) nh xs P" using assms(4) owners_cong [of "set_nh nh n1 w" w nh xs P] by simp
  have "owners w1 nh xs P"
    using o0 owners_close [OF o0, of "nh_dma_lat_fd n"] assms(3) by (simp add: w1_def no_pipe_def)
  moreover have w1: "w_nh w1 = (w_nh w)(nh \<mapsto> n1)" "w_ch w1 = w_ch w" "w_cb w1 = w_cb w"
    "\<forall>fd. w_fds w1 fd = (if 0 < fd \<and> fd = nh_dma_lat_fd n then None else w_fds w fd)" by (auto simp: w1_def os_close_fds)
  moreover have "logger_ok n1" "w_nh w1 nh = Some n1" using assms(2) n1(3) w1(1) by (simp_all add: logger_ok_def)
  from destroy_logger_ok [OF this(2,1), of os] obtain fs lg where
    lg: "destroy_logger os nh n1 w1 = Some (w1\<lparr>w_files := fs, w_nh := (w_nh w1)(nh \<mapsto> n1\<lparr>nh_logger := lg\<rparr>)\<rparr>)" by blast
  let ?n = "n1\<lparr>nh_logger := lg, nh_tb := False, nh_hmap := []\<rparr>"
  let ?w = "w1\<lparr>w_files := fs, w_nh := (w_nh w)(nh \<mapsto> ?n)\<rparr>"
  have "destroy_services os (Nh_local (Some nh)) w
      = do { w \<leftarrow> destroy_logger os nh n1 w1; upd_nh nh (\<lambda>n. n\<lparr>nh_tb := False, nh_hmap := []\<rparr>) w }"
    unfolding w1_def n1(2) [symmetric]
    by (simp add: destroy_services_def load_nh_def star_nh_def n1(1) Let_def)
  then have "destroy_services os (Nh_local (Some nh)) w = Some ?w" unfolding lg using w1(1) by simp
  ultimately show ?thesis using n1(4-7) owners_cong [of ?w w1 nh xs P]
    by (intro exI [of _ ?w] exI [of _ ?n]) simp
qed

lemma nc_srp_teardown_ok:
  assumes "w_nh w nh = Some n"
  shows "\<exists>w' n'. nc_srp_teardown os (Some nh) w = Some w' \<and> w_nh w' = (w_nh w)(nh \<mapsto> n') \<and> w_ch w' = w_ch w
    \<and> w_cb w' = w_cb w
    \<and> (\<forall>fd. w_fds w' fd = (if nh_use_srp n \<and> (\<exists>s. nh_srp n = Some s \<and> fd = srp_sock s) then None else w_fds w fd))"
proof -
  have "w_ch (snd (i_send_msg os s d w)) = w_ch w" "w_nh (snd (i_send_msg os s d w)) = w_nh w"
    "w_cb (snd (i_send_msg os s d w)) = w_cb w" "w_fds (snd (i_send_msg os s d w)) = w_fds w" for s d w
    by (simp_all add: only_mrp_fields [OF i_send_msg_only_mrp])
  note send = this
  show ?thesis
  proof (cases "nh_srp n")
    case None
    with assms show ?thesis by (intro exI [of _ w] exI [of _ n]) (simp add: nc_srp_teardown_def fun_upd_idem)
  next
    case (Some s)
    have "\<exists>w1 n1. (if nh_use_srp n then srp_leave os nh s w else Some w) = Some w1 \<and> w_nh w1 = (w_nh w)(nh \<mapsto> n1)
        \<and> w_ch w1 = w_ch w \<and> w_cb w1 = w_cb w
        \<and> (\<forall>fd. w_fds w1 fd = (if nh_use_srp n \<and> fd = srp_sock s then None else w_fds w fd))"
    proof (cases "nh_use_srp n")
      case True
      with assms Some show ?thesis
        by (simp add: srp_leave_def upd_srp_def nc_mrp_leave_vlan_def nc_mrp_unregister_domain_class_a_def
            i_mrp_update_domain_def Let_def split_beta os_close_fds send) blast
    next
      case False
      with assms show ?thesis by (auto simp: fun_upd_idem intro!: exI [of _ n])
    qed
    then obtain w1 n1 where w1: "(if nh_use_srp n then srp_leave os nh s w else Some w) = Some w1" "w_nh w1 = (w_nh w)(nh \<mapsto> n1)"
      "w_ch w1 = w_ch w" "w_cb w1 = w_cb w" "\<forall>fd. w_fds w1 fd = (if nh_use_srp n \<and> fd = srp_sock s then None else w_fds w fd)" by blast
    have "nc_srp_teardown os (Some nh) w = Some (set_nh nh (n1\<lparr>nh_srp := None\<rparr>) w1)"
      unfolding nc_srp_teardown_def using assms Some w1(1,2) by simp
    with w1(2-5) Some show ?thesis by auto
  qed
qed

text \<open>The descriptors of the handler itself that \<open>nh_destroy\<close> closes: the one that keeps the DMA latency low, and the socket to the
  MRP daemon.  The receive socket and the PTP device are not among them.\<close>

definition own_fds :: "nethandler \<Rightarrow> int set" where
  "own_fds n = {fd. 0 < fd \<and> fd = nh_dma_lat_fd n \<or> nh_use_srp n \<and> (\<exists>s. nh_srp n = Some s \<and> fd = srp_sock s)}"

lemma if_or: "(if A then x else if B then x else y) = (if A \<or> B then x else y)"
  by simp

lemma nh_destroy_ok:
  assumes "w_nh w nh = Some n" "chain (w_ch w) (nh_tx_head n) xs" "chain (w_ch w) (nh_rx_head n) ys"
    "owners w nh (xs @ ys) P" "unbounded_pipes os" "logger_ok n" "0 < nh_dma_lat_fd n \<longrightarrow> no_pipe w (nh_dma_lat_fd n)"
  shows "\<exists>w'. nh_destroy os (Nh_local (Some nh)) w = Some w' \<and> w_nh w' = (w_nh w)(nh := None)
    \<and> w_ch w' = (\<lambda>a. if a \<in> set (xs @ ys) then None else w_ch w a)
    \<and> (\<forall>b. w_cb w' b = (if \<exists>a \<in> set (xs @ ys). map_option ch_cbp (w_ch w a) = Some (Some b) then None else w_cb w b))
    \<and> (\<forall>fd. w_fds w' fd = (if fd \<in> own_fds n \<or> (\<exists>a \<in> set (xs @ ys). \<exists>c. w_ch w a = Some c \<and> fd \<in> fds_of c) then None
         else w_fds w fd))"
proof -
  let ?v = "Nh_local (Some nh)"
  obtain w1 n1 where w1: "destroy_services os ?v w = Some w1" "w_nh w1 = (w_nh w)(nh \<mapsto> n1)" "nh_tx_head n1 = nh_tx_head n"
    "nh_rx_head n1 = nh_rx_head n" "owners w1 nh (xs @ ys) P" "w_ch w1 = w_ch w" "w_cb w1 = w_cb w"
    "nh_use_srp n1 = nh_use_srp n" "nh_srp n1 = nh_srp n"
    "\<forall>fd. w_fds w1 fd = (if 0 < fd \<and> fd = nh_dma_lat_fd n then None else w_fds w fd)"
    using destroy_services_ok [OF assms(1,6,7,4), of os] by blast
  have "w_nh w1 nh = Some n1" "chain (w_ch w1) (nh_tx_head n1) xs" using w1(2,3,6) assms(2) by simp_all
  from tx_teardown.destroys_all [OF this w1(5) assms(5)] obtain w2 where
    w2: "destroy_tx os ?v w1 = Some w2" "w_ch w2 = (\<lambda>a. if a \<in> set xs then None else w_ch w1 a)"
      "w_nh w2 = (w_nh w1)(nh \<mapsto> if xs = [] then n1 else n1\<lparr>nh_tx_head := None\<rparr>)" "owners w2 nh ys P"
      "\<forall>b. w_cb w2 b = (if \<exists>a \<in> set xs. map_option ch_cbp (w_ch w1 a) = Some (Some b) then None else w_cb w1 b)"
      "\<forall>fd. w_fds w2 fd = (if \<exists>a \<in> set xs. \<exists>c. w_ch w1 a = Some c \<and> fd \<in> fds_of c then None else w_fds w1 fd)"
    by blast
  define n2 where "n2 = (if xs = [] then n1 else n1\<lparr>nh_tx_head := None\<rparr>)"
  have dis: "set xs \<inter> set ys = {}" using assms(4) by (auto simp: owners_def)
  then have ysch: "\<And>a. a \<in> set ys \<Longrightarrow> w_ch w2 a = w_ch w a" using w2(2) w1(6) by auto
  have "w_nh w2 nh = Some n2" using w2(3) by (simp add: n2_def)
  moreover have "chain (w_ch w2) (nh_rx_head n2) ys"
    using assms(3) w1(4) chain_cong [of ys "w_ch w2" "w_ch w"] ysch by (simp add: n2_def)
  ultimately obtain w3 where
    w3: "destroy_rx os ?v w2 = Some w3" "w_ch w3 = (\<lambda>a. if a \<in> set ys then None else w_ch w2 a)"
      "w_nh w3 = (w_nh w2)(nh \<mapsto> if ys = [] then n2 else n2\<lparr>nh_rx_head := None\<rparr>)"
      "\<forall>b. w_cb w3 b = (if \<exists>a \<in> set ys. map_option ch_cbp (w_ch w2 a) = Some (Some b) then None else w_cb w2 b)"
      "\<forall>fd. w_fds w3 fd = (if \<exists>a \<in> set ys. \<exists>c. w_ch w2 a = Some c \<and> fd \<in> fds_of c then None else w_fds w2 fd)"
    using rx_teardown.destroys_all [of w2 nh n2 ys "[]" P os] w2(4) assms(5) by auto
  define n3 where "n3 = (if ys = [] then n2 else n2\<lparr>nh_rx_head := None\<rparr>)"
  have n3: "w_nh w3 nh = Some n3" "nh_use_srp n3 = nh_use_srp n" "nh_srp n3 = nh_srp n"
    using w3(3) w1(8,9) by (simp_all add: n3_def n2_def)
  obtain w4 n4 where w4: "(if nh_use_srp n3 then nc_srp_teardown os (Some nh) w3 else Some w3) = Some w4"
    "w_nh w4 = (w_nh w3)(nh \<mapsto> n4)" "w_ch w4 = w_ch w3" "w_cb w4 = w_cb w3"
    "\<forall>fd. w_fds w4 fd = (if nh_use_srp n \<and> (\<exists>s. nh_srp n = Some s \<and> fd = srp_sock s) then None else w_fds w3 fd)"
    using nc_srp_teardown_ok [OF n3(1), of os] n3 by (cases "nh_use_srp n3") (auto simp: fun_upd_idem intro: that [of w3 n3])
  let ?w = "w4\<lparr>w_nh := (w_nh w4)(nh := None)\<rparr>"
  have "nh_destroy os ?v w = Some ?w"
    using w1(1) w2(1) w3(1) w4(1,2) n3(1) by (simp add: nh_destroy_def load_nh_def star_nh_def free_nh_def)
  moreover have "w_nh ?w = (w_nh w)(nh := None)" using w4(2) w3(3) w2(3) w1(2) by simp
  moreover have "w_ch ?w = (\<lambda>a. if a \<in> set (xs @ ys) then None else w_ch w a)" using w4(3) w3(2) w2(2) w1(6) by auto
  moreover have "w_fds ?w fd = (if fd \<in> own_fds n \<or> (\<exists>a \<in> set (xs @ ys). \<exists>c. w_ch w a = Some c \<and> fd \<in> fds_of c) then None
      else w_fds w fd)" for fd
  proof -
    have "(\<exists>a \<in> set ys. \<exists>c. w_ch w2 a = Some c \<and> fd \<in> fds_of c) = (\<exists>a \<in> set ys. \<exists>c. w_ch w a = Some c \<and> fd \<in> fds_of c)"
      by (intro bex_cong) (simp_all add: ysch)
    then have "w_fds ?w fd = (if nh_use_srp n \<and> (\<exists>s. nh_srp n = Some s \<and> fd = srp_sock s) then None
        else if \<exists>a \<in> set ys. \<exists>c. w_ch w a = Some c \<and> fd \<in> fds_of c then None
        else if \<exists>a \<in> set xs. \<exists>c. w_ch w a = Some c \<and> fd \<in> fds_of c then None
        else if 0 < fd \<and> fd = nh_dma_lat_fd n then None else w_fds w fd)"
      using w4(5) [rule_format, of fd] w3(5) [rule_format, of fd] w2(6) [rule_format, of fd] w1(6) w1(10) [rule_format, of fd]
      by (simp split del: if_split cong: if_cong)
    moreover have "(fd \<in> own_fds n \<or> (\<exists>a \<in> set (xs @ ys). \<exists>c. w_ch w a = Some c \<and> fd \<in> fds_of c)) \<longleftrightarrow>
        nh_use_srp n \<and> (\<exists>s. nh_srp n = Some s \<and> fd = srp_sock s) \<or> (\<exists>a \<in> set ys. \<exists>c. w_ch w a = Some c \<and> fd \<in> fds_of c)
        \<or> (\<exists>a \<in> set xs. \<exists>c. w_ch w a = Some c \<and> fd \<in> fds_of c) \<or> 0 < fd \<and> fd = nh_dma_lat_fd n"
      unfolding own_fds_def mem_Collect_eq set_append bex_Un by argo
    ultimately show ?thesis by (simp only: if_or)
  qed
  moreover have "w_cb ?w b = (if \<exists>a \<in> set (xs @ ys). map_option ch_cbp (w_ch w a) = Some (Some b) then None else w_cb w b)" for b
  proof -
    have "(\<exists>a \<in> set ys. map_option ch_cbp (w_ch w2 a) = Some (Some b)) = (\<exists>a \<in> set ys. map_option ch_cbp (w_ch w a) = Some (Some b))"
      by (intro bex_cong) (simp_all add: ysch)
    then have "w_cb ?w b = (if (\<exists>a \<in> set ys. map_option ch_cbp (w_ch w a) = Some (Some b))
        \<or> (\<exists>a \<in> set xs. map_option ch_cbp (w_ch w a) = Some (Some b)) then None else w_cb w b)"
      using w4(4) w3(4) [rule_format, of b] w2(5) [rule_format, of b] w1(6,7) by (simp split del: if_split cong: if_cong flip: if_or)
    then show ?thesis by (simp only: set_append bex_Un disj_commute)
  qed
  ultimately show ?thesis by blast
qed

text \<open>What any execution that returns leaves alone.\<close>

lemma chan_stop_frame:
  assumes "chan_stop os (Some a) w = Some (r, w')"
  shows "w_nh w' = w_nh w \<and> (\<forall>b. b \<noteq> a \<longrightarrow> w_ch w' b = w_ch w b)"
proof -
  have "w_nh u' = w_nh u \<and> w_ch u' = w_ch u"
    if "nc_srp_remove_talker os p u = Some (q, u') \<or> nc_srp_remove_listener os p u = Some (q, u')" for p q u u'
    using that srp_channel_ops_only_mrp(2,3) only_mrp_fields by metis
  moreover have "w_nh u' = w_nh u \<and> w_ch u' = w_ch u" if "os_write rm fd d u = Some (q, u')" for rm fd d q u u'
    using os_write_heaps [OF that] by simp
  ultimately show ?thesis
    using assms unfolding chan_stop_def
    by (fastforce simp: bind_Some_iff upd_ch_def Let_def split: option.splits if_splits)
qed

lemma free_frame:
  "free_cb p w = Some w' \<Longrightarrow> w_nh w' = w_nh w \<and> w_ch w' = w_ch w"
  "free_ch a w = Some w' \<Longrightarrow> w_nh w' = w_nh w \<and> w_ch w' = (w_ch w)(a := None)"
  by (auto simp: free_cb_def free_ch_def split: option.splits if_splits)

lemma i_chan_destroy_frame:
  assumes "i_chan_destroy os a False w = Some w'"
  shows "w_nh w' = w_nh w \<and> w_ch w' = (w_ch w)(a := None)"
proof -
  from assms obtain r w1 c where d: "chan_stop os (Some a) w = Some (r, w1)" "w_ch w1 a = Some c"
    by (auto simp: i_chan_destroy_def bind_Some_iff)
  define u where "u = (if ch_fd_r c \<ge> 0 then os_close (ch_fd_r c) w1 else w1)"
  define v where "v = (if ch_fd_w c \<ge> 0 then os_close (ch_fd_w c) u else u)"
  have v: "w_nh v = w_nh w1" "w_ch v = w_ch w1" by (simp_all add: v_def u_def)
  define w2 where "w2 = (if ch_tx_sock c \<ge> 0 then set_ch a (c\<lparr>ch_tx_sock := -1\<rparr>) (os_close (ch_tx_sock c) v) else v)"
  have w2: "w_nh w2 = w_nh w1" "\<forall>b. b \<noteq> a \<longrightarrow> w_ch w2 b = w_ch w1 b" using v by (simp_all add: w2_def)
  have "i_chan_destroy os a False w = do { w \<leftarrow> free_cb (ch_cbp c) w2; free_ch a w }"
    using d by (cases "ch_tx_sock c \<ge> 0"; cases "ch_fd_r c \<ge> 0"; cases "ch_fd_w c \<ge> 0")
      (simp_all add: i_chan_destroy_def u_def v_def w2_def Let_def)
  with assms obtain w3 where w3: "free_cb (ch_cbp c) w2 = Some w3" "free_ch a w3 = Some w'" by (auto simp: bind_Some_iff)
  with chan_stop_frame [OF d(1)] free_frame(1) [OF w3(1)] free_frame(2) [OF w3(2)] w2 show ?thesis by (auto simp: fun_eq_iff)
qed

lemma destroy_tx_field:
  assumes "destroy_tx os v w = Some w'"
  shows "v = Nh_field ch \<longrightarrow> (\<exists>nh n. star_nh v w = Some (nh, n)
    \<and> (\<forall>xs. chain (w_ch w) (nh_tx_head n) xs \<longrightarrow> ch \<notin> set xs)
    \<and> (\<forall>xs ys. chain (w_ch w) (nh_tx_head n) xs \<longrightarrow> set xs \<inter> set ys = {} \<longrightarrow> chain (w_ch w) (nh_rx_head n) ys \<longrightarrow>
         (\<exists>n'. star_nh v w' = Some (nh, n') \<and> chain (w_ch w') (nh_rx_head n') ys)))"
proof (rule destroy_tx.raw_induct [OF _ assms], intro impI)
  fix loop os v w w'
  assume IH: "\<And>os v w w'. loop os v w = Some w' \<Longrightarrow> v = Nh_field ch \<longrightarrow> (\<exists>nh n. star_nh v w = Some (nh, n)
    \<and> (\<forall>xs. chain (w_ch w) (nh_tx_head n) xs \<longrightarrow> ch \<notin> set xs)
    \<and> (\<forall>xs ys. chain (w_ch w) (nh_tx_head n) xs \<longrightarrow> set xs \<inter> set ys = {} \<longrightarrow> chain (w_ch w) (nh_rx_head n) ys \<longrightarrow>
         (\<exists>n'. star_nh v w' = Some (nh, n') \<and> chain (w_ch w') (nh_rx_head n') ys)))"
    and step: "do {
     (nh, n) \<leftarrow> star_nh v w;
     (case nh_tx_head n of
        None \<Rightarrow> Some w
      | Some ch \<Rightarrow> do {
          c \<leftarrow> w_ch w ch;
          w \<leftarrow> i_chan_destroy os ch False (set_nh nh (n\<lparr>nh_tx_head := ch_next c\<rparr>) w);
          loop os v w
        })
   } = Some w'" and v: "v = Nh_field ch"
  from step obtain nh n where s: "star_nh v w = Some (nh, n)" by (auto simp: bind_Some_iff)
  show "\<exists>nh n. star_nh v w = Some (nh, n)
    \<and> (\<forall>xs. chain (w_ch w) (nh_tx_head n) xs \<longrightarrow> ch \<notin> set xs)
    \<and> (\<forall>xs ys. chain (w_ch w) (nh_tx_head n) xs \<longrightarrow> set xs \<inter> set ys = {} \<longrightarrow> chain (w_ch w) (nh_rx_head n) ys \<longrightarrow>
         (\<exists>n'. star_nh v w' = Some (nh, n') \<and> chain (w_ch w') (nh_rx_head n') ys))"
  proof (cases "nh_tx_head n")
    case None
    with step s have "w' = w" by simp
    with s None show ?thesis by (auto simp: chain_None_iff)
  next
    case (Some a)
    with step s obtain c w1 where c: "w_ch w a = Some c"
      "i_chan_destroy os a False (set_nh nh (n\<lparr>nh_tx_head := ch_next c\<rparr>) w) = Some w1" "loop os v w1 = Some w'"
      by (auto simp: bind_Some_iff)
    note fr = i_chan_destroy_frame [OF c(2)]
    from IH [OF c(3)] v obtain nh1 n1 where i: "star_nh v w1 = Some (nh1, n1)"
      "\<forall>xs. chain (w_ch w1) (nh_tx_head n1) xs \<longrightarrow> ch \<notin> set xs"
      "\<forall>xs ys. chain (w_ch w1) (nh_tx_head n1) xs \<longrightarrow> set xs \<inter> set ys = {} \<longrightarrow> chain (w_ch w1) (nh_rx_head n1) ys \<longrightarrow>
         (\<exists>n'. star_nh v w' = Some (nh1, n') \<and> chain (w_ch w') (nh_rx_head n') ys)" by blast
    have ne: "ch \<noteq> a" using i(1) fr v by (auto simp: star_nh_def load_nh_def)
    have n1: "nh1 = nh" "n1 = n\<lparr>nh_tx_head := ch_next c\<rparr>"
      using i(1) fr v s ne by (auto simp: star_nh_def load_nh_def bind_Some_iff)
    have xs: "\<exists>xs'. xs = a # xs' \<and> a \<notin> set xs' \<and> chain (w_ch w1) (nh_tx_head n1) xs'"
      if "chain (w_ch w) (nh_tx_head n) xs" for xs
    proof -
      from that Some c(1) obtain xs' where x: "xs = a # xs'" "chain (w_ch w) (ch_next c) xs'" by (cases xs) auto
      moreover have "a \<notin> set xs'" using chain_distinct [OF that] x(1) by simp
      ultimately show ?thesis using fr n1(2) by auto
    qed
    have ys: "chain (w_ch w1) (nh_rx_head n1) ys" if "chain (w_ch w) (nh_rx_head n) ys" "a \<notin> set ys" for ys
      using that fr n1(2) by simp
    show ?thesis using s xs ys i(2,3) n1(1) ne by fastforce
  qed
qed

lemma destroy_rx_field:
  assumes "destroy_rx os v w = Some w'"
  shows "v = Nh_field ch \<longrightarrow> (\<exists>nh n. star_nh v w = Some (nh, n)
    \<and> (\<forall>xs. chain (w_ch w) (nh_rx_head n) xs \<longrightarrow> ch \<notin> set xs))"
proof (rule destroy_rx.raw_induct [OF _ assms], intro impI)
  fix loop os v w w'
  assume IH: "\<And>os v w w'. loop os v w = Some w' \<Longrightarrow> v = Nh_field ch \<longrightarrow> (\<exists>nh n. star_nh v w = Some (nh, n)
    \<and> (\<forall>xs. chain (w_ch w) (nh_rx_head n) xs \<longrightarrow> ch \<notin> set xs))"
    and step: "do {
     (nh, n) \<leftarrow> star_nh v w;
     (case nh_rx_head n of
        None \<Rightarrow> Some w
      | Some ch \<Rightarrow> do {
          c \<leftarrow> w_ch w ch;
          w \<leftarrow> i_chan_destroy os ch False (set_nh nh (n\<lparr>nh_rx_head := ch_next c\<rparr>) w);
          loop os v w
        })
   } = Some w'" and v: "v = Nh_field ch"
  from step obtain nh n where s: "star_nh v w = Some (nh, n)" by (auto simp: bind_Some_iff)
  show "\<exists>nh n. star_nh v w = Some (nh, n) \<and> (\<forall>xs. chain (w_ch w) (nh_rx_head n) xs \<longrightarrow> ch \<notin> set xs)"
  proof (cases "nh_rx_head n")
    case None
    with s show ?thesis by (auto simp: chain_None_iff)
  next
    case (Some a)
    with step s obtain c w1 where c: "w_ch w a = Some c"
      "i_chan_destroy os a False (set_nh nh (n\<lparr>nh_rx_head := ch_next c\<rparr>) w) = Some w1" "loop os v w1 = Some w'"
      by (auto simp: bind_Some_iff)
    note fr = i_chan_destroy_frame [OF c(2)]
    from IH [OF c(3)] v obtain nh1 n1 where i: "star_nh v w1 = Some (nh1, n1)"
      "\<forall>xs. chain (w_ch w1) (nh_rx_head n1) xs \<longrightarrow> ch \<notin> set xs" by blast
    have ne: "ch \<noteq> a" using i(1) fr v by (auto simp: star_nh_def load_nh_def)
    have "n1 = n\<lparr>nh_rx_head := ch_next c\<rparr>"
      using i(1) fr v s ne by (auto simp: star_nh_def load_nh_def bind_Some_iff)
    then have "ch \<notin> set xs" if "chain (w_ch w) (nh_rx_head n) xs" for xs
      using that Some c(1) fr i(2) ne chain_distinct [OF that] by (cases xs) auto
    with s show ?thesis by blast
  qed
qed

lemma destroy_logger_frame:
  assumes "destroy_logger os nh n w = Some w'" "w_nh w nh = Some n"
  shows "w_ch w' = w_ch w \<and> (\<exists>n'. w_nh w' nh = Some n' \<and> nh_tx_head n' = nh_tx_head n \<and> nh_rx_head n' = nh_rx_head n)"
proof (cases "nh_logger n")
  case (Some l)
  with assms obtain lg fs where "log_flush_and_rotate (os_fopen os) (Some l) (w_files w) = Some (lg, fs)"
    by (auto simp: destroy_logger_def with_logger_def bind_Some_iff)
  with assms Some show ?thesis by (auto simp: destroy_logger_def with_logger_def)
qed (use assms in \<open>simp add: destroy_logger_def\<close>)

lemma destroy_services_frame:
  assumes "destroy_services os v w = Some w'" "star_nh v w = Some (nh, n)"
  shows "w_ch w' = w_ch w \<and> (\<exists>n'. star_nh v w' = Some (nh, n') \<and> nh_tx_head n' = nh_tx_head n \<and> nh_rx_head n' = nh_rx_head n)"
proof -
  have p: "load_nh v w = Some (Some nh)" "w_nh w nh = Some n" using assms(2) by (auto simp: star_nh_def bind_Some_iff)
  have load: "load_nh v u = Some (Some nh)" if "w_ch u = w_ch w" for u using p(1) that by (simp add: load_nh_def split: nh_var.splits)
  obtain n1 where n1: "i_nh_stop_rx (Some nh) w = Some (set_nh nh n1 w)" "nh_tx_head n1 = nh_tx_head n" "nh_rx_head n1 = nh_rx_head n"
    using p(2) that [of "if nh_running n then if nh_tid n > 0 then n\<lparr>nh_running := False, nh_tid := 0, nh_rx_sock := -1\<rparr>
      else n\<lparr>nh_running := False\<rparr> else n"] by (simp add: i_nh_stop_rx_def)
  define w1 where "w1 = (if nh_dma_lat_fd n1 > 0 then os_close (nh_dma_lat_fd n1) (set_nh nh n1 w) else set_nh nh n1 w)"
  have w1: "w_ch w1 = w_ch w" "w_nh w1 nh = Some n1" by (simp_all add: w1_def)
  have "destroy_services os v w = do { w \<leftarrow> destroy_logger os nh n1 w1; upd_nh nh (\<lambda>n. n\<lparr>nh_tb := False, nh_hmap := []\<rparr>) w }"
    unfolding w1_def using n1(1) p load [of "set_nh nh n1 w"] by (simp add: destroy_services_def star_nh_def Let_def)
  with assms(1) obtain w2 where w2: "destroy_logger os nh n1 w1 = Some w2"
    "upd_nh nh (\<lambda>n. n\<lparr>nh_tb := False, nh_hmap := []\<rparr>) w2 = Some w'" by (auto simp: bind_Some_iff)
  from destroy_logger_frame [OF w2(1) w1(2)] w2(2) w1(1) n1(2,3) load [of w'] show ?thesis by (auto simp: star_nh_def)
qed

section \<open>Properties\<close>

text \<open>C10: Destruction releases everything.  On a handler whose lists are well formed, whose channels each own their pipe, socket and
  callback area, and with pipes that do not fill up, \<open>nh_destroy\<close> returns; exactly this handler, its channels and their callback areas
  are freed, and exactly the descriptors of the channels, the one for the DMA latency and, with SRP, the socket to the MRP daemon are
  closed.  (The receive socket and the PTP device stay open.)\<close>

theorem nh_destroy_releases_all:
  assumes "w_nh w nh = Some n" "tx_chans w nh xs tp" "rx_chans w nh ys tp'"
    "owners w nh (xs @ ys) P" "unbounded_pipes os" "logger_ok n" "0 < nh_dma_lat_fd n \<longrightarrow> no_pipe w (nh_dma_lat_fd n)"
  shows "\<exists>w'. nh_destroy os (Nh_local (Some nh)) w = Some w' \<and> w_nh w' = (w_nh w)(nh := None)
    \<and> w_ch w' = (\<lambda>a. if a \<in> set (xs @ ys) then None else w_ch w a)
    \<and> (\<forall>b. w_cb w' b = (if \<exists>a \<in> set (xs @ ys). map_option ch_cbp (w_ch w a) = Some (Some b) then None else w_cb w b))
    \<and> (\<forall>fd. w_fds w' fd = (if fd \<in> own_fds n \<or> (\<exists>a \<in> set (xs @ ys). \<exists>c. w_ch w a = Some c \<and> fd \<in> fds_of c) then None
         else w_fds w fd))"
  using nh_destroy_ok [OF assms(1) _ _ assms(4-7)] assms(1,2,3) by (simp add: tx_chans_def rx_chans_def)

text \<open>Destruction through a channel is a use after free.  When the pointer that \<open>nh_destroy\<close> is given is the \<^verbatim>\<open>nh\<close> field of one
  of the handler's own channels, as in the break path of \<^verbatim>\<open>_chan_read\<close>, the call never returns normally: it frees that channel and
  then reads the pointer from it again.\<close>

lemma nh_destroy_field_faults:
  assumes "w_ch w ch = Some c" "ch_nh c = Some nh" "w_nh w nh = Some n" "tx_chans w nh xs tp" "rx_chans w nh ys tp'"
    "set xs \<inter> set ys = {}" "ch \<in> set (xs @ ys)"
  shows "nh_destroy os (Nh_field ch) w = None"
proof (rule ccontr)
  let ?v = "Nh_field ch"
  assume "nh_destroy os ?v w \<noteq> None"
  moreover have l: "load_nh ?v w = Some (Some nh)" "star_nh ?v w = Some (nh, n)" using assms(1-3) by (simp_all add: load_nh_def star_nh_def)
  ultimately obtain w1 w2 w3 where d: "destroy_services os ?v w = Some w1" "destroy_tx os ?v w1 = Some w2" "destroy_rx os ?v w2 = Some w3"
    by (auto simp: nh_destroy_def bind_Some_iff)
  from destroy_services_frame [OF d(1) l(2)] obtain n1 where n1: "w_ch w1 = w_ch w" "star_nh ?v w1 = Some (nh, n1)"
    "nh_tx_head n1 = nh_tx_head n" "nh_rx_head n1 = nh_rx_head n" by blast
  have ch: "chain (w_ch w1) (nh_tx_head n1) xs" "chain (w_ch w1) (nh_rx_head n1) ys"
    using assms(3-5) n1 by (simp_all add: tx_chans_def rx_chans_def)
  from destroy_tx_field [OF d(2), of ch] n1(2) ch assms(6) obtain n2 where "ch \<notin> set xs"
    "star_nh ?v w2 = Some (nh, n2)" "chain (w_ch w2) (nh_rx_head n2) ys" by fastforce
  with destroy_rx_field [OF d(3), of ch] assms(7) show False by fastforce
qed

lemma demo_handler:
  "w_nh demo_world 1 = Some demo_nh" "tx_chans demo_world 1 [2] (Some 2)" "rx_chans demo_world 1 [3] (Some 3)"
  "logger_ok demo_nh" "0 < nh_dma_lat_fd demo_nh \<longrightarrow> no_pipe demo_world (nh_dma_lat_fd demo_nh)"
  by (simp_all add: demo_world_def demo_nh_def zero_nethandler_def tx_chans_def rx_chans_def demo_tx_def demo_rx_def
      zero_channel_def logger_ok_def no_pipe_def)

lemma demo_owners: "owners demo_world 1 ([2] @ [3]) (\<lambda>a. a + 28)"
  by (simp add: owners_def owns_def cb_separate_def demo_world_def demo_tx_def demo_rx_def zero_channel_def no_pipe_def open_pipe_def)

theorem nh_destroy_releases_all_witness:
  "\<exists>w'. nh_destroy demo_os (Nh_local (Some 1)) demo_world = Some w' \<and> w_nh w' 1 = None \<and> w_ch w' 2 = None \<and> w_ch w' 3 = None
    \<and> w_fds w' 7 = None \<and> w_fds w' 20 = None \<and> w_fds w' 23 = None \<and> w_cb w' 10 = None"
proof -
  have "w_ch demo_world 2 = Some demo_tx" "w_ch demo_world 3 = Some demo_rx" "7 \<in> fds_of demo_tx" "20 \<in> fds_of demo_tx"
    "23 \<in> fds_of demo_rx" "ch_cbp demo_rx = Some 10"
    by (simp_all add: demo_world_def fds_of_def demo_tx_def demo_rx_def)
  then show ?thesis
    using nh_destroy_releases_all [OF demo_handler(1-3) demo_owners demo_receiver(2) demo_handler(4,5)] by fastforce
qed

text \<open>Stopping every channel of a list.\<close>

lemma chan_stop_owners:
  assumes "owners w nh xs P" "a \<in> set xs" "w_ch w a = Some c" "w_ch w' = (w_ch w)(a \<mapsto> stopped c)" "w_cb w' = w_cb w" "w_fds w' = w_fds w"
    "\<forall>q. q \<noteq> P a \<longrightarrow> w_pipes w' q = w_pipes w q" "\<exists>pb. w_pipes w' (P a) = Some pb \<and> pb_ropen pb"
  shows "owners w' nh xs P"
proof -
  have "cb_separate w' xs" using assms(1,3,4) cb_separate_mono [of w xs xs w'] by (simp add: owners_def)
  moreover have "\<exists>c'. owns w' nh b (P b) c'" if b: "b \<in> set xs" for b
  proof (cases "b = a")
    case True
    obtain c0 where "owns w nh a (P a) c0" using owners_at [OF assms(1,2)] by blast
    with assms(3) have "owns w nh a (P a) c" by (simp add: owns_def)
    with True assms show ?thesis by (intro exI [of _ "stopped c"]) (auto simp: owns_def no_pipe_def)
  next
    case False
    then have "P b \<noteq> P a" using assms(1,2) b by (auto simp: owners_def inj_on_def)
    moreover obtain c' where "owns w nh b (P b) c'" using owners_at [OF assms(1) b] by blast
    ultimately show ?thesis using False assms by (intro exI [of _ c']) (auto simp: owns_def no_pipe_def)
  qed
  ultimately show ?thesis using assms(1) by (auto simp: owners_def)
qed

lemma stop_walk_stops:
  assumes "w_nh w nh = Some n" "chain (w_ch w) p ys" "set ys \<subseteq> set xs" "owners w nh xs P" "unbounded_pipes os"
  shows "\<exists>w'. stop_walk os p w = Some w' \<and> w_nh w' = w_nh w \<and> owners w' nh xs P
    \<and> w_ch w' = (\<lambda>a. if a \<in> set ys then map_option stopped (w_ch w a) else w_ch w a)"
  using assms(1-4)
proof (induction ys arbitrary: p w)
  case Nil
  then show ?case by (subst stop_walk.simps) auto
next
  case (Cons a ys)
  then obtain c where c: "p = Some a" "w_ch w a = Some c" "chain (w_ch w) (ch_next c) ys" by auto
  obtain c0 where "owns w nh a (P a) c0" using owners_at [OF Cons.prems(4), of a] Cons.prems(3) by auto
  with c(2) have "owns w nh a (P a) c" by (simp add: owns_def)
  from chan_stop_owned [OF this Cons.prems(1) assms(5)] obtain r w1 where
    w1: "chan_stop os (Some a) w = Some (r, w1)" "w_ch w1 = (w_ch w)(a \<mapsto> stopped c)" "w_nh w1 = w_nh w" "w_cb w1 = w_cb w"
      "w_fds w1 = w_fds w" "\<forall>q. q \<noteq> P a \<longrightarrow> w_pipes w1 q = w_pipes w q" "\<exists>pb. w_pipes w1 (P a) = Some pb \<and> pb_ropen pb" by blast
  have o: "owners w1 nh xs P" using chan_stop_owners [OF Cons.prems(4) _ c(2) w1(2,4-7)] Cons.prems(3) by simp
  have nin: "a \<notin> set ys" using chain_distinct [OF Cons.prems(2)] by simp
  have "chain (w_ch w1) (ch_next c) ys" using c(3) w1(2) nin by simp
  moreover have "w_nh w1 nh = Some n" "set ys \<subseteq> set xs" using w1(3) Cons.prems(1,3) by simp_all
  ultimately obtain w' where w': "stop_walk os (ch_next c) w1 = Some w'" "w_nh w' = w_nh w1" "owners w' nh xs P"
    "w_ch w' = (\<lambda>a. if a \<in> set ys then map_option stopped (w_ch w1 a) else w_ch w1 a)"
    using Cons.IH [of w1 "ch_next c"] o by blast
  have "stop_walk os p w = Some w'" using c(1) w1(1,2) w'(1) by (subst stop_walk.simps) simp
  moreover have "w_ch w' = (\<lambda>b. if b \<in> set (a # ys) then map_option stopped (w_ch w b) else w_ch w b)"
    using w'(4) w1(2) c(2) nin by (auto simp: fun_eq_iff)
  ultimately show ?case using w'(2,3) w1(3) by auto
qed

text \<open>C11: Stopping a handler.  \<open>nh_stop\<close> returns, every channel of both lists is stopped and no longer valid, so that every further
  update and send on it is refused without effect; all other channels are untouched.\<close>

theorem nh_stop_stops_all:
  assumes "w_nh w nh = Some n" "tx_chans w nh xs tp" "rx_chans w nh ys tp'" "owners w nh (xs @ ys) P" "unbounded_pipes os"
  shows "\<exists>w'. nh_stop os (Some nh) w = Some w'
    \<and> w_ch w' = (\<lambda>a. if a \<in> set (xs @ ys) then map_option stopped (w_ch w a) else w_ch w a)
    \<and> (\<forall>a \<in> set (xs @ ys). chan_valid w' (Some a) = Some False \<and> (\<forall>ts d. chan_update (Some a) ts d w' = Some (- ENOMEM, w'))
         \<and> (\<forall>d. chan_send_now os (Some a) d w' = Some (- EINVAL, w')))"
proof -
  have ch: "chain (w_ch w) (nh_tx_head n) xs" "chain (w_ch w) (nh_rx_head n) ys"
    using assms(1-3) by (simp_all add: tx_chans_def rx_chans_def)
  have dis: "set xs \<inter> set ys = {}" using assms(4) by (auto simp: owners_def)
  from stop_walk_stops [OF assms(1) ch(1) _ assms(4,5)] obtain w1 where
    w1: "stop_walk os (nh_tx_head n) w = Some w1" "w_nh w1 = w_nh w" "owners w1 nh (xs @ ys) P"
      "w_ch w1 = (\<lambda>a. if a \<in> set xs then map_option stopped (w_ch w a) else w_ch w a)" by auto
  have "\<And>a. a \<in> set ys \<Longrightarrow> w_ch w1 a = w_ch w a" using w1(4) dis by auto
  then have "chain (w_ch w1) (nh_rx_head n) ys" using ch(2) chain_cong [of ys "w_ch w1" "w_ch w"] by simp
  moreover have "w_nh w1 nh = Some n" using w1(2) assms(1) by simp
  ultimately obtain w' where w': "stop_walk os (nh_rx_head n) w1 = Some w'" "w_nh w' = w_nh w1"
      "w_ch w' = (\<lambda>a. if a \<in> set ys then map_option stopped (w_ch w1 a) else w_ch w1 a)"
    using stop_walk_stops [of w1 nh n "nh_rx_head n" ys "xs @ ys" P os] w1(3) assms(5) by auto
  have eq: "w_ch w' = (\<lambda>a. if a \<in> set (xs @ ys) then map_option stopped (w_ch w a) else w_ch w a)"
    using w'(3) w1(4) dis by (auto simp: fun_eq_iff)
  have inv: "chan_valid w' (Some a) = Some False" if a: "a \<in> set (xs @ ys)" for a
  proof -
    obtain c where "owns w nh a (P a) c" using owners_at [OF assms(4) a] by blast
    then have "w_ch w a = Some c" by (simp add: owns_def)
    then show ?thesis using chan_valid_not_ready [of w' a "stopped c"] eq a by simp
  qed
  have "nh_stop os (Some nh) w = Some w'" using assms(1) w1(1,2) w'(1) by (simp add: nh_stop_def)
  with eq inv show ?thesis by (simp add: chan_update_def chan_send_now_def)
qed

theorem nh_stop_stops_all_witness:
  "\<exists>w'. nh_stop demo_os (Some 1) demo_world = Some w' \<and> chan_valid w' (Some 2) = Some False \<and> chan_valid w' (Some 3) = Some False"
  using nh_stop_stops_all [OF demo_handler(1-3) demo_owners demo_receiver(2)] by auto

end
