(* ===== verification/Nh_Setup.thy ===== *)
theory Nh_Setup
  imports Nethandler
begin

text \<open>
  Correctness of \<open>nh_create_init\<close>: the states the new handler passes through, and what the caller has
  at the end, whichever system call fails.
\<close>

section \<open>Creating a handler\<close>

text \<open>
  The handler at \<open>nh\<close> while it is being set up, compared with the world \<open>w0\<close> before: it has no channels and
  an empty callback map, it is the only new object, and nothing else on the heap has changed.
\<close>

definition setup_inv :: "world \<Rightarrow> nat \<Rightarrow> addr \<Rightarrow> world \<Rightarrow> nethandler \<Rightarrow> bool" where
  "setup_inv w0 sz nh w n \<longleftrightarrow> w_nh w = (w_nh w0)(nh \<mapsto> n) \<and> w_ch w = w_ch w0 \<and> w_cb w = w_cb w0
     \<and> w_fresh w = w_fresh w0 + 1 \<and> nh_tx_head n = None \<and> nh_tx_tail n = None \<and> nh_rx_head n = None \<and> nh_rx_tail n = None
     \<and> \<not> nh_use_srp n \<and> nh_hmap n = hm_alloc sz \<and> logger_ok n
     \<and> nh_tx_tas_sock_prio n = DEFAULT_TX_TAS_SOCKET_PRIO \<and> nh_tx_cbs_sock_prio n = DEFAULT_TX_CBS_SOCKET_PRIO
     \<and> (0 < nh_dma_lat_fd n \<longrightarrow> no_pipe w (nh_dma_lat_fd n))"

lemma setup_inv_at: "setup_inv w0 sz nh w n \<Longrightarrow> w_nh w nh = Some n"
  by (simp add: setup_inv_def)

text \<open>Changes of the configuration, and of descriptors that are no pipes, keep it.\<close>

lemma setup_inv_set:
  assumes "setup_inv w0 sz nh w n" "nh_tx_head n' = nh_tx_head n" "nh_tx_tail n' = nh_tx_tail n" "nh_rx_head n' = nh_rx_head n"
    "nh_rx_tail n' = nh_rx_tail n" "nh_use_srp n' = nh_use_srp n" "nh_hmap n' = nh_hmap n" "logger_ok n'"
    "nh_tx_tas_sock_prio n' = nh_tx_tas_sock_prio n" "nh_tx_cbs_sock_prio n' = nh_tx_cbs_sock_prio n"
    "0 < nh_dma_lat_fd n' \<Longrightarrow> no_pipe w (nh_dma_lat_fd n')"
  shows "setup_inv w0 sz nh (set_nh nh n' w) n'"
  using assms by (simp add: setup_inv_def no_pipe_def)

lemma setup_inv_fds:
  assumes "setup_inv w0 sz nh w n" "w_nh w' = w_nh w" "w_ch w' = w_ch w" "w_cb w' = w_cb w" "w_fresh w' = w_fresh w"
    "\<And>fd. no_pipe w fd \<Longrightarrow> no_pipe w' fd"
  shows "setup_inv w0 sz nh w' n"
  using assms by (simp add: setup_inv_def)

lemma no_pipe_steps [simp]:
  "no_pipe (tick w) fd = no_pipe w fd" "no_pipe w fd \<Longrightarrow> no_pipe (os_close g w) fd"
  "no_pipe w fd \<Longrightarrow> no_pipe (open_fd g w) fd" "no_pipe (snd (ioctl os g q w)) fd = no_pipe w fd"
  "0 \<le> fd \<Longrightarrow> no_pipe (open_fd fd w) fd"
  by (auto simp: no_pipe_def os_close_fds open_fd_def ioctl_def)

lemma open_fd_heaps [simp]:
  "w_nh (open_fd fd w) = w_nh w" "w_ch (open_fd fd w) = w_ch w" "w_cb (open_fd fd w) = w_cb w" "w_fresh (open_fd fd w) = w_fresh w"
  by (simp_all add: open_fd_def)

lemma ioctl_heaps [simp]:
  "w_nh (snd (ioctl os fd q w)) = w_nh w" "w_ch (snd (ioctl os fd q w)) = w_ch w" "w_cb (snd (ioctl os fd q w)) = w_cb w"
  "w_fresh (snd (ioctl os fd q w)) = w_fresh w"
  by (simp_all add: ioctl_def)

text \<open>The socket and device functions touch only descriptors and the tick.\<close>

definition same_heaps :: "world \<Rightarrow> world \<Rightarrow> bool" where
  "same_heaps w w' \<longleftrightarrow> w_nh w' = w_nh w \<and> w_ch w' = w_ch w \<and> w_cb w' = w_cb w \<and> w_fresh w' = w_fresh w
     \<and> (\<forall>fd. no_pipe w fd \<longrightarrow> no_pipe w' fd)"

lemma setup_inv_same: "setup_inv w0 sz nh w n \<Longrightarrow> same_heaps w w' \<Longrightarrow> setup_inv w0 sz nh w' n"
  by (simp add: setup_inv_def same_heaps_def)

lemma same_heaps_steps [simp]:
  "same_heaps w (tick w)" "same_heaps w (snd (ioctl os fd q w))" "same_heaps w w"
  by (simp_all add: same_heaps_def)

lemma nc_create_rx_sock_same: "same_heaps w (snd (nc_create_rx_sock os ifname w))"
  by (simp add: same_heaps_def nc_create_rx_sock_def Let_def split_beta)

lemma get_ptp_fd_same: "same_heaps w (snd (get_ptp_fd os ifname w))"
  by (simp add: same_heaps_def get_ptp_fd_def Let_def split_beta split: option.split)

lemma nh_destroy_empty:
  assumes "setup_inv w0 sz nh w n"
  shows "\<exists>w'. nh_destroy os (Nh_local (Some nh)) w = Some w' \<and> w_nh w' = (w_nh w0)(nh := None) \<and> w_ch w' = w_ch w0
    \<and> w_cb w' = w_cb w0"
proof -
  have o: "owners w nh [] id" by (simp add: owners_def cb_separate_def)
  from destroy_services_ok [OF setup_inv_at [OF assms] _ _ o, of os] assms obtain w1 n1 where
    w1: "destroy_services os (Nh_local (Some nh)) w = Some w1" "w_nh w1 = (w_nh w)(nh \<mapsto> n1)"
      "nh_tx_head n1 = None" "nh_rx_head n1 = None" "w_ch w1 = w_ch w" "w_cb w1 = w_cb w" by (auto simp: setup_inv_def)
  have "destroy_tx os (Nh_local (Some nh)) w1 = Some w1" "destroy_rx os (Nh_local (Some nh)) w1 = Some w1"
    using w1(2,3,4) by (subst destroy_tx.simps destroy_rx.simps; simp add: star_nh_def load_nh_def)+
  moreover obtain w2 n2 where "(if nh_use_srp n1 then nc_srp_teardown os (Some nh) w1 else Some w1) = Some w2"
    "w_nh w2 = (w_nh w1)(nh \<mapsto> n2)" "w_ch w2 = w_ch w1" "w_cb w2 = w_cb w1"
    using nc_srp_teardown_ok [of w1 nh n1 os] w1(2) by (cases "nh_use_srp n1") auto
  ultimately have "nh_destroy os (Nh_local (Some nh)) w = Some (w2\<lparr>w_nh := (w_nh w2)(nh := None)\<rparr>)"
    using w1(1,2) by (simp add: nh_destroy_def load_nh_def star_nh_def free_nh_def)
  then show ?thesis using \<open>w_nh w2 = _\<close> \<open>w_ch w2 = _\<close> \<open>w_cb w2 = _\<close> w1(2,5,6) assms by (simp add: setup_inv_def)
qed

text \<open>Stores to the fields the invariant does not mention.\<close>

definition same_config :: "nethandler \<Rightarrow> nethandler \<Rightarrow> bool" where
  "same_config n n' \<longleftrightarrow> nh_tx_head n' = nh_tx_head n \<and> nh_tx_tail n' = nh_tx_tail n \<and> nh_rx_head n' = nh_rx_head n
     \<and> nh_rx_tail n' = nh_rx_tail n \<and> nh_use_srp n' = nh_use_srp n \<and> nh_hmap n' = nh_hmap n \<and> nh_logger n' = nh_logger n
     \<and> nh_dma_lat_fd n' = nh_dma_lat_fd n
     \<and> nh_tx_tas_sock_prio n' = nh_tx_tas_sock_prio n \<and> nh_tx_cbs_sock_prio n' = nh_tx_cbs_sock_prio n"

lemma setup_inv_step:
  "setup_inv w0 sz nh w n \<Longrightarrow> same_config n n' \<Longrightarrow> setup_inv w0 sz nh (set_nh nh n' w) n'"
  by (simp add: same_config_def setup_inv_def logger_ok_def no_pipe_def)

definition kept :: "nethandler \<Rightarrow> nethandler \<Rightarrow> bool" where
  "kept n n' \<longleftrightarrow> nh_rx_sock n' = nh_rx_sock n \<and> nh_is_lo n' = nh_is_lo n \<and> nh_ifname n' = nh_ifname n \<and> nh_logger n' = nh_logger n"

text \<open>A system on which none of the calls of the set-up fails, and one on which every interface has a PTP clock.\<close>

definition calls_succeed :: "os \<Rightarrow> bool" where
  "calls_succeed os \<longleftrightarrow> (\<forall>t. os_malloc os t \<and> 0 < os_socket os t \<and> os_setsockopt os t = 0 \<and> os_call os t ''bind'' = 0
     \<and> os_pthread_create os t \<noteq> None \<and> (\<forall>q. os_ioctl os t q \<noteq> None))"

definition has_ptp_clock :: "os \<Rightarrow> bool" where
  "has_ptp_clock os \<longleftrightarrow> (\<forall>t. (\<forall>bs. os_ioctl os t ''SIOCETHTOOL'' = Some bs \<longrightarrow> 0 \<le> sint (of_le bs :: u32)) \<and> (\<forall>d. 0 \<le> os_open os t d))"

definition is_loopback :: "string \<Rightarrow> bool" where
  "is_loopback ifname \<longleftrightarrow> strncmp_eq ifname ''lo'' 2"

lemma is_loopback_strncpy:
  "strncmp_eq (strncpy ifname (IFNAMSIZ - 1)) ''lo'' 2 = is_loopback ifname"
  "strncmp_eq (strncpy ifname (IFNAMSIZ - Suc 0)) ''lo'' 2 = is_loopback ifname"
  by (simp_all add: is_loopback_def strncmp_eq_def strncpy_def IFNAMSIZ_def)

lemma calls_succeed_ioctl: "calls_succeed os \<Longrightarrow> 0 \<le> fd \<Longrightarrow> fst (ioctl os fd q w) \<noteq> None"
  by (simp add: calls_succeed_def ioctl_def)

lemma calls_succeed_rx_sock: "calls_succeed os \<Longrightarrow> 0 < fst (nc_create_rx_sock os ifname w)"
  by (simp add: calls_succeed_def nc_create_rx_sock_def ioctl_def Let_def not_less less_imp_le)

lemma calls_succeed_ptp:
  assumes "calls_succeed os" "has_ptp_clock os" "\<not> is_loopback ifname"
  shows "0 \<le> fst (get_ptp_fd os ifname w)"
proof -
  have "\<not> sint (of_le bs :: u32) < 0" if "os_ioctl os t ''SIOCETHTOOL'' = Some bs" for t bs
    using assms(2) that by (simp add: has_ptp_clock_def not_less)
  moreover have "\<not> os_open os t d < 0" "\<not> os_socket os t < 0" "os_ioctl os t q \<noteq> None" for t d q
    using assms(1,2) by (simp_all add: has_ptp_clock_def calls_succeed_def not_less less_imp_le)
  ultimately show ?thesis
    using assms(3) by (simp add: is_loopback_def get_ptp_fd_def ioctl_def Let_def not_less [symmetric] split: option.split)
qed

lemma link_speed_same:
  assumes "w_nh w nh = Some n"
  shows "\<exists>mbps w'. i_get_link_speed_Mbps os (Some nh) w = Some (mbps, w') \<and> same_heaps w w'"
  using assms by (auto simp: i_get_link_speed_Mbps_def ioctl_def same_heaps_def split: option.split)

lemma net_setup_tail:
  assumes "setup_inv w0 sz nh w n"
  shows "\<exists>w' n'. do { (mbps, w) \<leftarrow> i_get_link_speed_Mbps os (Some nh) w;
                      w \<leftarrow> upd_nh nh (\<lambda>n. n\<lparr>nh_link_speed := link_speed_of mbps\<rparr>) w;
                      Some (0, w) } = Some (0 :: int, w')
    \<and> setup_inv w0 sz nh w' n' \<and> kept n n'"
proof -
  obtain mbps w1 where w1: "i_get_link_speed_Mbps os (Some nh) w = Some (mbps, w1)" "same_heaps w w1"
    using link_speed_same setup_inv_at [OF assms] by blast
  have inv: "setup_inv w0 sz nh w1 n" using setup_inv_same [OF assms w1(2)] .
  then have "setup_inv w0 sz nh (set_nh nh (n\<lparr>nh_link_speed := link_speed_of mbps\<rparr>) w1) (n\<lparr>nh_link_speed := link_speed_of mbps\<rparr>)"
    by (rule setup_inv_step) (simp add: same_config_def)
  then show ?thesis using w1(1) setup_inv_at [OF inv] by (fastforce simp: kept_def)
qed

lemma ioctl_closed: "fd < 0 \<Longrightarrow> ioctl os fd q w = (None, tick w)"
  by (simp add: ioctl_def)

lemma ioctl_same: "ioctl os fd q w = (r, w') \<Longrightarrow> same_heaps w w'"
  using same_heaps_steps(2) [of w os fd q] by simp

lemma net_setup_ok:
  assumes "setup_inv w0 sz nh w n"
  shows "\<exists>r w' n'. i_nh_net_setup os (Some nh) (Some ifname) w = Some (r, w') \<and> setup_inv w0 sz nh w' n'
    \<and> nh_logger n' = nh_logger n
    \<and> (r = 0 \<longrightarrow> 0 \<le> nh_rx_sock n' \<and> nh_ifname n' = strncpy ifname (IFNAMSIZ - 1) \<and> nh_is_lo n' = is_loopback ifname)
    \<and> (calls_succeed os \<longrightarrow> ifname \<noteq> [] \<longrightarrow> r = 0)"
proof (cases "ifname = []")
  case True
  then show ?thesis using assms by (auto simp: i_nh_net_setup_def)
next
  case False
  define n1 where "n1 = n\<lparr>nh_ifname := strncpy ifname (IFNAMSIZ - 1)\<rparr>"
  define lo where "lo = is_loopback ifname"
  have "setup_inv w0 sz nh (set_nh nh n1 w) n1" using assms by (rule setup_inv_step) (simp add: n1_def same_config_def)
  moreover obtain sock w2 where sock: "nc_create_rx_sock os ifname (set_nh nh n1 w) = (sock, w2)" by fastforce
  ultimately have i2: "setup_inv w0 sz nh w2 n1" using setup_inv_same nc_create_rx_sock_same [of "set_nh nh n1 w" os ifname] by fastforce
  define n3 where "n3 = n1\<lparr>nh_rx_sock := sock\<rparr>"
  have i3: "setup_inv w0 sz nh (set_nh nh n3 w2) n3" using i2 by (rule setup_inv_step) (simp add: n3_def same_config_def)
  obtain idx w4 where idx: "ioctl os sock ''SIOCGIFINDEX'' (set_nh nh n3 w2) = (idx, w4)" by fastforce
  have i4: "setup_inv w0 sz nh w4 n3" using setup_inv_same [OF i3 ioctl_same [OF idx]] .
  note start = False assms i2 sock idx setup_inv_at [OF assms] setup_inv_at [OF i2] n1_def n3_def
  show ?thesis
  proof (cases idx)
    case None
    have "\<not> calls_succeed os"
    proof
      assume c: "calls_succeed os"
      have "0 \<le> sock" using calls_succeed_rx_sock [OF c, of ifname "set_nh nh n1 w"] sock by simp
      from calls_succeed_ioctl [OF c this] idx None show False by (metis fst_conv)
    qed
    with None show ?thesis using start i4 by (auto simp: i_nh_net_setup_def)
  next
    case (Some bs)
    then have pos: "0 \<le> sock" using idx by (auto simp: ioctl_def split: if_splits)
    define n5 where "n5 = n3\<lparr>nh_ifidx := sint (of_le bs :: u32), nh_is_lo := lo\<rparr>"
    have i5: "setup_inv w0 sz nh (set_nh nh n5 w4) n5" using i4 by (rule setup_inv_step) (simp add: n5_def same_config_def)
    note start' = start Some n5_def setup_inv_at [OF i4] lo_def
    have rx: "nh_rx_sock n5 = sock" "nh_ifname n5 = strncpy ifname (IFNAMSIZ - 1)" "nh_is_lo n5 = lo" "nh_logger n5 = nh_logger n"
      by (simp_all add: n5_def n3_def n1_def)
    show ?thesis
    proof (cases lo)
      case True
      define w6 where "w6 = (let (fl, w) = ioctl os sock ''SIOCGIFFLAGS'' (set_nh nh n5 w4)
        in if fl = None then w else snd (ioctl os sock ''SIOCSIFFLAGS'' w))"
      have "setup_inv w0 sz nh w6 n5" using i5
        by (simp add: w6_def split_beta setup_inv_def no_pipe_def ioctl_def)
      from net_setup_tail [OF this, of os] obtain w7 n7 where t: "do { (mbps, w) \<leftarrow> i_get_link_speed_Mbps os (Some nh) w6;
          w \<leftarrow> upd_nh nh (\<lambda>n. n\<lparr>nh_link_speed := link_speed_of mbps\<rparr>) w; Some (0, w) } = Some (0 :: int, w7)"
        "setup_inv w0 sz nh w7 n7" "kept n5 n7" by blast
      have "i_nh_net_setup os (Some nh) (Some ifname) w = Some (0, w7)"
        using start' True t(1) by (simp add: i_nh_net_setup_def w6_def split_beta Let_def is_loopback_strncpy split del: if_split cong: if_cong)
      with t(2,3) rx pos show ?thesis by (intro exI [of _ 0] exI [of _ w7] exI [of _ n7]) (simp add: kept_def lo_def)
    next
      case nolo: False
      obtain hw w6 where hw: "ioctl os sock ''SIOCGIFHWADDR'' (set_nh nh n5 w4) = (hw, w6)" by fastforce
      have i6: "setup_inv w0 sz nh w6 n5" using setup_inv_same [OF i5 ioctl_same [OF hw]] .
      show ?thesis
      proof (cases hw)
        case None
        then have "\<not> calls_succeed os" using hw pos calls_succeed_ioctl by (metis fst_conv)
        with None show ?thesis using start' nolo hw i6 by (auto simp: i_nh_net_setup_def is_loopback_strncpy)
      next
        case (Some mac)
        define n7 where "n7 = n5\<lparr>nh_mac := take 6 mac\<rparr>"
        have "setup_inv w0 sz nh (set_nh nh n7 w6) n7" using i6 by (rule setup_inv_step) (simp add: n7_def same_config_def)
        from net_setup_tail [OF this, of os] obtain w8 n8 where t: "do { (mbps, w) \<leftarrow> i_get_link_speed_Mbps os (Some nh) (set_nh nh n7 w6);
            w \<leftarrow> upd_nh nh (\<lambda>n. n\<lparr>nh_link_speed := link_speed_of mbps\<rparr>) w; Some (0, w) } = Some (0 :: int, w8)"
          "setup_inv w0 sz nh w8 n8" "kept n7 n8" by blast
        have "i_nh_net_setup os (Some nh) (Some ifname) w = Some (0, w8)"
          using start' nolo hw Some setup_inv_at [OF i6] t(1) by (simp add: i_nh_net_setup_def n7_def is_loopback_strncpy)
        with t(2,3) rx pos show ?thesis by (intro exI [of _ 0] exI [of _ w8] exI [of _ n8]) (simp add: kept_def lo_def n7_def)
      qed
    qed
  qed
qed

lemma start_rx_ok:
  assumes "setup_inv w0 sz nh w n"
  shows "\<exists>r w' n'. i_nh_start_rx os nh w = Some (r, w') \<and> setup_inv w0 sz nh w' n' \<and> kept n n'
    \<and> (r = 0 \<longrightarrow> nh_running n') \<and> (calls_succeed os \<longrightarrow> r = 0)"
proof -
  have i1: "setup_inv w0 sz nh (tick (set_nh nh (n\<lparr>nh_running := True\<rparr>) w)) (n\<lparr>nh_running := True\<rparr>)" (is "setup_inv _ _ _ ?w ?n")
    using setup_inv_same [OF setup_inv_step [OF assms] same_heaps_steps(1)] by (simp add: same_config_def)
  have "setup_inv w0 sz nh (set_nh nh (?n\<lparr>nh_tid := t\<rparr>) ?w) (?n\<lparr>nh_tid := t\<rparr>)"
    "setup_inv w0 sz nh (set_nh nh (?n\<lparr>nh_tid := 0, nh_running := False\<rparr>) ?w) (?n\<lparr>nh_tid := 0, nh_running := False\<rparr>)" for t
    using i1 by (rule setup_inv_step, simp add: same_config_def)+
  then show ?thesis using setup_inv_at [OF assms] setup_inv_at [OF i1]
    by (cases "os_pthread_create os (w_tick w)") (fastforce simp: i_nh_start_rx_def kept_def calls_succeed_def)+
qed

lemma rt_measures_ok:
  assumes "setup_inv w0 sz nh w n"
  shows "\<exists>r w' n'. i_nh_enable_rt_measures os nh w = Some (r, w') \<and> setup_inv w0 sz nh w' n' \<and> kept n n' \<and> nh_running n' = nh_running n"
proof -
  define fd where "fd = os_open os (w_tick w + 1) ''/dev/cpu_dma_latency''"
  have "same_heaps w (open_fd fd (tick (tick w)))" by (simp add: same_heaps_def)
  then have i1: "setup_inv w0 sz nh (open_fd fd (tick (tick w))) n" by (rule setup_inv_same [OF assms])
  have i2: "setup_inv w0 sz nh (set_nh nh (n\<lparr>nh_dma_lat_fd := fd\<rparr>) (open_fd fd (tick (tick w)))) (n\<lparr>nh_dma_lat_fd := fd\<rparr>)"
    (is "setup_inv _ _ _ ?w ?n")
    by (rule setup_inv_set [OF i1]) (use assms in \<open>simp_all add: setup_inv_def logger_ok_def\<close>)
  have "setup_inv w0 sz nh (tick ?w) ?n" by (rule setup_inv_same [OF i2 same_heaps_steps(1)])
  with i2 show ?thesis using setup_inv_at [OF i1] unfolding fd_def
    by (fastforce simp: i_nh_enable_rt_measures_def Let_def kept_def)
qed

lemma srp_init_ok:
  assumes "setup_inv w0 sz nh w n"
  shows "\<exists>ok w' n'. nc_srp_init os nh w = Some (ok, w') \<and> setup_inv w0 sz nh w' n' \<and> kept n n' \<and> nh_running n' = nh_running n
    \<and> (ok \<longrightarrow> nh_srp n' \<noteq> None) \<and> (calls_succeed os \<longrightarrow> ok)"
proof -
  have i1: "setup_inv w0 sz nh (tick w) n" using setup_inv_same [OF assms same_heaps_steps(1)] .
  define n2 where "n2 = n\<lparr>nh_srp := Some (zero_srp\<lparr>srp_prio_a := DEFAULT_CLASS_A_PRIO, srp_prio_b := DEFAULT_CLASS_B_PRIO\<rparr>),
    nh_use_srp := False\<rparr>"
  have "setup_inv w0 sz nh (set_nh nh n2 (tick w)) n2"
    by (rule setup_inv_step [OF i1]) (use assms in \<open>simp add: same_config_def n2_def setup_inv_def\<close>)
  then show ?thesis using i1 setup_inv_at [OF i1] by (fastforce simp: nc_srp_init_def n2_def kept_def calls_succeed_def)
qed

definition opened_log :: "os \<Rightarrow> string option \<Rightarrow> logc option \<Rightarrow> bool" where
  "opened_log os logfile l \<longleftrightarrow>
     (if logfile \<in> {None, Some []} then l = None else \<exists>t. l = log_create (os_log_allocs os t) logfile)"

lemma open_log_ok:
  assumes "setup_inv w0 sz nh w n" "nh_logger n = None"
  shows "\<exists>w' n'. (case logfile of
               None \<Rightarrow> Some w
             | Some f \<Rightarrow>
                 if length f > 0
                 then upd_nh nh (\<lambda>n. n\<lparr>nh_logger := log_create (os_log_allocs os (w_tick w)) logfile\<rparr>) (tick w)
                 else Some w) = Some w'
    \<and> setup_inv w0 sz nh w' n' \<and> nh_rx_sock n' = nh_rx_sock n \<and> nh_is_lo n' = nh_is_lo n \<and> nh_running n' = nh_running n
    \<and> nh_srp n' = nh_srp n \<and> nh_ifname n' = nh_ifname n \<and> opened_log os logfile (nh_logger n')"
proof -
  have i1: "setup_inv w0 sz nh (tick w) n" using setup_inv_same [OF assms(1) same_heaps_steps(1)] .
  define n2 where "n2 = n\<lparr>nh_logger := log_create (os_log_allocs os (w_tick w)) logfile\<rparr>"
  have "setup_inv w0 sz nh (set_nh nh n2 (tick w)) n2"
    by (rule setup_inv_set [OF i1])
      (use i1 in \<open>auto simp: n2_def setup_inv_def logger_ok_def dest: log_create_wf split: option.split\<close>)
  then show ?thesis using assms setup_inv_at [OF i1] by (fastforce simp: n2_def opened_log_def split: option.split)
qed

text \<open>What the caller has in the end.\<close>

definition created_handler :: "os \<Rightarrow> string option \<Rightarrow> string option \<Rightarrow> world \<Rightarrow> nat \<Rightarrow> addr option \<Rightarrow> world \<Rightarrow> bool" where
  "created_handler os ifnamep logfile w0 sz r w \<longleftrightarrow>
     (case r of
        None \<Rightarrow> w_ch w = w_ch w0 \<and> w_cb w = w_cb w0 \<and> (\<forall>a. a \<noteq> w_fresh w0 \<longrightarrow> w_nh w a = w_nh w0 a)
          \<and> w_nh w (w_fresh w0) \<in> {None, w_nh w0 (w_fresh w0)}
      | Some nh \<Rightarrow> nh = w_fresh w0 \<and> (\<exists>n ifname. setup_inv w0 sz nh w n \<and> nh_running n \<and> nh_srp n \<noteq> None \<and> 0 \<le> nh_rx_sock n
          \<and> ifnamep = Some ifname \<and> nh_ifname n = strncpy ifname (IFNAMSIZ - 1) \<and> nh_is_lo n = is_loopback ifname
          \<and> opened_log os logfile (nh_logger n) \<and> (nh_is_lo n \<or> 0 \<le> nh_ptp_fd n)))"

lemma give_up_ok:
  assumes "setup_inv w0 sz (w_fresh w0) w n"
  shows "\<exists>w'. give_up os (w_fresh w0) w = Some (None, w') \<and> created_handler os' ifnamep logfile w0 sz None w'"
  using nh_destroy_empty [OF assms, of os] by (auto simp: give_up_def created_handler_def)

text \<open>With what the set-up of the network has left.\<close>

definition set_up :: "string \<Rightarrow> nethandler \<Rightarrow> bool" where
  "set_up ifname n \<longleftrightarrow> 0 \<le> nh_rx_sock n \<and> nh_ifname n = strncpy ifname (IFNAMSIZ - 1) \<and> nh_is_lo n = is_loopback ifname"

lemma set_up_kept: "set_up ifname n \<Longrightarrow> kept n n' \<Longrightarrow> set_up ifname n'"
  by (simp add: set_up_def kept_def)

lemma create_services_ok:
  assumes "setup_inv w0 sz (w_fresh w0) w n" "nh_running n" "set_up ifname n" "nh_logger n = None"
  shows "\<exists>r w'. create_services os (w_fresh w0) ifname logfile w = Some (r, w') \<and> created_handler os (Some ifname) logfile w0 sz r w'
    \<and> (calls_succeed os \<longrightarrow> is_loopback ifname \<or> has_ptp_clock os \<longrightarrow> r \<noteq> None)"
proof -
  obtain ok w1 n1 where s1: "nc_srp_init os (w_fresh w0) w = Some (ok, w1)" "setup_inv w0 sz (w_fresh w0) w1 n1" "nh_running n1"
    "kept n n1" "ok \<Longrightarrow> nh_srp n1 \<noteq> None" "calls_succeed os \<Longrightarrow> ok"
    using srp_init_ok [OF assms(1), of os] assms(2) by auto
  have l1: "nh_logger n1 = None" "set_up ifname n1" using s1(4) assms(3,4) set_up_kept by (auto simp: kept_def)
  obtain w2 n2 where s2: "(case logfile of
               None \<Rightarrow> Some w1
             | Some f \<Rightarrow>
                 if length f > 0
                 then upd_nh (w_fresh w0) (\<lambda>n. n\<lparr>nh_logger := log_create (os_log_allocs os (w_tick w1)) logfile\<rparr>) (tick w1)
                 else Some w1) = Some w2"
      "setup_inv w0 sz (w_fresh w0) w2 n2" "nh_running n2" "set_up ifname n2" "nh_srp n2 = nh_srp n1" "opened_log os logfile (nh_logger n2)"
    using open_log_ok [OF s1(2) l1(1), of os logfile] s1(3) l1(2) unfolding set_up_def by auto
  obtain fd w3 where p: "get_ptp_fd os ifname w2 = (fd, w3)" by fastforce
  have i3: "setup_inv w0 sz (w_fresh w0) w3 n2" using setup_inv_same [OF s2(2)] get_ptp_fd_same [of w2 os ifname] p by simp
  have i4: "setup_inv w0 sz (w_fresh w0) (set_nh (w_fresh w0) (n2\<lparr>nh_ptp_fd := fd\<rparr>) w3) (n2\<lparr>nh_ptp_fd := fd\<rparr>)"
    using i3 by (rule setup_inv_step) (simp add: same_config_def)
  have fin: "created_handler os (Some ifname) logfile w0 sz (Some (w_fresh w0)) (set_nh (w_fresh w0) (n2\<lparr>nh_ptp_fd := fd\<rparr>) w3)"
    if "ok" "0 \<le> fd \<or> nh_is_lo n2" using that i4 s1(5) s2 by (auto simp: created_handler_def set_up_def intro!: exI)
  have ptp: "0 \<le> fd \<or> nh_is_lo n2" if "calls_succeed os" "is_loopback ifname \<or> has_ptp_clock os"
    using calls_succeed_ptp [of os ifname w2] that s2(4) p by (auto simp: set_up_def)
  show ?thesis
  proof (cases "ok \<and> (0 \<le> fd \<or> nh_is_lo n2)")
    case True
    then show ?thesis using fin s1(1) s2(1) p setup_inv_at [OF i3] by (auto simp: create_services_def)
  next
    case False
    then have "\<not> (calls_succeed os \<and> (is_loopback ifname \<or> has_ptp_clock os))" using s1(6) ptp by blast
    then show ?thesis
      using False give_up_ok [OF s1(2), of os os "Some ifname" logfile] give_up_ok [OF i4, of os os "Some ifname" logfile] s1(1) s2(1) p setup_inv_at [OF i3]
      by (cases ok) (auto simp: create_services_def)
  qed
qed

lemma nh_create_init_ok:
  "\<exists>r w'. nh_create_init os ifnamep hmap_size logfile w = Some (r, w') \<and> created_handler os ifnamep logfile w hmap_size r w'
    \<and> (\<forall>ifname. ifnamep = Some ifname \<longrightarrow> ifname \<noteq> [] \<longrightarrow> hmap_size \<noteq> 0 \<longrightarrow> calls_succeed os \<longrightarrow>
         is_loopback ifname \<or> has_ptp_clock os \<longrightarrow> r \<noteq> None)"
proof -
  have fail: "created_handler os ifnamep logfile w hmap_size None (tick w)" "created_handler os ifnamep logfile w hmap_size None w"
    "created_handler os ifnamep logfile w hmap_size None (tick (tick w)\<lparr>w_fresh := w_fresh w + 1\<rparr>)"
    by (simp_all add: created_handler_def)
  show ?thesis
  proof (cases "\<exists>ifname. ifnamep = Some ifname \<and> hmap_size \<noteq> 0 \<and> os_malloc os (w_tick w) \<and> os_malloc os (w_tick w + 1)")
    case False
    then show ?thesis using fail by (auto simp: nh_create_init_def Let_def calls_succeed_def split: option.split)
  next
    case True
    then obtain ifname where ok: "ifnamep = Some ifname" "hmap_size \<noteq> 0" "os_malloc os (w_tick w)" "os_malloc os (w_tick w + 1)" by blast
    define n where "n = zero_nethandler\<lparr>nh_tx_tas_sock_prio := DEFAULT_TX_TAS_SOCKET_PRIO,
      nh_tx_cbs_sock_prio := DEFAULT_TX_CBS_SOCKET_PRIO, nh_hmap := hm_alloc hmap_size\<rparr>"
    define w1 where "w1 = (set_nh (w_fresh w) n (tick (tick w)))\<lparr>w_fresh := w_fresh w + 1\<rparr>"
    have n: "nh_logger n = None" by (simp add: n_def zero_nethandler_def)
    have "setup_inv w hmap_size (w_fresh w) w1 n"
      by (simp add: setup_inv_def w1_def n_def zero_nethandler_def logger_ok_def)
    then obtain r2 w2 n2 where s2: "i_nh_net_setup os (Some (w_fresh w)) (Some ifname) w1 = Some (r2, w2)"
      "setup_inv w hmap_size (w_fresh w) w2 n2" "r2 = 0 \<Longrightarrow> set_up ifname n2" "nh_logger n2 = None"
      "calls_succeed os \<Longrightarrow> ifname \<noteq> [] \<Longrightarrow> r2 = 0" using net_setup_ok n unfolding set_up_def by metis
    obtain r3 w3 n3 where s3: "i_nh_start_rx os (w_fresh w) w2 = Some (r3, w3)" "setup_inv w hmap_size (w_fresh w) w3 n3"
      "kept n2 n3" "r3 = 0 \<Longrightarrow> nh_running n3" "calls_succeed os \<Longrightarrow> r3 = 0" using start_rx_ok [OF s2(2)] by blast
    obtain r4 w4 n4 where s4: "i_nh_enable_rt_measures os (w_fresh w) w3 = Some (r4, w4)" "setup_inv w hmap_size (w_fresh w) w4 n4"
      "kept n3 n4" "nh_running n4 = nh_running n3" using rt_measures_ok [OF s3(2)] by blast
    have n4: "nh_logger n4 = None" "r2 = 0 \<Longrightarrow> set_up ifname n4" using s2(3,4) s3(3) s4(3) set_up_kept by (auto simp: kept_def)
    have run: "nh_create_init os ifnamep hmap_size logfile w =
        (if r2 \<noteq> 0 then give_up os (w_fresh w) w2 else if r3 \<noteq> 0 then give_up os (w_fresh w) w3
         else create_services os (w_fresh w) ifname logfile w4)"
      using ok s2(1) s3(1) s4(1) by (simp add: nh_create_init_def Let_def w1_def n_def)
    show ?thesis
    proof (cases "r2 = 0 \<and> r3 = 0")
      case True
      then show ?thesis using create_services_ok [OF s4(2) _ n4(2,1), of os logfile] run s3(4) s4(4) ok(1) by auto
    next
      case False
      then have "\<not> (calls_succeed os \<and> ifname \<noteq> [])" using s2(5) s3(5) by blast
      with False show ?thesis
        using give_up_ok [OF s2(2), of os os ifnamep logfile] give_up_ok [OF s3(2), of os os ifnamep logfile] run ok(1)
        by (cases "r2 = 0") auto
    qed
  qed
qed

section \<open>Properties\<close>

text \<open>C9: \<open>nh_create_init\<close> always returns, whichever of its system calls fail and wherever.  When it returns a
  handler, that handler is the freshly allocated object: its receive thread runs on an open socket, the SRP container exists and
  SRP is not in use, it has the callback map of the requested size, all slots free, the default priorities, no channels, and a PTP clock
  unless the interface is the loopback; all other handlers, channels and callback areas are untouched.  When it returns NULL,
  the new object has been freed and no other handler, channel or callback area has changed.  (A failed attempt may leave descriptors open.)
  With a name and a size, and when no system call fails and the interface is the loopback or has a PTP clock, it does return a handler.\<close>

theorem nh_create_init_outcome:
  "\<exists>r w'. nh_create_init os ifnamep hmap_size logfile w = Some (r, w') \<and> w_ch w' = w_ch w \<and> w_cb w' = w_cb w
    \<and> (case r of
         None \<Rightarrow> w_nh w' \<in> {w_nh w, (w_nh w)(w_fresh w := None)}
       | Some nh \<Rightarrow> nh = w_fresh w \<and> (\<exists>n. w_nh w' = (w_nh w)(nh \<mapsto> n)
           \<and> nh_running n \<and> 0 \<le> nh_rx_sock n \<and> nh_srp n \<noteq> None \<and> \<not> nh_use_srp n \<and> nh_hmap n = hm_alloc hmap_size
           \<and> nh_tx_head n = None \<and> nh_rx_head n = None \<and> nh_tx_tas_sock_prio n = 3 \<and> nh_tx_cbs_sock_prio n = 2
           \<and> (nh_is_lo n \<or> 0 \<le> nh_ptp_fd n)))
    \<and> (\<forall>ifname. ifnamep = Some ifname \<longrightarrow> ifname \<noteq> [] \<longrightarrow> hmap_size \<noteq> 0 \<longrightarrow> calls_succeed os \<longrightarrow>
         is_loopback ifname \<or> has_ptp_clock os \<longrightarrow> r \<noteq> None)"
proof -
  obtain r w' where c: "nh_create_init os ifnamep hmap_size logfile w = Some (r, w')" "created_handler os ifnamep logfile w hmap_size r w'"
    "\<forall>ifname. ifnamep = Some ifname \<longrightarrow> ifname \<noteq> [] \<longrightarrow> hmap_size \<noteq> 0 \<longrightarrow> calls_succeed os \<longrightarrow>
       is_loopback ifname \<or> has_ptp_clock os \<longrightarrow> r \<noteq> None"
    using nh_create_init_ok [of os ifnamep hmap_size logfile w] by (elim exE conjE) (rule that)
  show ?thesis
  proof (intro exI [of _ r] exI [of _ w'] conjI c(1) c(3))
    show "w_ch w' = w_ch w" "w_cb w' = w_cb w" using c(2) by (cases r; force simp: created_handler_def setup_inv_def)+
    have "h' \<in> {h, h(a := None)}" if "\<forall>b. b \<noteq> a \<longrightarrow> h' b = h b" "h' a \<in> {None, h a}" for h h' :: "addr \<rightharpoonup> nethandler" and a
      using that by (auto simp: fun_eq_iff)
    with c(2) have "w_nh w' \<in> {w_nh w, (w_nh w)(w_fresh w := None)}" if "r = None"
      using that by (simp add: created_handler_def)
    with c(2) show "case r of
         None \<Rightarrow> w_nh w' \<in> {w_nh w, (w_nh w)(w_fresh w := None)}
       | Some nh \<Rightarrow> nh = w_fresh w \<and> (\<exists>n. w_nh w' = (w_nh w)(nh \<mapsto> n)
           \<and> nh_running n \<and> 0 \<le> nh_rx_sock n \<and> nh_srp n \<noteq> None \<and> \<not> nh_use_srp n \<and> nh_hmap n = hm_alloc hmap_size
           \<and> nh_tx_head n = None \<and> nh_rx_head n = None \<and> nh_tx_tas_sock_prio n = 3 \<and> nh_tx_cbs_sock_prio n = 2
           \<and> (nh_is_lo n \<or> 0 \<le> nh_ptp_fd n))"
      by (cases r) (auto simp: created_handler_def setup_inv_def DEFAULT_TX_TAS_SOCKET_PRIO_def DEFAULT_TX_CBS_SOCKET_PRIO_def)
  qed
qed

lemma demo_calls_succeed: "calls_succeed demo_os" "has_ptp_clock demo_os"
  by (simp_all add: calls_succeed_def has_ptp_clock_def demo_os_def)

theorem nh_create_init_outcome_witness:
  "\<exists>nh w' n. nh_create_init demo_os (Some ''eth0'') 17 None empty_world = Some (Some nh, w') \<and> w_nh w' nh = Some n
    \<and> nh_running n \<and> nh_hmap n = hm_alloc 17"
proof -
  from nh_create_init_outcome [of demo_os "Some ''eth0''" 17 None empty_world] obtain r w' where
    "nh_create_init demo_os (Some ''eth0'') 17 None empty_world = Some (r, w')" "r \<noteq> None"
    "case r of None \<Rightarrow> w_nh w' \<in> {w_nh empty_world, (w_nh empty_world)(w_fresh empty_world := None)}
     | Some nh \<Rightarrow> nh = w_fresh empty_world \<and> (\<exists>n. w_nh w' = (w_nh empty_world)(nh \<mapsto> n) \<and> nh_running n \<and> 0 \<le> nh_rx_sock n
         \<and> nh_srp n \<noteq> None \<and> \<not> nh_use_srp n \<and> nh_hmap n = hm_alloc 17 \<and> nh_tx_head n = None \<and> nh_rx_head n = None
         \<and> nh_tx_tas_sock_prio n = 3 \<and> nh_tx_cbs_sock_prio n = 2 \<and> (nh_is_lo n \<or> 0 \<le> nh_ptp_fd n))"
    using demo_calls_succeed by auto
  then show ?thesis by auto
qed

end
