(* ===== verification/Standalone.thy ===== *)
theory Standalone
  imports Nh_Setup
begin

text \<open>
  The interface for simple applications (\<^verbatim>\<open>src/netchan_standalone.c\<close>): one nethandler per process, kept in a static
  variable and created with the first channel, and the settings that the command line
  (\<^verbatim>\<open>src/netchan_args.c\<close>) makes before.  The static variables are a record; an operation that
  also works on the world gets both and returns both.
\<close>

section \<open>Settings\<close>

record standalone =
  sa_nh :: "addr option"
  sa_verbose :: bool
  sa_do_srp :: bool
  sa_use_tracebuffer :: bool
  sa_break_us :: int
  sa_nic :: string
  sa_logfile :: string
  sa_hmap_size :: int
  sa_tx_tas_sock_prio :: int
  sa_tx_cbs_sock_prio :: int

definition statics :: standalone where
  "statics = \<lparr>sa_nh = None, sa_verbose = False, sa_do_srp = False, sa_use_tracebuffer = False, sa_break_us = -1,
     sa_nic = '''', sa_logfile = '''', sa_hmap_size = 42,
     sa_tx_tas_sock_prio = DEFAULT_TX_TAS_SOCKET_PRIO, sa_tx_cbs_sock_prio = DEFAULT_TX_CBS_SOCKET_PRIO\<rparr>"

text \<open>The name is cut at the size of its array; copying from NULL is a fault.\<close>

definition nc_set_nic :: "string option \<Rightarrow> standalone \<Rightarrow> (int \<times> standalone) option" where
  "nc_set_nic nicp st = do { nic \<leftarrow> nicp; Some (0, st\<lparr>sa_nic := strncpy nic (IFNAMSIZ - 1)\<rparr>) }"

definition nc_set_hmap_size :: "int \<Rightarrow> standalone \<Rightarrow> standalone" where
  "nc_set_hmap_size sz st = st\<lparr>sa_hmap_size := sz\<rparr>"

definition nc_use_srp :: "standalone \<Rightarrow> standalone" where
  "nc_use_srp st = st\<lparr>sa_do_srp := True\<rparr>"

definition nc_use_ftrace :: "standalone \<Rightarrow> standalone" where
  "nc_use_ftrace st = st\<lparr>sa_use_tracebuffer := True\<rparr>"

definition nc_breakval :: "int \<Rightarrow> standalone \<Rightarrow> standalone" where
  "nc_breakval b_us st = (if b_us > 0 \<and> b_us < 1000000 then st\<lparr>sa_break_us := b_us\<rparr> else st)"

definition nc_verbose :: "standalone \<Rightarrow> standalone" where
  "nc_verbose st = st\<lparr>sa_verbose := True\<rparr>"

definition nc_set_logfile :: "string option \<Rightarrow> standalone \<Rightarrow> standalone option" where
  "nc_set_logfile logfilep st = do { logfile \<leftarrow> logfilep; Some (st\<lparr>sa_logfile := strncpy logfile 128\<rparr>) }"

definition nc_tx_sock_prio :: "int \<Rightarrow> stream_class \<Rightarrow> standalone \<Rightarrow> standalone" where
  "nc_tx_sock_prio prio sc st =
     (if prio < 0 \<or> prio > 15 then st
      else case sc of
             SC_TAS \<Rightarrow> st\<lparr>sa_tx_tas_sock_prio := prio\<rparr>
           | SC_CLASS_A \<Rightarrow> st\<lparr>sa_tx_cbs_sock_prio := prio\<rparr>
           | SC_CLASS_B \<Rightarrow> st\<lparr>sa_tx_cbs_sock_prio := prio\<rparr>
           | SC_undeclared _ \<Rightarrow> st)"

section \<open>The command line\<close>

text \<open>\<^verbatim>\<open>atoi\<close>: the number at the start of a terminated string, 0 without one.\<close>

definition atoi :: "string option \<Rightarrow> int option" where
  "atoi argp = do {
     arg \<leftarrow> argp;
     r \<leftarrow> sscanf_d (arg @ [CHR 0x00]);
     Some (case r of None \<Rightarrow> 0 | Some v \<Rightarrow> sint v)
   }"

definition parser :: "int \<Rightarrow> string option \<Rightarrow> standalone \<Rightarrow> (int \<times> standalone) option" where
  "parser key arg st =
     map_option (Pair 0)
       (if key = of_char CHR ''i'' then map_option snd (nc_set_nic arg st)
        else if key = of_char CHR ''l'' then nc_set_logfile arg st
        else if key = of_char CHR ''s'' then do { v \<leftarrow> atoi arg; Some (nc_set_hmap_size v st) }
        else if key = of_char CHR ''S'' then Some (nc_use_srp st)
        else if key = of_char CHR ''t'' then Some (nc_use_ftrace st)
        else if key = of_char CHR ''b'' then do { v \<leftarrow> atoi arg; Some (nc_breakval v st) }
        else if key = of_char CHR ''v'' then Some (nc_verbose st)
        else if key = of_char CHR ''p'' then do { v \<leftarrow> atoi arg; Some (nc_tx_sock_prio v SC_CLASS_A st) }
        else if key = of_char CHR ''P'' then do { v \<leftarrow> atoi arg; Some (nc_tx_sock_prio v SC_TAS st) }
        else Some st)"

section \<open>The handler and its channels\<close>

text \<open>The size of the hashmap is converted from \<^verbatim>\<open>int\<close> to \<^verbatim>\<open>size_t\<close>.\<close>

definition nh_create_init_standalone ::
  "os \<Rightarrow> interference \<Rightarrow> standalone \<Rightarrow> world \<Rightarrow> (int \<times> standalone \<times> world) option" where
  "nh_create_init_standalone os others st w =
     (if sa_nh st \<noteq> None then Some (0, st, w)
      else do {
        (nhp, w) \<leftarrow> nh_create_init os (Some (sa_nic st)) (nat (sa_hmap_size st mod 2 ^ 64)) (Some (sa_logfile st)) w;
        let st = st\<lparr>sa_nh := nhp\<rparr>;
        if nhp = None then Some (-1, st, w)
        else do {
          w \<leftarrow> nh_set_verbose nhp (sa_verbose st) w;
          w \<leftarrow> nh_set_srp os others nhp (sa_do_srp st) w;
          w \<leftarrow> nh_set_trace_breakval os nhp (sa_break_us st) w;
          (ok, w) \<leftarrow> nh_set_tx_prio nhp SC_TAS (sa_tx_tas_sock_prio st) w;
          if \<not> ok then Some (-1, st, w)
          else do {
            (ok, w) \<leftarrow> nh_set_tx_prio nhp SC_CLASS_A (sa_tx_cbs_sock_prio st) w;
            if \<not> ok then Some (-1, st, w) else Some (0, st, w)
          }
        }
      })"

definition chan_create_standalone ::
  "os \<Rightarrow> interference \<Rightarrow> string option \<Rightarrow> bool \<Rightarrow> channel_attrs list option \<Rightarrow> int \<Rightarrow> standalone \<Rightarrow> world
     \<Rightarrow> (addr option \<times> standalone \<times> world) option" where
  "chan_create_standalone os others namep tx_update attrsp sz st w =
     (case (namep, attrsp) of
        (Some name, Some attrs) \<Rightarrow>
          if sz \<le> 0 then Some (None, st, w)
          else do {
            idx \<leftarrow> nc_get_chan_idx name attrs sz;
            if idx < 0 then Some (None, st, w)
            else do {
              (_, st, w) \<leftarrow> nh_create_init_standalone os others st w;
              (chp, w) \<leftarrow> (if tx_update then chan_create_tx os (sa_nh st) (Some (attrs ! nat idx)) w
                         else chan_create_rx os (sa_nh st) (Some (attrs ! nat idx)) w);
              Some (chp, st, w)
            }
          }
      | _ \<Rightarrow> Some (None, st, w))"

definition nc_rx_create ::
  "os \<Rightarrow> interference \<Rightarrow> string option \<Rightarrow> channel_attrs list option \<Rightarrow> int \<Rightarrow> standalone \<Rightarrow> world
     \<Rightarrow> (int \<times> standalone \<times> world) option" where
  "nc_rx_create os others namep attrsp sz st w = do {
     (chp, st, w) \<leftarrow> chan_create_standalone os others namep False attrsp sz st w;
     (case chp of
        None \<Rightarrow> Some (-1, st, w)
      | Some ch \<Rightarrow> do { c \<leftarrow> w_ch w ch; Some (ch_fd_r c, st, w) })
   }"

definition nh_destroy_standalone :: "os \<Rightarrow> standalone \<Rightarrow> world \<Rightarrow> (standalone \<times> world) option" where
  "nh_destroy_standalone os st w =
     (if sa_nh st \<noteq> None
      then do { w \<leftarrow> nh_destroy os (Nh_local (sa_nh st)) w; Some (st\<lparr>sa_nh := None\<rparr>, w) }
      else Some (st, w))"

section \<open>Facts\<close>

lemma atoi_dec:
  assumes "n < 2 ^ 31"
  shows "atoi (Some (dec n)) = Some (int n)"
proof -
  have "sscanf_d (dec n @ CHR 0x00 # []) = Some (Some (of_nat n))"
    using assms by (intro sscanf_d_dec) (simp_all add: digit_value_def unhex_digit_def)
  moreover have "sint (of_nat n :: u32) = int n"
    using assms by (simp add: signed_of_nat signed_take_bit_int_eq_self)
  ultimately show ?thesis by (simp add: atoi_def)
qed

text \<open>The lookup in terms of the entries.\<close>

lemma nc_get_chan_idx_entry:
  "find (\<lambda>a. strncmp_eq name (a_name a) 32) attrs = Some a \<Longrightarrow>
     \<exists>i. nc_get_chan_idx name attrs (int (length attrs)) = Some (int i) \<and> attrs ! i = a"
  "find (\<lambda>a. strncmp_eq name (a_name a) 32) attrs = None \<Longrightarrow> nc_get_chan_idx name attrs (int (length attrs)) = Some (-1)"
  by (auto simp: nc_get_chan_idx_find find_map_upt [of _ attrs] split: option.splits)

text \<open>The handler after the settings have been made: a refused priority ends them.\<close>

definition prio_ok :: "int \<Rightarrow> bool" where
  "prio_ok p \<longleftrightarrow> 0 \<le> p \<and> p \<le> 8"

definition with_settings :: "os \<Rightarrow> standalone \<Rightarrow> nethandler \<Rightarrow> nethandler" where
  "with_settings os st n =
     (let n = n\<lparr>nh_verbose := sa_verbose st, nh_use_srp := False, nh_ftrace_break_us := sa_break_us st,
                nh_tb := nh_tb n \<or> os_fopen os ''/sys/kernel/tracing/trace_marker''\<rparr>
      in if \<not> prio_ok (sa_tx_tas_sock_prio st) then n
         else
           let n = n\<lparr>nh_tx_tas_sock_prio := sa_tx_tas_sock_prio st\<rparr>
           in if \<not> prio_ok (sa_tx_cbs_sock_prio st) then n else n\<lparr>nh_tx_cbs_sock_prio := sa_tx_cbs_sock_prio st\<rparr>)"

definition sa_create :: "os \<Rightarrow> standalone \<Rightarrow> world \<Rightarrow> (addr option \<times> world) option" where
  "sa_create os st w = nh_create_init os (Some (sa_nic st)) (nat (sa_hmap_size st mod 2 ^ 64)) (Some (sa_logfile st)) w"

lemma nh_set_tx_prio_empty:
  assumes "w_nh w nh = Some n" "nh_tx_head n = None"
  shows "nh_set_tx_prio (Some nh) SC_TAS p w = Some (prio_ok p, if prio_ok p then set_nh nh (n\<lparr>nh_tx_tas_sock_prio := p\<rparr>) w else w)"
    "nh_set_tx_prio (Some nh) SC_CLASS_A p w = Some (prio_ok p, if prio_ok p then set_nh nh (n\<lparr>nh_tx_cbs_sock_prio := p\<rparr>) w else w)"
  using assms by (simp_all add: nh_set_tx_prio_def prio_ok_def)

lemma nh_set_trace_breakval_any:
  assumes "w_nh w nh = Some n"
  shows "nh_set_trace_breakval os (Some nh) b w = Some (set_nh nh (n\<lparr>nh_ftrace_break_us := b,
    nh_tb := nh_tb n \<or> os_fopen os ''/sys/kernel/tracing/trace_marker''\<rparr>) w)"
  using assms by (cases n) (auto simp: nh_set_trace_breakval_def nh_enable_ftrace_def)

lemma sa_create_handler:
  assumes "sa_create os st w = Some (Some nh, w1)"
  shows "nh = w_fresh w \<and> (\<exists>n. setup_inv w (nat (sa_hmap_size st mod 2 ^ 64)) nh w1 n \<and> nh_running n \<and> nh_srp n \<noteq> None
    \<and> 0 \<le> nh_rx_sock n \<and> nh_ifname n = strncpy (sa_nic st) (IFNAMSIZ - 1) \<and> opened_log os (Some (sa_logfile st)) (nh_logger n))"
proof -
  obtain r w' where c: "nh_create_init os (Some (sa_nic st)) (nat (sa_hmap_size st mod 2 ^ 64)) (Some (sa_logfile st)) w = Some (r, w')"
    "created_handler os (Some (sa_nic st)) (Some (sa_logfile st)) w (nat (sa_hmap_size st mod 2 ^ 64)) r w'"
    using nh_create_init_ok [of os "Some (sa_nic st)" "nat (sa_hmap_size st mod 2 ^ 64)" "Some (sa_logfile st)" w]
    by (elim exE conjE) (rule that)
  with assms have "r = Some nh" "w' = w1" by (simp_all add: sa_create_def)
  with c(2) show ?thesis by (auto simp: created_handler_def)
qed

lemma standalone_init:
  assumes "sa_nh st = None" "\<not> sa_do_srp st" "sa_create os st w = Some (Some nh, w1)" "w_nh w1 nh = Some n"
  shows "nh_create_init_standalone os others st w =
    Some (if prio_ok (sa_tx_tas_sock_prio st) \<and> prio_ok (sa_tx_cbs_sock_prio st) then 0 else -1,
      st\<lparr>sa_nh := Some nh\<rparr>, set_nh nh (with_settings os st n) w1)"
proof -
  have "nh_tx_head n = None" "\<not> nh_use_srp n" using sa_create_handler [OF assms(3)] assms(4) by (auto simp: setup_inv_def)
  then show ?thesis using assms
    by (simp add: nh_create_init_standalone_def sa_create_def nh_set_verbose_def nh_set_srp_def nh_set_trace_breakval_any
        nh_set_tx_prio_empty with_settings_def Let_def)
qed

lemma standalone_init_again: "sa_nh st \<noteq> None \<Longrightarrow> nh_create_init_standalone os others st w = Some (0, st, w)"
  by (simp add: nh_create_init_standalone_def)

text \<open>The calls of the parser that \<^verbatim>\<open>GET_ARGS\<close> makes, one for each option of the command line, and the numbers and
  strings given with an option.\<close>

fun run_options :: "(int \<times> string option) list \<Rightarrow> standalone \<Rightarrow> standalone option" where
  "run_options [] st = Some st"
| "run_options ((key, arg) # opts) st = do { (_, st) \<leftarrow> parser key arg st; run_options opts st }"

fun given :: "char \<Rightarrow> (int \<times> string option) list \<Rightarrow> string list" where
  "given c [] = []"
| "given c ((key, arg) # opts) = (if key = of_char c then the arg # given c opts else given c opts)"

definition numbers :: "char \<Rightarrow> (int \<Rightarrow> bool) \<Rightarrow> (int \<times> string option) list \<Rightarrow> int list" where
  "numbers c ok opts = filter ok (map (\<lambda>s. the (atoi (Some s))) (given c opts))"

lemma numbers_simps [simp]:
  "numbers c ok [] = []"
  "numbers c ok ((key, arg) # opts) =
     (if key = of_char c \<and> ok (the (atoi (Some (the arg)))) then the (atoi (Some (the arg))) # numbers c ok opts else numbers c ok opts)"
  by (simp_all add: numbers_def)

lemma atoi_None [simp]: "atoi None = None"
  by (simp add: atoi_def)

lemmas setting_defs = parser_def nc_set_nic_def nc_set_hmap_size_def nc_use_srp_def nc_use_ftrace_def nc_breakval_def nc_verbose_def
  nc_set_logfile_def nc_tx_sock_prio_def

text \<open>One call of the parser.\<close>

lemma parser_step:
  assumes "parser key arg st = Some (r, st')"
  shows "sa_tx_cbs_sock_prio st' = last (sa_tx_cbs_sock_prio st # numbers (CHR ''p'') (\<lambda>v. 0 \<le> v \<and> v \<le> 15) [(key, arg)])"
    "sa_tx_tas_sock_prio st' = last (sa_tx_tas_sock_prio st # numbers (CHR ''P'') (\<lambda>v. 0 \<le> v \<and> v \<le> 15) [(key, arg)])"
    "sa_break_us st' = last (sa_break_us st # numbers (CHR ''b'') (\<lambda>v. 0 < v \<and> v < 1000000) [(key, arg)])"
    "sa_nic st' = last (sa_nic st # map (\<lambda>s. strncpy s 15) (given (CHR ''i'') [(key, arg)]))"
    "sa_do_srp st' = (sa_do_srp st \<or> given (CHR ''S'') [(key, arg)] \<noteq> [])"
    "sa_verbose st' = (sa_verbose st \<or> given (CHR ''v'') [(key, arg)] \<noteq> [])" "sa_nh st' = sa_nh st"
    "sa_logfile st' = last (sa_logfile st # map (\<lambda>s. strncpy s 128) (given (CHR ''l'') [(key, arg)]))"
    "sa_hmap_size st' = last (sa_hmap_size st # numbers (CHR ''s'') (\<lambda>_. True) [(key, arg)])"
  subgoal using assms by (cases arg; cases st) (auto simp: setting_defs bind_Some_iff split: if_splits)
  subgoal using assms by (cases arg; cases st) (auto simp: setting_defs bind_Some_iff split: if_splits)
  subgoal using assms by (cases arg; cases st) (auto simp: setting_defs bind_Some_iff split: if_splits)
  subgoal using assms by (auto simp: setting_defs bind_Some_iff IFNAMSIZ_def split: if_splits)
  subgoal using assms by (auto simp: setting_defs bind_Some_iff split: if_splits)
  subgoal using assms by (auto simp: setting_defs bind_Some_iff split: if_splits)
  subgoal using assms by (auto simp: setting_defs bind_Some_iff split: if_splits)
  subgoal using assms by (auto simp: setting_defs bind_Some_iff split: if_splits)
  subgoal using assms by (cases arg; cases st) (auto simp: setting_defs bind_Some_iff split: if_splits)
  done

lemma last_settings:
  assumes "\<And>key arg st r st'. parser key arg st = Some (r, st') \<Longrightarrow> f st' = last (f st # g [(key, arg)])"
    and "\<And>op opts. g (op # opts) = g [op] @ g opts" "g [] = []" "run_options opts st = Some st'"
  shows "f st' = last (f st # g opts)"
  using assms(4)
proof (induction opts st rule: run_options.induct)
  case (2 key arg opts st)
  then obtain r st1 where "parser key arg st = Some (r, st1)" "run_options opts st1 = Some st'" by (auto simp: bind_Some_iff)
  with "2.IH" [of "(r, st1)" r st1] assms(1) [of key arg st r st1] assms(2) [of "(key, arg)" opts] show ?case
    by (simp split: if_splits)
qed (simp add: assms(3))

lemma numbers_Cons: "numbers c ok (op # opts) = numbers c ok [op] @ numbers c ok opts"
  by (cases op) simp

lemma given_Cons: "given c (op # opts) = given c [op] @ given c opts"
  by (cases op) simp

lemma last_flag: "last (b # map (\<lambda>_. True) xs) = (b \<or> xs \<noteq> [])"
  by (induction xs arbitrary: b) auto

lemma last_ok: "\<forall>v \<in> set (x # xs). P v \<Longrightarrow> P (last (x # xs))"
  using last_in_set [of "x # xs"] by blast

lemma run_options_settings:
  assumes "run_options opts st = Some st'"
  shows "sa_tx_cbs_sock_prio st' = last (sa_tx_cbs_sock_prio st # numbers (CHR ''p'') (\<lambda>v. 0 \<le> v \<and> v \<le> 15) opts)"
    "sa_tx_tas_sock_prio st' = last (sa_tx_tas_sock_prio st # numbers (CHR ''P'') (\<lambda>v. 0 \<le> v \<and> v \<le> 15) opts)"
    "sa_break_us st' = last (sa_break_us st # numbers (CHR ''b'') (\<lambda>v. 0 < v \<and> v < 1000000) opts)"
    "sa_nic st' = last (sa_nic st # map (\<lambda>s. strncpy s 15) (given (CHR ''i'') opts))"
    "sa_do_srp st' = (sa_do_srp st \<or> given (CHR ''S'') opts \<noteq> [])"
    "sa_verbose st' = (sa_verbose st \<or> given (CHR ''v'') opts \<noteq> [])"
    "sa_nh st' = sa_nh st"
    "sa_logfile st' = last (sa_logfile st # map (\<lambda>s. strncpy s 128) (given (CHR ''l'') opts))"
    "sa_hmap_size st' = last (sa_hmap_size st # numbers (CHR ''s'') (\<lambda>_. True) opts)"
proof -
  have g: "map f (given c (op # opts)) = map f (given c [op]) @ map f (given c opts)" for f :: "string \<Rightarrow> 'x" and c op opts
    by (subst given_Cons) simp
  show "sa_tx_cbs_sock_prio st' = last (sa_tx_cbs_sock_prio st # numbers (CHR ''p'') (\<lambda>v. 0 \<le> v \<and> v \<le> 15) opts)"
    by (rule last_settings [where f = sa_tx_cbs_sock_prio, OF parser_step(1) numbers_Cons numbers_simps(1) assms])
  show "sa_tx_tas_sock_prio st' = last (sa_tx_tas_sock_prio st # numbers (CHR ''P'') (\<lambda>v. 0 \<le> v \<and> v \<le> 15) opts)"
    by (rule last_settings [where f = sa_tx_tas_sock_prio, OF parser_step(2) numbers_Cons numbers_simps(1) assms])
  show "sa_break_us st' = last (sa_break_us st # numbers (CHR ''b'') (\<lambda>v. 0 < v \<and> v < 1000000) opts)"
    by (rule last_settings [where f = sa_break_us, OF parser_step(3) numbers_Cons numbers_simps(1) assms])
  show "sa_nic st' = last (sa_nic st # map (\<lambda>s. strncpy s 15) (given (CHR ''i'') opts))"
    by (rule last_settings [where f = sa_nic and g = "\<lambda>opts. map (\<lambda>s. strncpy s 15) (given (CHR ''i'') opts)", OF parser_step(4) g _ assms]) simp_all
  have "sa_do_srp st' = last (sa_do_srp st # map (\<lambda>_. True) (given (CHR ''S'') opts))"
    by (rule last_settings [where f = sa_do_srp and g = "\<lambda>opts. map (\<lambda>_. True) (given (CHR ''S'') opts)", OF _ g _ assms])
      (simp_all add: last_flag parser_step(5) del: given.simps(2) last.simps)
  then show "sa_do_srp st' = (sa_do_srp st \<or> given (CHR ''S'') opts \<noteq> [])" by (simp only: last_flag)
  have "sa_verbose st' = last (sa_verbose st # map (\<lambda>_. True) (given (CHR ''v'') opts))"
    by (rule last_settings [where f = sa_verbose and g = "\<lambda>opts. map (\<lambda>_. True) (given (CHR ''v'') opts)", OF _ g _ assms])
      (simp_all add: last_flag parser_step(6) del: given.simps(2) last.simps)
  then show "sa_verbose st' = (sa_verbose st \<or> given (CHR ''v'') opts \<noteq> [])" by (simp only: last_flag)
  show "sa_nh st' = sa_nh st" using last_settings [where f = sa_nh and g = "\<lambda>_. []", OF _ _ _ assms] parser_step(7) by simp
  show "sa_logfile st' = last (sa_logfile st # map (\<lambda>s. strncpy s 128) (given (CHR ''l'') opts))"
    by (rule last_settings [where f = sa_logfile and g = "\<lambda>opts. map (\<lambda>s. strncpy s 128) (given (CHR ''l'') opts)", OF parser_step(8) g _ assms])
      simp_all
  show "sa_hmap_size st' = last (sa_hmap_size st # numbers (CHR ''s'') (\<lambda>_. True) opts)"
    by (rule last_settings [where f = sa_hmap_size, OF parser_step(9) numbers_Cons numbers_simps(1) assms])
qed

section \<open>Properties\<close>

text \<open>A handler on the loopback interface.\<close>

definition lo_settings :: standalone where
  "lo_settings = statics\<lparr>sa_nic := ''lo''\<rparr>"

lemma lo_create:
  "\<exists>w1 n. sa_create demo_os lo_settings empty_world = Some (Some 100, w1) \<and> w_nh w1 100 = Some n \<and> nh_link_speed n = 1000000000
    \<and> nh_logger n = None"
  by (simp add: sa_create_def lo_settings_def statics_def nh_create_init_def empty_world_def demo_os_def Let_def i_nh_net_setup_def
      nc_create_rx_sock_def ioctl_def open_fd_def IFNAMSIZ_def strncpy_def strncmp_eq_def i_get_link_speed_Mbps_def link_speed_of_def
      i_nh_start_rx_def i_nh_enable_rt_measures_def create_services_def nc_srp_init_def get_ptp_fd_def tick_def log_create_def zero_nethandler_def)

text \<open>C31: From the command line to the handler.  When the options of the command line have been parsed, without \<^verbatim>\<open>-S\<close>, and the handler can be
  created, \<open>nh_create_init_standalone\<close> leaves a handler with exactly these settings, each from the last option with an
  acceptable value, or the default: the interface of \<^verbatim>\<open>-i\<close>, cut to 15 characters; a log in the file of \<^verbatim>\<open>-l\<close>, cut to 128, or none; a callback map of the size
  of \<^verbatim>\<open>-s\<close>, converted to 64 bits, or 42; the break value of \<^verbatim>\<open>-b\<close>; verbose when \<^verbatim>\<open>-v\<close> was given.  Of the priorities, 0 to 15 are accepted by the parser
  (\<^verbatim>\<open>-P\<close> for TAS, \<^verbatim>\<open>-p\<close> for CBS) but only up to 8 by the handler: a TAS priority above 8 leaves both defaults, a CBS priority above 8 leaves the default
  for CBS, and in these cases the call returns -1, otherwise 0.  \<^verbatim>\<open>-t\<close> has no effect on the result or the handler.  Any further call returns 0 and changes nothing.\<close>

theorem command_line_configures_handler:
  assumes "run_options opts statics = Some st" "given (CHR ''S'') opts = []" "sa_create os st w = Some (Some nh, w1)"
    and tas: "tas = last (3 # numbers (CHR ''P'') (\<lambda>v. 0 \<le> v \<and> v \<le> 15) opts)"
    and cbs: "cbs = last (2 # numbers (CHR ''p'') (\<lambda>v. 0 \<le> v \<and> v \<le> 15) opts)"
  shows "\<exists>r st' w' n. nh_create_init_standalone os others st w = Some (r, st', w') \<and> r = (if tas \<le> 8 \<and> cbs \<le> 8 then 0 else -1)
    \<and> sa_nh st' = Some nh \<and> nh_create_init_standalone os others st' w' = Some (0, st', w') \<and> w_nh w' nh = Some n \<and> \<not> nh_use_srp n
    \<and> nh_tx_tas_sock_prio n = (if tas \<le> 8 then tas else 3) \<and> nh_tx_cbs_sock_prio n = (if tas \<le> 8 \<and> cbs \<le> 8 then cbs else 2)
    \<and> nh_ifname n = last ('''' # map (\<lambda>s. strncpy s 15) (given (CHR ''i'') opts))
    \<and> opened_log os (Some (last ('''' # map (\<lambda>s. strncpy s 128) (given (CHR ''l'') opts)))) (nh_logger n)
    \<and> nh_hmap n = hm_alloc (nat (last (42 # numbers (CHR ''s'') (\<lambda>_. True) opts) mod 2 ^ 64))
    \<and> nh_ftrace_break_us n = last (-1 # numbers (CHR ''b'') (\<lambda>v. 0 < v \<and> v < 1000000) opts)
    \<and> nh_verbose n = (given (CHR ''v'') opts \<noteq> [])
    \<and> (\<forall>b. nh_create_init_standalone os others (st\<lparr>sa_use_tracebuffer := b\<rparr>) w = Some (r, st'\<lparr>sa_use_tracebuffer := b\<rparr>, w'))"
proof -
  note set = run_options_settings [OF assms(1)]
  have vals: "sa_tx_cbs_sock_prio st = cbs" "sa_tx_tas_sock_prio st = tas" "\<not> sa_do_srp st" "sa_nh st = None"
    "sa_break_us st = last (-1 # numbers (CHR ''b'') (\<lambda>v. 0 < v \<and> v < 1000000) opts)" "sa_verbose st = (given (CHR ''v'') opts \<noteq> [])"
    "sa_nic st = last ('''' # map (\<lambda>s. strncpy s 15) (given (CHR ''i'') opts))"
    "sa_logfile st = last ('''' # map (\<lambda>s. strncpy s 128) (given (CHR ''l'') opts))"
    "sa_hmap_size st = last (42 # numbers (CHR ''s'') (\<lambda>_. True) opts)"
    using set assms(2) by (simp_all only: statics_def standalone.simps DEFAULT_TX_TAS_SOCKET_PRIO_def DEFAULT_TX_CBS_SOCKET_PRIO_def tas cbs
        simp_thms)
  have r: "\<forall>v \<in> set (x # numbers c (\<lambda>v. 0 \<le> v \<and> v \<le> 15) opts). 0 \<le> v" if "0 \<le> x" for x c using that by (auto simp: numbers_def)
  have pos: "0 \<le> tas" "0 \<le> cbs" unfolding tas cbs by (rule last_ok [OF r]; simp)+
  obtain n where n: "w_nh w1 nh = Some n" "nh_ifname n = strncpy (sa_nic st) (IFNAMSIZ - 1)" "opened_log os (Some (sa_logfile st)) (nh_logger n)"
    "nh_hmap n = hm_alloc (nat (sa_hmap_size st mod 2 ^ 64))" "nh_tx_tas_sock_prio n = 3" "nh_tx_cbs_sock_prio n = 2"
    using sa_create_handler [OF assms(3)]
    by (auto simp: setup_inv_def DEFAULT_TX_TAS_SOCKET_PRIO_def DEFAULT_TX_CBS_SOCKET_PRIO_def)
  have "\<forall>s \<in> set ('''' # map (\<lambda>s. strncpy s 15) (given (CHR ''i'') opts)). strncpy s (IFNAMSIZ - 1) = s"
    by (auto simp: strncpy_def IFNAMSIZ_def)
  from last_ok [OF this] have nic: "strncpy (sa_nic st) (IFNAMSIZ - 1) = sa_nic st" unfolding vals(7) .
  let ?n = "with_settings os st n" and ?r = "if tas \<le> 8 \<and> cbs \<le> 8 then 0 else -1 :: int"
  let ?w = "set_nh nh ?n w1"
  have run: "nh_create_init_standalone os others (st\<lparr>sa_use_tracebuffer := b\<rparr>) w = Some (?r, (st\<lparr>sa_nh := Some nh\<rparr>)\<lparr>sa_use_tracebuffer := b\<rparr>, ?w)" for b
  proof -
    let ?st = "st\<lparr>sa_use_tracebuffer := b\<rparr>"
    have "sa_create os ?st w = Some (Some nh, w1)" "sa_nh ?st = None" "\<not> sa_do_srp ?st" "with_settings os ?st n = ?n"
      using assms(3) vals(3,4) by (simp_all add: sa_create_def with_settings_def Let_def)
    from standalone_init [OF this(2,3,1) n(1), of others] this(4) vals(1,2) pos show ?thesis by (simp add: prio_ok_def)
  qed
  have same: "st\<lparr>sa_use_tracebuffer := sa_use_tracebuffer st\<rparr> = st" "(st\<lparr>sa_nh := Some nh\<rparr>)\<lparr>sa_use_tracebuffer := sa_use_tracebuffer st\<rparr> = st\<lparr>sa_nh := Some nh\<rparr>"
    by simp_all
  have first: "nh_create_init_standalone os others st w = Some (?r, st\<lparr>sa_nh := Some nh\<rparr>, ?w)"
    using run [of "sa_use_tracebuffer st"] unfolding same .
  have again: "nh_create_init_standalone os others (st\<lparr>sa_nh := Some nh\<rparr>) ?w = Some (0, st\<lparr>sa_nh := Some nh\<rparr>, ?w)"
    by (rule standalone_init_again) simp
  have prio: "nh_tx_tas_sock_prio ?n = (if tas \<le> 8 then tas else 3)" "nh_tx_cbs_sock_prio ?n = (if tas \<le> 8 \<and> cbs \<le> 8 then cbs else 2)"
    using n(5,6) vals(1,2) pos by (simp_all add: with_settings_def prio_ok_def Let_def)
  have rest: "nh_ifname ?n = nh_ifname n" "nh_logger ?n = nh_logger n" "nh_hmap ?n = nh_hmap n" "nh_ftrace_break_us ?n = sa_break_us st"
    "nh_verbose ?n = sa_verbose st" "\<not> nh_use_srp ?n" by (simp_all add: with_settings_def Let_def)
  show ?thesis
    by (rule exI [of _ ?r], rule exI [of _ "st\<lparr>sa_nh := Some nh\<rparr>"], rule exI [of _ ?w], rule exI [of _ ?n])
      (simp only: first again run prio rest n(2-4) nic vals(5-9) [symmetric] simp_thms, simp)
qed

theorem command_line_configures_handler_witness:
  "\<exists>st' w' n. nh_create_init_standalone demo_os (\<lambda>_. Some) (lo_settings\<lparr>sa_tx_cbs_sock_prio := 5, sa_verbose := True\<rparr>) empty_world = Some (0, st', w')
    \<and> w_nh w' 100 = Some n \<and> nh_tx_cbs_sock_prio n = 5 \<and> nh_tx_tas_sock_prio n = 3 \<and> nh_verbose n \<and> nh_ifname n = ''lo'' \<and> nh_logger n = None"
proof -
  let ?opts = "[(105, Some ''lo''), (112, Some (dec 5)), (118, None), (112, Some (dec 16))] :: (int \<times> string option) list"
  let ?st = "lo_settings\<lparr>sa_tx_cbs_sock_prio := 5, sa_verbose := True\<rparr>"
  have p: "run_options ?opts statics = Some ?st"
    by (simp add: setting_defs lo_settings_def statics_def atoi_dec IFNAMSIZ_def strncpy_def del: dec.simps)
  have "sa_create demo_os ?st empty_world = sa_create demo_os lo_settings empty_world" by (simp add: sa_create_def)
  then obtain w1 where c: "sa_create demo_os ?st empty_world = Some (Some 100, w1)" using lo_create by auto
  show ?thesis using command_line_configures_handler [OF p _ c refl refl, of "\<lambda>_. Some"]
    by (auto simp: atoi_dec strncpy_def opened_log_def simp del: dec.simps)
qed

text \<open>A priority of 9 to 15 is accepted as a setting but refused by the handler.  The first call of
  \<open>nh_create_init_standalone\<close> then returns -1, although the handler exists; it keeps the default priorities of both shapers, whatever
  was set for CBS; every later call returns 0.\<close>

lemma refused_priority_reported_once:
  assumes "sa_nh st = None" "\<not> sa_do_srp st" "sa_create os st w = Some (Some nh, w1)" "8 < p" "p \<le> 15"
  shows "\<exists>st' w' n. nh_create_init_standalone os others (nc_tx_sock_prio p SC_TAS st) w = Some (-1, st', w')
    \<and> nh_create_init_standalone os others st' w' = Some (0, st', w')
    \<and> sa_nh st' = Some nh \<and> w_nh w' nh = Some n \<and> nh_tx_tas_sock_prio n = 3 \<and> nh_tx_cbs_sock_prio n = 2"
proof -
  let ?st = "nc_tx_sock_prio p SC_TAS st"
  have st: "?st = st\<lparr>sa_tx_tas_sock_prio := p\<rparr>" using assms(4,5) by (simp add: nc_tx_sock_prio_def)
  then have c: "sa_nh ?st = None" "\<not> sa_do_srp ?st" "sa_create os ?st w = Some (Some nh, w1)" using assms by (simp_all add: sa_create_def)
  obtain n where n: "w_nh w1 nh = Some n" "nh_tx_tas_sock_prio n = 3" "nh_tx_cbs_sock_prio n = 2"
    using sa_create_handler [OF c(3)]
    by (auto simp: setup_inv_def DEFAULT_TX_TAS_SOCKET_PRIO_def DEFAULT_TX_CBS_SOCKET_PRIO_def)
  then show ?thesis using standalone_init [OF c n(1), of others] st assms(4)
    by (simp add: standalone_init_again with_settings_def prio_ok_def Let_def)
qed

text \<open>The first channel of a process, a talker by name.\<close>

lemma standalone_new_talker:
  assumes "sa_nh st = None" "\<not> sa_do_srp st" "sa_create os st w = Some (Some nh, w1)" "w_nh w1 nh = Some n" "os_good os" "heap_ok w"
    and "i_valid_size (a_size a)" "i_valid_interval (nh_link_speed n) (a_interval_ns a) (a_size a) = Some True" "a_stream_id a \<noteq> 0"
      "\<forall>x. a_sc a \<noteq> SC_undeclared x"
    and "find (\<lambda>a. strncmp_eq name (a_name a) 32) attrs = Some a"
  shows "\<exists>ch w' c n'. chan_create_standalone os others (Some name) True (Some attrs) (int (length attrs)) st w
        = Some (Some ch, st\<lparr>sa_nh := Some nh\<rparr>, w')
      \<and> tx_chans w' nh [ch] (Some ch) \<and> live w' ch c nh n' \<and> valid_state c n' \<and> new_talker os a c \<and> nh_logger n' = nh_logger n"
proof -
  have len: "0 < int (length attrs)" using assms(11) by (cases attrs) auto
  obtain i where i: "nc_get_chan_idx name attrs (int (length attrs)) = Some (int i)" "attrs ! i = a"
    using nc_get_chan_idx_entry(1) [OF assms(11)] by blast
  let ?w = "set_nh nh (with_settings os st n) w1" and ?n = "with_settings os st n"
  obtain s where inv: "setup_inv w (nat (sa_hmap_size st mod 2 ^ 64)) nh w1 n" "nh_srp n = Some s" "0 \<le> nh_rx_sock n" "nh = w_fresh w"
    using sa_create_handler [OF assms(3)] assms(4) setup_inv_at by fastforce
  have set: "nh_srp ?n = nh_srp n" "\<not> nh_use_srp ?n" "nh_rx_sock ?n = nh_rx_sock n" "nh_link_speed ?n = nh_link_speed n" "nh_tx_head ?n = nh_tx_head n"
    "nh_tx_tail ?n = nh_tx_tail n" "nh_logger ?n = nh_logger n" by (simp_all add: with_settings_def Let_def)
  have "heap_ok ?w" "tx_chans ?w nh [] None" using inv(1) assms(6) set by (auto simp: setup_inv_def heap_ok_def tx_chans_def)
  moreover have "w_nh ?w nh = Some ?n" "tail_ok [] (None :: addr option)" by (simp_all add: tail_ok_def)
  ultimately obtain ch w' c h where ch: "chan_create_tx os (Some nh) (Some a) ?w = Some (Some ch, w')" "tx_chans w' nh [ch] (Some ch)"
    "w_ch w' ch = Some c" "ch_nh c = Some nh" "w_nh w' nh = Some (?n\<lparr>nh_tx_head := h, nh_tx_tail := Some ch\<rparr>)" "valid_state c ?n" "new_talker os a c"
    using chan_create_tx_new [of ?w nh ?n s os "[]" None a] set inv(2,3) assms(5,7-10) by auto
  let ?n' = "?n\<lparr>nh_tx_head := h, nh_tx_tail := Some ch\<rparr>"
  have "live w' ch c nh ?n'" "valid_state c ?n'" "nh_logger ?n' = nh_logger n" using ch(3-6) set(7) by (simp_all add: live_def valid_state_def)
  moreover have "chan_create_standalone os others (Some name) True (Some attrs) (int (length attrs)) st w
      = Some (Some ch, st\<lparr>sa_nh := Some nh\<rparr>, w')"
    using i len ch(1) standalone_init [OF assms(1-4), of others] by (auto simp: chan_create_standalone_def)
  ultimately show ?thesis using ch(2,7) by blast
qed

text \<open>C32: A talker by its name in the manifest.  With the first channel of a process the handler is created with the settings; the
  channel returned is valid, is the only one in the Tx list, and has the stream id, size and period of the first entry of the
  manifest whose name agrees in 32 characters.  A name that is not in the manifest gives NULL, and then nothing is created at all.\<close>

theorem standalone_talker_by_name:
  assumes "sa_nh st = None" "\<not> sa_do_srp st" "sa_create os st w = Some (Some nh, w1)" "w_nh w1 nh = Some n" "os_good os" "heap_ok w"
    and "i_valid_size (a_size a)" "i_valid_interval (nh_link_speed n) (a_interval_ns a) (a_size a) = Some True" "a_stream_id a \<noteq> 0"
      "\<forall>x. a_sc a \<noteq> SC_undeclared x"
    and "find (\<lambda>a. strncmp_eq name (a_name a) 32) attrs = Some a" "find (\<lambda>a. strncmp_eq name' (a_name a) 32) attrs = None"
  shows "chan_create_standalone os others (Some name') True (Some attrs) (int (length attrs)) st w = Some (None, st, w)
    \<and> (\<exists>ch w' c. chan_create_standalone os others (Some name) True (Some attrs) (int (length attrs)) st w
          = Some (Some ch, st\<lparr>sa_nh := Some nh\<rparr>, w')
        \<and> chan_valid w' (Some ch) = Some True \<and> tx_chans w' nh [ch] (Some ch) \<and> w_ch w' ch = Some c
        \<and> ch_sidw c = a_stream_id a \<and> ch_payload_size c = a_size a \<and> ch_interval_ns c = a_interval_ns a)"
proof
  have len: "0 < int (length attrs)" using assms(11) by (cases attrs) auto
  then show "chan_create_standalone os others (Some name') True (Some attrs) (int (length attrs)) st w = Some (None, st, w)"
    using nc_get_chan_idx_entry(2) [OF assms(12)] by (simp add: chan_create_standalone_def)
  obtain ch w' c n' where "chan_create_standalone os others (Some name) True (Some attrs) (int (length attrs)) st w
      = Some (Some ch, st\<lparr>sa_nh := Some nh\<rparr>, w')" "tx_chans w' nh [ch] (Some ch)" "live w' ch c nh n'" "valid_state c n'" "new_talker os a c"
    using standalone_new_talker [OF assms(1-11)] by blast
  moreover from this have "chan_valid w' (Some ch) = Some True" "w_ch w' ch = Some c" using chan_valid_live [of w' ch c nh n'] by (simp_all add: live_def)
  ultimately show "\<exists>ch w' c. chan_create_standalone os others (Some name) True (Some attrs) (int (length attrs)) st w
          = Some (Some ch, st\<lparr>sa_nh := Some nh\<rparr>, w')
        \<and> chan_valid w' (Some ch) = Some True \<and> tx_chans w' nh [ch] (Some ch) \<and> w_ch w' ch = Some c
        \<and> ch_sidw c = a_stream_id a \<and> ch_payload_size c = a_size a \<and> ch_interval_ns c = a_interval_ns a"
    by (auto simp: new_talker_def)
qed

theorem standalone_talker_by_name_witness:
  "\<exists>ch w'. chan_create_standalone demo_os (\<lambda>_. Some) (Some ''mcast'') True (Some [demo_attrs]) 1 lo_settings empty_world
      = Some (Some ch, lo_settings\<lparr>sa_nh := Some 100\<rparr>, w')
    \<and> chan_valid w' (Some ch) = Some True"
proof -
  obtain w1 n where c: "sa_create demo_os lo_settings empty_world = Some (Some 100, w1)" "w_nh w1 100 = Some n" "nh_link_speed n = 1000000000"
    using lo_create by blast
  have "heap_ok empty_world" "sa_nh lo_settings = None" "\<not> sa_do_srp lo_settings" "nh_link_speed idle_nh = 1000000000"
    by (simp_all add: heap_ok_def empty_world_def lo_settings_def statics_def idle_nh_def)
  moreover have "find (\<lambda>a. strncmp_eq ''mcast'' (a_name a) 32) [demo_attrs] = Some demo_attrs"
    "find (\<lambda>a. strncmp_eq ''other'' (a_name a) 32) [demo_attrs] = None" by (simp_all add: demo_attrs_def strncmp_eq_def)
  ultimately show ?thesis
    using standalone_talker_by_name [of lo_settings demo_os empty_world 100 w1 n demo_attrs "''mcast''" "[demo_attrs]" "''other''" "\<lambda>_. Some"]
      c demo_os_good demo_attrs_admitted by auto
qed

end
