(* ===== verification/Chan_Read.thy ===== *)
theory Chan_Read
  imports Nethandler "HOL-Library.Signed_Division"
begin

text \<open>
  Reading from a channel (\<^verbatim>\<open>src/netchan.c\<close>): the blocking read of a record from the channel's pipe, the
  reconstruction of the sender's capture time, the optional delay until the end of the stream's delay bound, and the
  trace break.  A read that blocks lets other threads run; what they do is a parameter.
\<close>

section \<open>The capture time\<close>

text \<open>\<open>avtp_diff\<close> and \<open>ptp_capture\<close> of \<^verbatim>\<open>_chan_read\<close>.\<close>

definition avtp_diff_of :: "pipe_meta \<Rightarrow> u64" where
  "avtp_diff_of m =
     (let lavtp = ucast (tai_to_avtp_ns (m_ts_recv_ptp_ns m));
          lavtp = (if lavtp < ucast (m_avtp_timestamp m) then lavtp + (push_bit 32 1 - 1) else lavtp)
      in lavtp - ucast (m_avtp_timestamp m))"

definition ptp_capture_of :: "pipe_meta \<Rightarrow> u64" where
  "ptp_capture_of m = m_ts_recv_ptp_ns m - avtp_diff_of m"

section \<open>The steps of a read\<close>

text \<open>Before the read: \<open>None\<close> inside is \<^verbatim>\<open>return -EINVAL\<close>, otherwise the size to read.\<close>

definition read_begin :: "addr option \<Rightarrow> world \<Rightarrow> nat option option" where
  "read_begin chp w = do {
     v \<leftarrow> chan_valid w chp;
     if \<not> v then Some None
     else do {
       c \<leftarrow> get_ch w chp;
       Some (if ch_stopping c then None else Some (sizeof_pipe_meta + unat (ch_payload_size c)))
     }
   }"

text \<open>The bytes of a read go to \<open>cbp->meta\<close> and on into the payload behind it.\<close>

definition store_record :: "bytes \<Rightarrow> cb_priv \<Rightarrow> cb_priv option" where
  "store_record got cb =
     (let mem = meta_bytes (cb_meta cb) @ cb_payload cb
      in if length mem < length got then None
         else let mem = overwrite mem got
              in Some (cb\<lparr>cb_meta := meta_of_bytes mem, cb_payload := drop sizeof_pipe_meta mem\<rparr>))"

definition read_record :: "addr \<Rightarrow> nat \<Rightarrow> world \<Rightarrow> (int \<times> world) option" where
  "read_record ch rpsz w = do {
     c \<leftarrow> w_ch w ch;
     a \<leftarrow> ch_cbp c;
     cb \<leftarrow> w_cb w a;
     ((res, got), w) \<leftarrow> os_read (ch_fd_r c) rpsz w;
     cb \<leftarrow> store_record got cb;
     Some (res, set_cb a cb w)
   }"

text \<open>\<^verbatim>\<open>E2E delay exceeded break_value\<close>: close the trace and destroy the handler.\<close>

definition read_break :: "os \<Rightarrow> addr \<Rightarrow> addr \<Rightarrow> world \<Rightarrow> world option" where
  "read_break os ch nh w = do {
     w \<leftarrow> upd_nh nh (\<lambda>n. n\<lparr>nh_tb := False\<rparr>) w;
     nh_destroy os (Nh_field ch) w
   }"

text \<open>After the read; \<open>data\<close> is the caller's memory.\<close>

definition read_resume :: "os \<Rightarrow> addr \<Rightarrow> bytes option \<Rightarrow> bool \<Rightarrow> int \<Rightarrow> world \<Rightarrow> ((int \<times> bytes option) \<times> world) option" where
  "read_resume os ch data read_delay res w =
     (if res < 0 then Some ((res, data), w)
      else do {
        v \<leftarrow> chan_valid w (Some ch);
        if \<not> v then Some ((- EINVAL, data), w)
        else do {
          c \<leftarrow> w_ch w ch;
          a \<leftarrow> ch_cbp c;
          cb \<leftarrow> w_cb w a;
          mem \<leftarrow> data;
          let sz = unat (ch_payload_size c);
          if length mem < sz \<or> length (cb_payload cb) < sz then None
          else do {
            let mem = overwrite mem (take sz (cb_payload cb));
            let avtp_diff = avtp_diff_of (cb_meta cb);
            let ptp_capture = ptp_capture_of (cb_meta cb);
            nh \<leftarrow> ch_nh c;
            n \<leftarrow> w_nh w nh;
            if nh_ftrace_break_us n > 0 \<and> sint avtp_diff sdiv 1000 > nh_ftrace_break_us n
            then do { w \<leftarrow> read_break os ch nh w; Some ((res, Some mem), w) }
            else do {
              w \<leftarrow> (if read_delay then map_option snd (chan_delay os (Some ch) (ptp_capture + sc_value (ch_sc c)) w)
                    else Some w);
              Some ((res, Some mem), w)
            }
          }
        }
      })"

definition i_chan_read ::
  "os \<Rightarrow> (world \<Rightarrow> world option) \<Rightarrow> addr option \<Rightarrow> bytes option \<Rightarrow> bool \<Rightarrow> world \<Rightarrow> ((int \<times> bytes option) \<times> world) option" where
  "i_chan_read os others chp data read_delay w = do {
     b \<leftarrow> read_begin chp w;
     (case b of
        None \<Rightarrow> Some ((- EINVAL, data), w)
      | Some rpsz \<Rightarrow> do {
          ch \<leftarrow> chp;
          w \<leftarrow> others w;
          (res, w) \<leftarrow> read_record ch rpsz w;
          read_resume os ch data read_delay res w
        })
   }"

definition chan_read ::
  "os \<Rightarrow> (world \<Rightarrow> world option) \<Rightarrow> addr option \<Rightarrow> bytes option \<Rightarrow> world \<Rightarrow> ((int \<times> bytes option) \<times> world) option" where
  "chan_read os others chp data w = i_chan_read os others chp data False w"

definition chan_read_wait ::
  "os \<Rightarrow> (world \<Rightarrow> world option) \<Rightarrow> addr option \<Rightarrow> bytes option \<Rightarrow> world \<Rightarrow> ((int \<times> bytes option) \<times> world) option" where
  "chan_read_wait os others chp data w = i_chan_read os others chp data True w"

section \<open>The standard callback in two steps\<close>

text \<open>
  \<open>nh_std_cb\<close> copies the payload into the callback area and then writes the area to the pipe; a reader may run in between.
\<close>

definition std_cb_copy :: "addr \<Rightarrow> bytes \<Rightarrow> world \<Rightarrow> world option" where
  "std_cb_copy a du w = do {
     cb \<leftarrow> w_cb w a;
     let sz = nat (cb_sz cb);
     if length du < sizeof_avtpdu_cshdr + sz then None
     else Some (set_cb a (cb\<lparr>cb_payload := overwrite (cb_payload cb) (take sz (drop sizeof_avtpdu_cshdr du))\<rparr>) w)
   }"

definition std_cb_write :: "os \<Rightarrow> addr \<Rightarrow> world \<Rightarrow> (int \<times> world) option" where
  "std_cb_write os a w = do {
     cb \<leftarrow> w_cb w a;
     (wsz, w) \<leftarrow> os_write (os_room os) (cb_fd cb) (meta_bytes (cb_meta cb) @ take (nat (cb_sz cb)) (cb_payload cb)) w;
     Some ((if wsz = -1 then - EINVAL else 0), w)
   }"

section \<open>Facts\<close>

lemma std_cb_steps:
  assumes "w_cb w a = Some cb" "0 < cb_fd cb"
  shows "nh_std_cb os (Some a) (Some du) w = Option.bind (std_cb_copy a du w) (std_cb_write os a)"
  using assms by (simp add: nh_std_cb_def std_cb_copy_def std_cb_write_def Let_def overwrite_def)

lemma store_record_full:
  assumes "length pl \<le> length (cb_payload cb)"
  shows "store_record (meta_bytes m @ pl) cb = Some (cb\<lparr>cb_meta := m, cb_payload := overwrite (cb_payload cb) pl\<rparr>)"
proof -
  have "overwrite (meta_bytes (cb_meta cb) @ cb_payload cb) (meta_bytes m @ pl) = meta_bytes m @ overwrite (cb_payload cb) pl"
    using assms by (simp add: overwrite_def)
  then show ?thesis using assms meta_codec.dec_enc [of m] by (simp add: store_record_def sizeof_pipe_meta_def)
qed

lemma read_record_full:
  assumes "w_ch w ch = Some c" "ch_cbp c = Some a" "w_cb w a = Some cb" "length pl \<le> length (cb_payload cb)"
    "pipe_at w (ch_fd_r c) wr (meta_bytes m @ pl @ rest)"
  shows "\<exists>w'. read_record ch (20 + length pl) w = Some (int (20 + length pl), w')
    \<and> pipe_at w' (ch_fd_r c) wr rest \<and> w_cb w' = (w_cb w)(a \<mapsto> cb\<lparr>cb_meta := m, cb_payload := overwrite (cb_payload cb) pl\<rparr>)
    \<and> w_ch w' = w_ch w \<and> w_nh w' = w_nh w \<and> w_tick w' = w_tick w \<and> w_sleep w' = w_sleep w"
proof -
  have "meta_bytes m @ pl @ rest \<noteq> []" by (metis append_is_Nil_conv length_meta_bytes list.size(3) zero_neq_numeral)
  from os_read_pipe [OF assms(5) this, of "20 + length pl"] obtain w1 where
    r: "os_read (ch_fd_r c) (20 + length pl) w = Some ((int (20 + length pl), meta_bytes m @ pl), w1)"
      "pipe_at w1 (ch_fd_r c) wr rest" by auto
  let ?cb = "cb\<lparr>cb_meta := m, cb_payload := overwrite (cb_payload cb) pl\<rparr>"
  have "read_record ch (20 + length pl) w = Some (int (20 + length pl), set_cb a ?cb w1)"
    using assms(1-3) r(1) store_record_full [OF assms(4)] by (simp add: read_record_def)
  moreover have "pipe_at (set_cb a ?cb w1) (ch_fd_r c) wr rest" using r(2) by (simp add: pipe_at_def)
  ultimately show ?thesis using os_read_heaps [OF r(1)] by simp
qed

text \<open>A reader: a valid Rx channel whose callback area and pipe are in place.\<close>

definition reader :: "world \<Rightarrow> addr \<Rightarrow> channel \<Rightarrow> addr \<Rightarrow> nethandler \<Rightarrow> addr \<Rightarrow> int \<Rightarrow> bytes \<Rightarrow> bool" where
  "reader w ch c nh n a wr buf \<longleftrightarrow> live w ch c nh n \<and> valid_state c n \<and> \<not> ch_stopping c \<and> ch_cbp c = Some a
     \<and> (\<exists>cb. w_cb w a = Some cb \<and> unat (ch_payload_size c) \<le> length (cb_payload cb)) \<and> pipe_at w (ch_fd_r c) wr buf"

text \<open>No break: tracing is off, or the record is not older than the break value.\<close>

definition no_break :: "nethandler \<Rightarrow> pipe_meta \<Rightarrow> bool" where
  "no_break n m \<longleftrightarrow> \<not> (nh_ftrace_break_us n > 0 \<and> sint (avtp_diff_of m) sdiv 1000 > nh_ftrace_break_us n)"

lemma read_begin_reader:
  assumes "reader w ch c nh n a wr buf"
  shows "read_begin (Some ch) w = Some (Some (20 + unat (ch_payload_size c)))"
  using assms chan_valid_live [of w ch c nh n]
  by (simp add: reader_def read_begin_def live_def get_ch_def sizeof_pipe_meta_def)

lemma read_resume_reader:
  assumes "reader w ch c nh n a wr buf" "w_cb w a = Some cb" "unat (ch_payload_size c) \<le> length mem" "no_break n (cb_meta cb)" "0 \<le> res"
  shows "read_resume os ch (Some mem) delay res w = Option.bind
    (if delay then map_option snd (chan_delay os (Some ch) (ptp_capture_of (cb_meta cb) + sc_value (ch_sc c)) w) else Some w)
    (\<lambda>w. Some ((res, Some (overwrite mem (take (unat (ch_payload_size c)) (cb_payload cb)))), w))"
proof -
  have "chan_valid w (Some ch) = Some True" "w_ch w ch = Some c" "ch_cbp c = Some a" "ch_nh c = Some nh" "w_nh w nh = Some n"
    "unat (ch_payload_size c) \<le> length (cb_payload cb)"
    using assms(1,2) chan_valid_live [of w ch c nh n] by (auto simp: reader_def live_def)
  then show ?thesis using assms(2-5) unfolding no_break_def by (auto simp: read_resume_def Let_def not_less)
qed

lemma reader_after:
  assumes "reader w ch c nh n a wr (meta_bytes m @ pl @ rest)" "length pl = unat (ch_payload_size c)"
  shows "\<exists>w' cb. read_record ch (20 + length pl) w = Some (int (20 + length pl), w') \<and> reader w' ch c nh n a wr rest
    \<and> w_cb w' a = Some cb \<and> cb_meta cb = m \<and> take (length pl) (cb_payload cb) = pl
    \<and> w_ch w' = w_ch w \<and> w_nh w' = w_nh w \<and> w_tick w' = w_tick w \<and> w_sleep w' = w_sleep w"
proof -
  from assms obtain cb where r: "live w ch c nh n" "w_cb w a = Some cb" "length pl \<le> length (cb_payload cb)" "w_ch w ch = Some c"
    "ch_cbp c = Some a" "pipe_at w (ch_fd_r c) wr (meta_bytes m @ pl @ rest)" by (auto simp: reader_def live_def)
  from read_record_full [OF r(4,5,2,3,6)] obtain w' where
    w': "read_record ch (20 + length pl) w = Some (int (20 + length pl), w')" "pipe_at w' (ch_fd_r c) wr rest"
      "w_cb w' a = Some (cb\<lparr>cb_meta := m, cb_payload := overwrite (cb_payload cb) pl\<rparr>)"
      "w_ch w' = w_ch w" "w_nh w' = w_nh w" "w_tick w' = w_tick w" "w_sleep w' = w_sleep w" by auto
  moreover have "reader w' ch c nh n a wr rest"
    using assms(1) w' r(3) assms(2) by (auto simp: reader_def live_def)
  ultimately show ?thesis by (auto simp: overwrite_def)
qed

lemma chan_read_record:
  assumes "reader w ch c nh n a wr (meta_bytes m @ pl @ rest)" "length pl = unat (ch_payload_size c)" "length pl \<le> length mem"
    "no_break n m"
  shows "\<exists>w'. chan_read os Some (Some ch) (Some mem) w = Some ((int (20 + length pl), Some (overwrite mem pl)), w')
    \<and> reader w' ch c nh n a wr rest \<and> w_ch w' = w_ch w \<and> w_nh w' = w_nh w"
proof -
  obtain w' cb where w': "read_record ch (20 + length pl) w = Some (int (20 + length pl), w')" "reader w' ch c nh n a wr rest"
    "w_cb w' a = Some cb" "cb_meta cb = m" "take (length pl) (cb_payload cb) = pl" "w_ch w' = w_ch w" "w_nh w' = w_nh w"
    using reader_after [OF assms(1,2)] by blast
  have "chan_read os Some (Some ch) (Some mem) w = read_resume os ch (Some mem) False (int (20 + length pl)) w'"
    using read_begin_reader [OF assms(1)] w'(1) assms(2) by (simp add: chan_read_def i_chan_read_def)
  then show ?thesis
    using read_resume_reader [OF w'(2,3), of mem "int (20 + length pl)" os False] w'(2,4-7) assms(2,3,4) by simp
qed

text \<open>A blocked reader and \<open>chan_stop\<close>: the dummy record wakes it up.\<close>

lemma chan_stop_writes_dummy:
  assumes "live w ch c nh n" "\<not> ch_stopping c" "pipe_at w (ch_fd_r c) (ch_fd_w c) buf" "\<forall>t. os_malloc os t" "unbounded_pipes os"
  shows "\<exists>w'. chan_stop os (Some ch) w = Some (True, w') \<and> w_ch w' = (w_ch w)(ch \<mapsto> stopped c) \<and> w_nh w' = w_nh w \<and> w_cb w' = w_cb w
    \<and> pipe_at w' (ch_fd_r c) (ch_fd_w c) (buf @ replicate (unat (ch_payload_size c)) 0)"
proof -
  have "can_write os w (ch_fd_w c) (unat (ch_payload_size c))"
    using can_write_pipe_at [OF assms(3)] assms(5) by (simp add: unbounded_pipes_def)
  from chan_stop_first [OF assms(1,2) this] assms(4) obtain w1 r w' where
    s: "only_mrp (set_ch ch (stopped c) w) w1"
      "os_write (os_room os) (ch_fd_w c) (replicate (unat (ch_payload_size c)) 0) (tick w1) = Some (r, w')"
      "chan_stop os (Some ch) w = Some (True, w')" "w_ch w' = (w_ch w)(ch \<mapsto> stopped c)" "w_nh w' = w_nh w" "w_cb w' = w_cb w" by auto
  have "w_fds w1 = w_fds w" "w_pipes w1 = w_pipes w" using only_mrp_fields [OF s(1)] by simp_all
  then have "pipe_at (tick w1) (ch_fd_r c) (ch_fd_w c) buf" using assms(3) by (simp add: pipe_at_def)
  from os_write_pipe [where room = "os_room os", OF this, of "replicate (unat (ch_payload_size c)) 0"] s(2) assms(5)
  have "pipe_at w' (ch_fd_r c) (ch_fd_w c) (buf @ replicate (unat (ch_payload_size c)) 0)" by (auto simp: unbounded_pipes_def)
  with s show ?thesis by blast
qed

lemma chan_valid_stopped: "w_ch w ch = Some (stopped c) \<Longrightarrow> chan_valid w (Some ch) = Some False"
  using chan_valid_not_ready [of w ch "stopped c"] by (auto simp: stopped_def)

lemma read_record_some:
  assumes "w_ch w ch = Some c" "ch_cbp c = Some a" "w_cb w a = Some cb" "pipe_at w (ch_fd_r c) wr buf" "buf \<noteq> []"
    "length (take k buf) \<le> 20 + length (cb_payload cb)"
  shows "\<exists>res w'. read_record ch k w = Some (res, w') \<and> 0 \<le> res \<and> w_ch w' = w_ch w"
proof -
  obtain w1 where r: "os_read (ch_fd_r c) k w = Some ((int (length (take k buf)), take k buf), w1)"
    using os_read_pipe [OF assms(4,5)] by blast
  have "store_record (take k buf) cb \<noteq> None" using assms(6) by (simp add: store_record_def Let_def del: length_take)
  then show ?thesis using assms(1-3) r os_read_heaps [OF r] by (auto simp: read_record_def)
qed

lemma tx_chans_set_nh:
  "w_nh w nh = Some n \<Longrightarrow> nh_tx_head n' = nh_tx_head n \<Longrightarrow> nh_tx_tail n' = nh_tx_tail n \<Longrightarrow>
    tx_chans (set_nh nh n' w) nh xs tp = tx_chans w nh xs tp"
  "w_nh w nh = Some n \<Longrightarrow> nh_rx_head n' = nh_rx_head n \<Longrightarrow> nh_rx_tail n' = nh_rx_tail n \<Longrightarrow>
    rx_chans (set_nh nh n' w) nh xs tp = rx_chans w nh xs tp"
  by (simp_all add: tx_chans_def rx_chans_def)

text \<open>The sender's capture time: exact, unless the 32-bit timestamp wrapped on the way, when it is one nanosecond late.\<close>

lemma ptp_capture_reconstructed:
  assumes "m_avtp_timestamp m = tai_to_avtp_ns cap" "m_ts_recv_ptp_ns m = cap + d" "uint cap + uint d < 2 ^ 64" "uint d < 2 ^ 32"
  shows "ptp_capture_of m = cap + (if uint cap mod 2 ^ 32 + uint d < 2 ^ 32 then 0 else 1)"
proof -
  let ?x = "uint cap mod 2 ^ 32"
  define l a :: u64 where "l = ucast (tai_to_avtp_ns (cap + d))" and "a = ucast (tai_to_avtp_ns cap)"
  have s: "uint (cap + d) = uint cap + uint d" using assms(3) by (simp add: uint_word_ariths)
  have la: "uint l = (uint cap + uint d) mod 2 ^ 32" "uint a = ?x"
    unfolding l_def a_def tai_to_avtp_ns_ucast using s by (simp_all add: unsigned_ucast_eq take_bit_eq_mod uint_mod)
  have m: "(uint cap + uint d) mod 2 ^ 32 = (if ?x + uint d < 2 ^ 32 then ?x + uint d else ?x + uint d - 2 ^ 32)"
  proof -
    have "(uint cap + uint d) mod 2 ^ 32 = (?x + uint d) mod 2 ^ 32" by (simp add: mod_add_left_eq)
    then show ?thesis using assms(4) mod_pos_pos_trivial [of "?x + uint d" "2 ^ 32"] mod_pos_pos_trivial [of "?x + uint d - 2 ^ 32" "2 ^ 32"]
      by (auto simp: mod_diff_right_eq)
  qed
  have less: "l < a \<longleftrightarrow> \<not> ?x + uint d < 2 ^ 32"
    unfolding word_less_def la m using assms(4) uint_ge_0 [of d] by auto
  have diff: "avtp_diff_of m = (if ?x + uint d < 2 ^ 32 then d else d - 1)"
  proof (cases "?x + uint d < 2 ^ 32")
    case True
    then have "l = a + d" using la m by (intro word_uint_eqI) (simp add: uint_word_ariths)
    with True less show ?thesis by (simp add: avtp_diff_of_def assms(1,2) l_def [symmetric] a_def [symmetric])
  next
    case False
    then have "l = a + d - 2 ^ 32" using la m assms(4) by (intro word_uint_eqI) (simp add: uint_word_ariths)
    with False less show ?thesis by (simp add: avtp_diff_of_def assms(1,2) l_def [symmetric] a_def [symmetric])
  qed
  show ?thesis by (simp add: ptp_capture_of_def diff assms(2))
qed

section \<open>Properties\<close>

text \<open>C29: \<open>chan_stop\<close> releases a blocked reader.  A read on an empty pipe does not return by itself; when another thread
  stops the channel meanwhile, the read returns \<open>-EINVAL\<close>, and the caller's memory is untouched.\<close>

theorem chan_stop_unblocks_reader:
  assumes "reader w ch c nh n a (ch_fd_w c) []" "\<forall>t. os_malloc os t" "unbounded_pipes os"
  shows "chan_read os Some (Some ch) data w = None
    \<and> (\<exists>w'. chan_read os (\<lambda>w. map_option snd (chan_stop os (Some ch) w)) (Some ch) data w = Some ((- EINVAL, data), w'))"
proof
  obtain cb where r: "live w ch c nh n" "valid_state c n" "\<not> ch_stopping c" "ch_cbp c = Some a" "w_cb w a = Some cb"
    "unat (ch_payload_size c) \<le> length (cb_payload cb)" "pipe_at w (ch_fd_r c) (ch_fd_w c) []" "w_ch w ch = Some c"
    using assms(1) by (auto simp: reader_def live_def)
  have "os_read (ch_fd_r c) k w = None" for k using r(7) by (auto simp: pipe_at_def os_read_def)
  then show "chan_read os Some (Some ch) data w = None"
    using read_begin_reader [OF assms(1)] r(4,5,8) by (simp add: chan_read_def i_chan_read_def read_record_def)
  obtain w1 where w1: "chan_stop os (Some ch) w = Some (True, w1)" "w_ch w1 ch = Some (stopped c)" "w_cb w1 a = Some cb"
    "pipe_at w1 (ch_fd_r c) (ch_fd_w c) (replicate (unat (ch_payload_size c)) 0)"
    using chan_stop_writes_dummy [OF r(1,3,7) assms(2,3)] r(5) by auto
  have "unat (ch_payload_size c) \<noteq> 0" using r(2) by (simp add: valid_state_def unat_eq_zero)
  then obtain res w2 where "read_record ch (20 + unat (ch_payload_size c)) w1 = Some (res, w2)" "0 \<le> res" "w_ch w2 ch = Some (stopped c)"
    using read_record_some [OF w1(2) _ w1(3), of "ch_fd_w c" "replicate (unat (ch_payload_size c)) 0" "20 + unat (ch_payload_size c)"]
      w1(2,4) r(4,6) by (auto simp: stopped_def)
  then show "\<exists>w'. chan_read os (\<lambda>w. map_option snd (chan_stop os (Some ch) w)) (Some ch) data w = Some ((- EINVAL, data), w')"
    using read_begin_reader [OF assms(1)] w1(1) chan_valid_stopped [of w2 ch c]
    by (auto simp: chan_read_def i_chan_read_def read_resume_def)
qed

lemma demo_reader: "reader demo_world 3 demo_rx 1 demo_nh 10 23 []"
  using demo_live(2) demo_valid(2) by (simp add: reader_def demo_fields) (simp add: demo_world_def demo_cb_def pipe_at_def open_pipe_def)

theorem chan_stop_unblocks_reader_witness:
  "\<exists>w'. chan_read demo_os (\<lambda>w. map_option snd (chan_stop demo_os (Some 3) w)) (Some 3) (Some []) demo_world = Some ((- EINVAL, Some []), w')"
  using chan_stop_unblocks_reader [of demo_world 3 demo_rx 1 demo_nh 10 demo_os "Some []"] demo_reader demo_receiver(2)
  by (simp add: demo_fields demo_os_def)

text \<open>C33: The break path of a read is a use after free.  When the end-to-end delay of a record exceeds the break value, reading it
  never returns normally, with or without delay: the handler is destroyed through the \<^verbatim>\<open>nh\<close> field of the channel itself,
  which is freed on the way.\<close>

theorem late_record_read_faults:
  assumes "reader w ch c nh n a wr (meta_bytes m @ pl @ rest)" "length pl = unat (ch_payload_size c)" "length pl \<le> length mem"
    and "\<not> no_break n m" "tx_chans w nh xs tp" "rx_chans w nh ys tp'" "set xs \<inter> set ys = {}" "ch \<in> set (xs @ ys)"
  shows "chan_read os Some (Some ch) (Some mem) w = None \<and> chan_read_wait os Some (Some ch) (Some mem) w = None"
proof -
  obtain w' cb where w': "read_record ch (20 + length pl) w = Some (int (20 + length pl), w')" "reader w' ch c nh n a wr rest"
    "w_cb w' a = Some cb" "cb_meta cb = m" "w_ch w' = w_ch w" "w_nh w' = w_nh w"
    using reader_after [OF assms(1,2)] by blast
  let ?n = "n\<lparr>nh_tb := False\<rparr>"
  have l: "w_ch w' ch = Some c" "ch_nh c = Some nh" "w_nh w' nh = Some n" "ch_cbp c = Some a" "chan_valid w' (Some ch) = Some True"
    "length pl \<le> length (cb_payload cb)"
    using w'(2,3) assms(2) chan_valid_live [of w' ch c nh n] by (auto simp: reader_def live_def)
  have "tx_chans w' nh xs tp" "rx_chans w' nh ys tp'" using assms(5,6) w'(5,6) by (simp_all add: tx_chans_def rx_chans_def)
  then have "tx_chans (set_nh nh ?n w') nh xs tp" "rx_chans (set_nh nh ?n w') nh ys tp'"
    using tx_chans_set_nh [OF l(3), of ?n] by simp_all
  from nh_destroy_field_faults [OF _ l(2) _ this assms(7,8)] l(1)
  have "read_break os ch nh w' = None" using l(3) by (simp add: read_break_def)
  then have "read_resume os ch (Some mem) d (int (20 + length pl)) w' = None" for d
    using l w'(3,4) assms(2-4) by (simp add: read_resume_def Let_def no_break_def not_less)
  then show ?thesis using read_begin_reader [OF assms(1)] w'(1) assms(2)
    by (simp add: chan_read_def chan_read_wait_def i_chan_read_def)
qed

text \<open>C34: The receive thread and a reader share one buffer.  When a record is read between the copy and the write of the standard
  callback, which together are all that \<open>nh_std_cb\<close> does, the write publishes the record that has just been read a
  second time, and the data of the frame being delivered is lost.\<close>

theorem concurrent_read_loses_frame:
  assumes "reader w ch c nh n a wr (meta_bytes m @ pl)" "length pl = unat (ch_payload_size c)" "w_cb w a = Some cb" "cb_fd cb = wr"
    and "0 < wr" "cb_sz cb = int (length pl)" "sizeof_avtpdu_cshdr + length pl \<le> length du" "unbounded_pipes os"
  shows "nh_std_cb os (Some a) (Some du) w = Option.bind (std_cb_copy a du w) (std_cb_write os a)
    \<and> (\<exists>w1 w2 w3. std_cb_copy a du w = Some w1 \<and> read_record ch (20 + length pl) w1 = Some (int (20 + length pl), w2)
        \<and> std_cb_write os a w2 = Some (0, w3) \<and> reader w3 ch c nh n a wr (meta_bytes m @ pl))"
proof
  show "nh_std_cb os (Some a) (Some du) w = Option.bind (std_cb_copy a du w) (std_cb_write os a)"
    using std_cb_steps [OF assms(3)] assms(4,5) by simp
  let ?p = "take (length pl) (drop sizeof_avtpdu_cshdr du)"
  define w1 where "w1 = set_cb a (cb\<lparr>cb_payload := overwrite (cb_payload cb) ?p\<rparr>) w"
  have c1: "std_cb_copy a du w = Some w1" using assms(3,6,7) by (simp add: std_cb_copy_def w1_def not_less)
  have r0: "w_ch w ch = Some c" "ch_cbp c = Some a" "length pl \<le> length (cb_payload cb)"
    "pipe_at w (ch_fd_r c) wr (meta_bytes m @ pl @ [])"
    using assms(1-3) by (auto simp: reader_def live_def)
  have len: "length (overwrite (cb_payload cb) ?p) = length (cb_payload cb)" using assms(7) r0(3) by (simp add: overwrite_def)
  have p1: "pipe_at w1 (ch_fd_r c) wr (meta_bytes m @ pl @ [])" using r0(4) by (simp add: w1_def pipe_at_def)
  let ?cb2 = "cb\<lparr>cb_meta := m, cb_payload := overwrite (overwrite (cb_payload cb) ?p) pl\<rparr>"
  obtain w2 where w2: "read_record ch (20 + length pl) w1 = Some (int (20 + length pl), w2)" "pipe_at w2 (ch_fd_r c) wr []"
    "w_cb w2 a = Some ?cb2" "w_ch w2 = w_ch w" "w_nh w2 = w_nh w"
    using read_record_full [where ch = ch and cb = "cb\<lparr>cb_payload := overwrite (cb_payload cb) ?p\<rparr>", OF _ r0(2) _ _ p1] r0(1,3) len
    by (auto simp: w1_def)
  have "take (length pl) (overwrite xs pl) = pl" for xs :: bytes by (simp add: overwrite_def)
  then obtain w3 where w3: "std_cb_write os a w2 = Some (0, w3)" "pipe_at w3 (ch_fd_r c) wr (meta_bytes m @ pl)"
    "w_cb w3 = w_cb w2" "w_ch w3 = w_ch w2" "w_nh w3 = w_nh w2"
    using os_write_pipe [where room = "os_room os" and data = "meta_bytes m @ pl", OF w2(2)] assms(4,6,8) w2(3) os_write_heaps
    by (fastforce simp: std_cb_write_def unbounded_pipes_def)
  have "reader w3 ch c nh n a wr (meta_bytes m @ pl)"
    using assms(1,2) w3(2-5) w2(3-5) len r0(3) by (auto simp: reader_def live_def overwrite_def)
  with c1 w2(1) w3(1) show "\<exists>w1 w2 w3. std_cb_copy a du w = Some w1
      \<and> read_record ch (20 + length pl) w1 = Some (int (20 + length pl), w2)
      \<and> std_cb_write os a w2 = Some (0, w3) \<and> reader w3 ch c nh n a wr (meta_bytes m @ pl)" by blast
qed


text \<open>The record that a frame with one second on its way leaves in the pipe of the example's listener.\<close>

definition late_meta :: pipe_meta where
  "late_meta = \<lparr>m_ts_rx_ns = 0, m_ts_recv_ptp_ns = 3000000000, m_avtp_timestamp = 2000000000\<rparr>"

definition pending_world :: "int \<Rightarrow> world" where
  "pending_world us = demo_world\<lparr>w_nh := [1 \<mapsto> demo_nh\<lparr>nh_ftrace_break_us := us\<rparr>],
     w_pipes := [30 \<mapsto> open_pipe, 31 \<mapsto> open_pipe\<lparr>pb_buf := meta_bytes late_meta @ [1, 2, 3, 4, 5, 6, 7, 8]\<rparr>]\<rparr>"

lemma pending_reader:
  "reader (pending_world us) 3 demo_rx 1 (demo_nh\<lparr>nh_ftrace_break_us := us\<rparr>) 10 23 (meta_bytes late_meta @ [1, 2, 3, 4, 5, 6, 7, 8])"
proof -
  have "live (pending_world us) 3 demo_rx 1 (demo_nh\<lparr>nh_ftrace_break_us := us\<rparr>)" "valid_state demo_rx (demo_nh\<lparr>nh_ftrace_break_us := us\<rparr>)"
    using demo_live(2) demo_valid(2) by (simp_all add: live_def valid_state_def pending_world_def demo_world_def)
  then show ?thesis
    by (simp add: reader_def demo_fields) (simp add: pending_world_def demo_world_def demo_cb_def pipe_at_def open_pipe_def)
qed

lemma late_meta_delay: "avtp_diff_of late_meta = 1000000000" "ptp_capture_of late_meta = 2000000000"
  by (simp_all add: avtp_diff_of_def ptp_capture_of_def late_meta_def tai_to_avtp_ns_ucast)

theorem late_record_read_faults_witness:
  "chan_read demo_os Some (Some 3) (Some (replicate 8 0)) (pending_world 100) = None"
proof -
  have "\<not> no_break (demo_nh\<lparr>nh_ftrace_break_us := 100\<rparr>) late_meta" by (simp add: no_break_def late_meta_delay signed_divide_int_def)
  moreover have "tx_chans (pending_world 100) 1 [2] (Some 2)" "rx_chans (pending_world 100) 1 [3] (Some 3)"
    using demo_handler(2,3) by (simp_all add: tx_chans_def rx_chans_def pending_world_def demo_world_def)
  ultimately show ?thesis
    using late_record_read_faults [of "pending_world 100" 3 demo_rx 1 _ 10 23 late_meta "[1, 2, 3, 4, 5, 6, 7, 8]" "[]"
        "replicate 8 0" "[2]" "Some 2" "[3]" "Some 3" demo_os] pending_reader [of 100] by (simp add: demo_fields)
qed

theorem concurrent_read_loses_frame_witness:
  "\<exists>w1 w2 w3. std_cb_copy 10 (replicate 32 9) (pending_world 0) = Some w1 \<and> read_record 3 28 w1 = Some (28, w2)
    \<and> std_cb_write demo_os 10 w2 = Some (0, w3)
    \<and> reader w3 3 demo_rx 1 (demo_nh\<lparr>nh_ftrace_break_us := 0\<rparr>) 10 23 (meta_bytes late_meta @ [1, 2, 3, 4, 5, 6, 7, 8])"
proof -
  have "w_cb (pending_world 0) 10 = Some demo_cb" by (simp add: pending_world_def demo_world_def)
  from concurrent_read_loses_frame [OF pending_reader _ this, of "replicate 32 9" demo_os] demo_receiver(2)
  show ?thesis by (simp add: demo_fields demo_cb_def sizeof_avtpdu_cshdr_def)
qed


text \<open>C28: Reading with delay gives the data at its presentation time.  For a record captured at TAI time \<open>cap\<close> and received \<open>d\<close>
  later (within the 4.3 s that a 32-bit timestamp spans), \<open>chan_read_wait\<close> returns the payload after it has slept, on the
  monotonic clock, exactly as long as the PTP clock had left until the capture time plus the delay bound of the stream class;
  when the timestamp wrapped on the way, the target is one nanosecond late.\<close>

theorem chan_read_wait_deadline:
  assumes "reader w ch c nh n a wr (meta_bytes m @ pl @ rest)" "length pl = unat (ch_payload_size c)" "length pl \<le> length mem"
    and "no_break n m" "nh_logger n = None" "0 \<le> nh_ptp_fd n"
    and "m_avtp_timestamp m = tai_to_avtp_ns cap" "m_ts_recv_ptp_ns m = cap + d" "uint cap + uint d < 2 ^ 64" "uint d < 2 ^ 32"
    and "os_ptp_clock os (w_tick w) (get_clockid (nh_ptp_fd n)) = Some ptp"
    and "os_clock os (Suc (w_tick w)) CLOCK_MONOTONIC = Some mon" "ts_normal mon"
    and "os_clock os (Suc (Suc (Suc (w_tick w)))) CLOCK_MONOTONIC = Some woke"
    and "target = cap + (if uint cap mod 2 ^ 32 + uint d < 2 ^ 32 then 0 else 1) + sc_value (ch_sc c)"
    and "ts_u64 ptp \<le> target" "uint (target - ts_u64 ptp) < 2 ^ 62"
  shows "\<exists>w' ts. chan_read_wait os Some (Some ch) (Some mem) w = Some ((int (20 + length pl), Some (overwrite mem pl)), w')
    \<and> w_sleep w' = w_sleep w @ [(CLOCK_MONOTONIC, ts)] \<and> ts_normal ts
    \<and> ts_ns ts = ts_ns mon + (uint target - uint (ts_u64 ptp))"
proof -
  obtain w1 cb where w1: "read_record ch (20 + length pl) w = Some (int (20 + length pl), w1)" "reader w1 ch c nh n a wr rest"
    "w_cb w1 a = Some cb" "cb_meta cb = m" "take (length pl) (cb_payload cb) = pl" "w_tick w1 = w_tick w" "w_sleep w1 = w_sleep w"
    using reader_after [OF assms(1,2)] by blast
  have live: "live w1 ch c nh n" using w1(2) by (simp add: reader_def)
  have t: "ptp_capture_of m + sc_value (ch_sc c) = target" using ptp_capture_reconstructed [OF assms(7-10)] assms(15) by simp
  obtain w' ts where d: "chan_delay os (Some ch) target w1 = Some (sint (ts_u64 ts - ts_u64 woke), w')"
    "w_sleep w' = w_sleep w @ [(CLOCK_MONOTONIC, ts)]" "ts_normal ts" "ts_ns ts = ts_ns mon + (uint target - uint (ts_u64 ptp))"
    using chan_delay_sleeps [OF live assms(5,6) _ _ _ assms(13,16,17), of os woke] assms(11,12,14) w1(6,7) by auto
  have "chan_read_wait os Some (Some ch) (Some mem) w = read_resume os ch (Some mem) True (int (20 + length pl)) w1"
    using read_begin_reader [OF assms(1)] w1(1) assms(2) by (simp add: chan_read_wait_def i_chan_read_def)
  also have "\<dots> = Some ((int (20 + length pl), Some (overwrite mem pl)), w')"
    using read_resume_reader [OF w1(2,3), of mem "int (20 + length pl)" os True] w1(4,5) assms(2,3,4) t d(1) by simp
  finally show ?thesis using d by blast
qed

theorem chan_read_wait_deadline_witness:
  "\<exists>w' ts. chan_read_wait (demo_os\<lparr>os_ptp_clock := \<lambda>_ _. Some \<lparr>tv_sec = 2, tv_nsec = 1000000\<rparr>\<rparr>) Some (Some 3) (Some (replicate 8 0)) (pending_world 0)
      = Some ((28, Some [1, 2, 3, 4, 5, 6, 7, 8]), w')
    \<and> w_sleep w' = [(CLOCK_MONOTONIC, ts)] \<and> ts_ns ts = 1000001000000"
proof -
  let ?os = "demo_os\<lparr>os_ptp_clock := \<lambda>_ _. Some \<lparr>tv_sec = 2, tv_nsec = 1000000\<rparr>\<rparr>"
  let ?m = "\<lparr>tv_sec = 1000, tv_nsec = 0\<rparr>"
  have f: "m_avtp_timestamp late_meta = tai_to_avtp_ns 2000000000" "m_ts_recv_ptp_ns late_meta = 2000000000 + 1000000000"
    "no_break (demo_nh\<lparr>nh_ftrace_break_us := 0\<rparr>) late_meta" "sc_value (ch_sc demo_rx) = 2000000" "w_sleep (pending_world 0) = []"
    "nh_logger (demo_nh\<lparr>nh_ftrace_break_us := 0\<rparr>) = None" "0 \<le> nh_ptp_fd (demo_nh\<lparr>nh_ftrace_break_us := 0\<rparr>)"
    by (simp_all add: late_meta_def no_break_def demo_rx_def demo_nh_def zero_nethandler_def pending_world_def demo_world_def empty_world_def
        tai_to_avtp_ns_ucast)
  from chan_read_wait_deadline [OF _ _ _ f(3,6,7,1,2), of "pending_world 0" 3 demo_rx 1 10 23 "[1, 2, 3, 4, 5, 6, 7, 8]" "[]" "replicate 8 0"
      ?os "\<lparr>tv_sec = 2, tv_nsec = 1000000\<rparr>" ?m ?m 2002000000]
  show ?thesis using pending_reader [of 0] f(4,5)
    by (simp add: demo_fields demo_os_def ts_u64_def ts_normal_def ts_ns_def overwrite_def) fastforce
qed

end
