(* ===== verification/Delivery.thy ===== *)
theory Delivery
  imports Chan_Read
begin

text \<open>
  The components together: a talker sends a sequence of samples, the network hands its frames to the
  receive thread of a listening handler, and the listening application reads them.
\<close>

section \<open>Sending a sequence of samples\<close>

fun chan_send_all :: "os \<Rightarrow> addr \<Rightarrow> bytes list \<Rightarrow> world \<Rightarrow> (int list \<times> world) option" where
  "chan_send_all os ch [] w = Some ([], w)"
| "chan_send_all os ch (d # ds) w = do {
     (r, w) \<leftarrow> chan_send_now os (Some ch) (Some d) w;
     (rs, w) \<leftarrow> chan_send_all os ch ds w;
     Some (r # rs, w)
   }"

text \<open>
  A send table that can be used again: \<open>fits k\<close> says that the channel is fit for \<open>k\<close> more sends, and
  a send consumes one of them, changing nothing of the channel but its next slot.
\<close>

locale chan_stream = chan_sender +
  fixes fits :: "nat \<Rightarrow> channel \<Rightarrow> bool"
  assumes fits_fit: "fits (Suc k) c \<Longrightarrow> fit c"
    and fits_updated: "fits k (updated ts d c) = fits k c"
    and send_at_next: "live w ch c nh n \<Longrightarrow> sendable os (Suc k) c n \<Longrightarrow> fits (Suc k) c \<Longrightarrow>
      \<exists>w' t x lg. send_at os ch None w = Some ((int (unat (ch_payload_size c)), None), w')
        \<and> w_net w' = w_net w @ [frame_of c t] \<and> live w' ch (c\<lparr>ch_next_tx_ns := x\<rparr>) nh (n\<lparr>nh_logger := lg\<rparr>)
        \<and> logger_room k (n\<lparr>nh_logger := lg\<rparr>) \<and> fits k (c\<lparr>ch_next_tx_ns := x\<rparr>)"
begin

lemma send_now_next:
  assumes "live w ch c nh n" "valid_state c n" "sendable os (Suc k) c n" "fits (Suc k) c"
    "unat (ch_payload_size c) \<le> length d"
  shows "\<exists>w' t ts x lg. send_now os ch (Some d) w = Some (int (unat (ch_payload_size c)), w')
    \<and> w_net w' = w_net w @ [frame_of (updated ts d c) t]
    \<and> live w' ch ((updated ts d c)\<lparr>ch_next_tx_ns := x\<rparr>) nh (n\<lparr>nh_logger := lg\<rparr>)
    \<and> logger_room k (n\<lparr>nh_logger := lg\<rparr>) \<and> fits k ((updated ts d c)\<lparr>ch_next_tx_ns := x\<rparr>)"
proof -
  from assms(3) have ok: "clock_ok os" "payload_ok c" by (auto simp: sendable_def)
  obtain ts where ts: "read_tai os w = Some (ts, tick w)" using clock_ok_read_tai [OF ok(1), of w] by blast
  let ?c = "updated ts d c" and ?w = "set_ch ch (updated ts d c) (tick w)"
  have "live (tick w) ch c nh n" using assms(1) by (simp add: live_def)
  then have upd: "chan_update (Some ch) ts (Some d) (tick w) = Some (0, ?w)"
    using assms(2,5) by (rule chan_update_valid)
  have "payload_ok ?c" using ok(2) assms(5) by (simp add: payload_ok_def updated_def)
  then have "sendable os (Suc k) ?c n" using assms(3) by (simp add: sendable_def)
  moreover have "live ?w ch ?c nh n" using assms(1) by (simp add: live_def)
  moreover have "fits (Suc k) ?c" using assms(4) by (simp add: fits_updated)
  ultimately obtain w' t x lg where "send_at os ch None ?w = Some ((int (unat (ch_payload_size ?c)), None), w')"
    "w_net w' = w_net ?w @ [frame_of ?c t]" "live w' ch (?c\<lparr>ch_next_tx_ns := x\<rparr>) nh (n\<lparr>nh_logger := lg\<rparr>)"
    "logger_room k (n\<lparr>nh_logger := lg\<rparr>)" "fits k (?c\<lparr>ch_next_tx_ns := x\<rparr>)"
    using send_at_next by blast
  with ts upd show ?thesis by (auto simp: send_now_code)
qed

end

text \<open>The time-aware shaper can send while the next slots stay below \<open>2 ^ 63\<close> ns.\<close>

definition paced :: "nat \<Rightarrow> channel \<Rightarrow> bool" where
  "paced k c \<longleftrightarrow> uint (ch_interval_ns c) < 2 ^ 62
     \<and> max (2 ^ 62 + 50000) (uint (ch_next_tx_ns c)) + int k * uint (ch_interval_ns c) < 2 ^ 63"

lemma paced_pace_ok: "paced k c \<Longrightarrow> pace_ok c"
proof -
  assume p: "paced k c"
  have "0 \<le> int k * uint (ch_interval_ns c)" by simp
  with p show "pace_ok c" unfolding paced_def pace_ok_def by linarith
qed

lemma paced_next:
  assumes "paced (Suc k) c" "uint tx = max (t + 50000) (uint (ch_next_tx_ns c))" "t < 2 ^ 62"
    "uint (tx + ch_interval_ns c) = uint tx + uint (ch_interval_ns c)"
  shows "paced k (c\<lparr>ch_next_tx_ns := tx + ch_interval_ns c\<rparr>)"
proof -
  let ?i = "uint (ch_interval_ns c)" and ?k = "int k * uint (ch_interval_ns c)"
  have "int (Suc k) * ?i = ?i + ?k" by (simp add: algebra_simps)
  with assms(1) have h: "2 ^ 62 + 50000 + (?i + ?k) < 2 ^ 63" "uint (ch_next_tx_ns c) + (?i + ?k) < 2 ^ 63" "?i < 2 ^ 62"
    unfolding paced_def by linarith+
  have "uint tx < 2 ^ 62 + 50000 \<or> uint tx = uint (ch_next_tx_ns c)" using assms(2,3) by linarith
  with h have "uint tx + ?i + ?k < 2 ^ 63" by linarith
  moreover have "2 ^ 62 + 50000 + ?k < 2 ^ 63" using h(1) uint_ge_0 [of "ch_interval_ns c"] by linarith
  ultimately show ?thesis using h(3) by (simp add: paced_def assms(4) max_def)
qed

interpretation tas_stream: chan_stream pace_ok i_tas_send_at i_tas_send_now paced
proof unfold_locales
  show "paced (Suc k) c \<Longrightarrow> pace_ok c" for k c by (rule paced_pace_ok)
  show "paced k (updated ts d c) = paced k c" for k ts d c by (simp add: paced_def)
  fix w ch c nh n os k
  assume l: "live w ch c nh n" "sendable os (Suc k) c n" "paced (Suc k) c"
  from i_tas_send_at_ok [OF l(1,2) paced_pace_ok [OF l(3)]] obtain w' ts tx n' where
    s: "os_clock os (w_tick w) CLOCK_TAI = Some ts" "uint tx = max (ts_ns ts + 50000) (uint (ch_next_tx_ns c))"
      "uint (tx + ch_interval_ns c) = uint tx + uint (ch_interval_ns c)"
      "i_tas_send_at os ch None w = Some ((int (unat (ch_payload_size c)), None), w')" "w_net w' = w_net w @ [frame_of c (Some tx)]"
      "live w' ch (c\<lparr>ch_next_tx_ns := tx + ch_interval_ns c\<rparr>) nh (n\<lparr>nh_logger := n'\<rparr>)" "logger_room k (n\<lparr>nh_logger := n'\<rparr>)" by blast
  have "ts_ns ts < 2 ^ 62" using l(2) s(1) unfolding sendable_def clock_ok_def by (metis option.inject)
  from paced_next [OF l(3) s(2) this s(3)] s(4-7)
  show "\<exists>w' t x lg. i_tas_send_at os ch None w = Some ((int (unat (ch_payload_size c)), None), w')
        \<and> w_net w' = w_net w @ [frame_of c t] \<and> live w' ch (c\<lparr>ch_next_tx_ns := x\<rparr>) nh (n\<lparr>nh_logger := lg\<rparr>)
        \<and> logger_room k (n\<lparr>nh_logger := lg\<rparr>) \<and> paced k (c\<lparr>ch_next_tx_ns := x\<rparr>)" by blast
qed

interpretation cbs_stream: chan_stream "\<lambda>_. True" i_cbs_send_at i_cbs_send_now "\<lambda>_ _. True"
proof unfold_locales
  fix w ch c nh n os k
  assume l: "live w ch c nh n" "sendable os (Suc k) c n"
  have "c\<lparr>ch_next_tx_ns := ch_next_tx_ns c\<rparr> = c" by simp
  with i_cbs_send_at_ok [OF l]
  show "\<exists>w' t x lg. i_cbs_send_at os ch None w = Some ((int (unat (ch_payload_size c)), None), w')
        \<and> w_net w' = w_net w @ [frame_of c t] \<and> live w' ch (c\<lparr>ch_next_tx_ns := x\<rparr>) nh (n\<lparr>nh_logger := lg\<rparr>)
        \<and> logger_room k (n\<lparr>nh_logger := lg\<rparr>) \<and> True" by metis
qed simp_all

text \<open>A talker fit for \<open>k\<close> more sends, with either shaper.\<close>

definition talker :: "os \<Rightarrow> nat \<Rightarrow> world \<Rightarrow> addr \<Rightarrow> u64 \<Rightarrow> nat \<Rightarrow> bool" where
  "talker os k w ch sid sz \<longleftrightarrow> (\<exists>c nh n. live w ch c nh n \<and> valid_state c n \<and> sendable os k c n
     \<and> (ch_ops c = Some tas_ops \<and> paced k c \<or> ch_ops c = Some cbs_ops)
     \<and> p_stream_id (ch_pdu c) = sid \<and> unat (ch_payload_size c) = sz)"

definition sample_frame :: "u64 \<Rightarrow> nat \<Rightarrow> tx_frame \<Rightarrow> bytes \<Rightarrow> bool" where
  "sample_frame sid sz f d \<longleftrightarrow> (\<exists>pdu. fr_bytes f = pdu_bytes pdu @ take sz d \<and> p_stream_id pdu = sid)"

lemma chan_send_now_next:
  assumes "talker os (Suc k) w ch sid sz" "sz \<le> length d"
  shows "\<exists>w' f. chan_send_now os (Some ch) (Some d) w = Some (int sz, w') \<and> w_net w' = w_net w @ [f]
    \<and> sample_frame sid sz f d \<and> talker os k w' ch sid sz"
proof -
  from assms(1) obtain c nh n where t: "live w ch c nh n" "valid_state c n" "sendable os (Suc k) c n"
    "ch_ops c = Some tas_ops \<and> paced (Suc k) c \<or> ch_ops c = Some cbs_ops" "p_stream_id (ch_pdu c) = sid" "unat (ch_payload_size c) = sz"
    by (auto simp: talker_def)
  have dispatch: "chan_send_now os (Some ch) (Some d) w =
    (if ch_ops c = Some tas_ops then i_tas_send_now os ch (Some d) w else i_cbs_send_now os ch (Some d) w)"
    using t(1,2,4) chan_valid_live [OF t(1)] by (auto simp: chan_send_now_def live_def)
  obtain w' tm ts x lg where s: "chan_send_now os (Some ch) (Some d) w = Some (int sz, w')"
    "w_net w' = w_net w @ [frame_of (updated ts d c) tm]"
    "live w' ch ((updated ts d c)\<lparr>ch_next_tx_ns := x\<rparr>) nh (n\<lparr>nh_logger := lg\<rparr>)" "logger_room k (n\<lparr>nh_logger := lg\<rparr>)"
    "ch_ops c = Some tas_ops \<Longrightarrow> paced k ((updated ts d c)\<lparr>ch_next_tx_ns := x\<rparr>)"
  proof (cases "ch_ops c = Some tas_ops")
    case True
    then show ?thesis using tas_stream.send_now_next [OF t(1,2,3) _, of d] t(4,6) assms(2) that unfolding dispatch by auto
  next
    case False
    then show ?thesis using cbs_stream.send_now_next [OF t(1,2,3) _, of d] t(4,6) assms(2) that unfolding dispatch by auto
  qed
  let ?c = "(updated ts d c)\<lparr>ch_next_tx_ns := x\<rparr>"
  have "sample_frame sid sz (frame_of (updated ts d c) tm) d"
    using t(5,6) assms(2) by (auto simp: sample_frame_def frame_of_def frame_bytes_def updated_def overwrite_def)
  moreover have "talker os k w' ch sid sz"
    unfolding talker_def using s(3,4,5) t assms(2)
    by (intro exI [of _ ?c] exI [of _ nh] exI [of _ "n\<lparr>nh_logger := lg\<rparr>"])
      (auto simp: valid_state_def sendable_def payload_ok_def updated_def overwrite_def)
  ultimately show ?thesis using s(1,2) by blast
qed

lemma chan_send_all_frames:
  "talker os (length ds) w ch sid sz \<Longrightarrow> \<forall>d \<in> set ds. length d = sz \<Longrightarrow>
    \<exists>w' fs. chan_send_all os ch ds w = Some (replicate (length ds) (int sz), w') \<and> w_net w' = w_net w @ fs
      \<and> list_all2 (sample_frame sid sz) fs ds"
proof (induction ds arbitrary: w)
  case (Cons d ds)
  obtain w1 f where w1: "chan_send_now os (Some ch) (Some d) w = Some (int sz, w1)" "w_net w1 = w_net w @ [f]"
    "sample_frame sid sz f d" "talker os (length ds) w1 ch sid sz"
    using chan_send_now_next [of os "length ds" w ch sid sz d] Cons.prems by auto
  with Cons.IH [OF w1(4)] Cons.prems(2) obtain w' fs where "chan_send_all os ch ds w1 = Some (replicate (length ds) (int sz), w')"
    "w_net w' = w_net w1 @ fs" "list_all2 (sample_frame sid sz) fs ds" by auto
  with w1 show ?case by (intro exI [of _ w'] exI [of _ "f # fs"]) simp
qed simp

section \<open>Reading a sequence of samples\<close>

fun chan_read_all :: "os \<Rightarrow> addr \<Rightarrow> nat \<Rightarrow> nat \<Rightarrow> world \<Rightarrow> (bytes list \<times> world) option" where
  "chan_read_all os ch sz 0 w = Some ([], w)"
| "chan_read_all os ch sz (Suc k) w = do {
     ((_, data), w) \<leftarrow> chan_read os Some (Some ch) (Some (replicate sz 0)) w;
     d \<leftarrow> data;
     (ds, w) \<leftarrow> chan_read_all os ch sz k w;
     Some (d # ds, w)
   }"

lemma chan_read_all_records:
  "reader w ch c nh n a wr (concat (map2 (\<lambda>m d. meta_bytes m @ d) ms ds)) \<Longrightarrow> length ms = length ds \<Longrightarrow>
    \<forall>d \<in> set ds. length d = unat (ch_payload_size c) \<Longrightarrow> nh_ftrace_break_us n \<le> 0 \<Longrightarrow>
    \<exists>w'. chan_read_all os ch (unat (ch_payload_size c)) (length ds) w = Some (ds, w')"
proof (induction ds arbitrary: w ms)
  case (Cons d ds)
  then obtain m ms' where ms: "ms = m # ms'" by (cases ms) auto
  have "no_break n m" using Cons.prems(4) by (simp add: no_break_def)
  then obtain w1 where w1: "chan_read os Some (Some ch) (Some (replicate (length d) 0)) w = Some ((int (20 + length d), Some d), w1)"
    "reader w1 ch c nh n a wr (concat (map2 (\<lambda>m d. meta_bytes m @ d) ms' ds))"
    using chan_read_record [of w ch c nh n a wr m d _ "replicate (length d) 0" os] Cons.prems ms by (auto simp: overwrite_def)
  with Cons.IH [OF w1(2)] Cons.prems ms show ?case by auto
qed simp

text \<open>A listening application: an Rx channel that is registered and open, with nothing pending and no trace break.\<close>

definition listening :: "world \<Rightarrow> addr \<Rightarrow> channel \<Rightarrow> addr \<Rightarrow> nethandler \<Rightarrow> u64 \<Rightarrow> bool" where
  "listening w ch c nh n sid \<longleftrightarrow> live w ch c nh n \<and> valid_state c n \<and> \<not> ch_stopping c
     \<and> receiver w nh n sid (unat (ch_payload_size c)) (ch_fd_r c) []
     \<and> (\<exists>a. ch_cbp c = Some a \<and> hm_lookup (nh_hmap n) sid = Some (Some a, Std_cb))
     \<and> 0 < nh_rx_sock n \<and> nh_ftrace_break_us n \<le> 0"

lemma listening_reader:
  assumes "listening w ch c nh n sid" "receiver w' nh n sid (unat (ch_payload_size c)) (ch_fd_r c) buf" "w_ch w' = w_ch w"
  shows "\<exists>a wr. reader w' ch c nh n a wr buf"
  using assms by (fastforce simp: listening_def receiver_def reader_def live_def)

text \<open>The network hands over a frame: the Ethernet header in front of what was sent.\<close>

definition hands_over :: "rx_event \<Rightarrow> tx_frame \<Rightarrow> bool" where
  "hands_over ev f \<longleftrightarrow> \<not> ev_stop ev
     \<and> (\<exists>dst src. length dst = 6 \<and> length src = 6 \<and> ev_frame ev = Some (eth_frame dst src (fr_bytes f)))"

lemma hands_over_carries:
  assumes "list_all2 (sample_frame nsid sz) fs ds" "list_all2 hands_over evs fs" "\<forall>d \<in> set ds. length d = sz" "sz \<le> 1484"
  shows "\<exists>pdus. length pdus = length ds \<and> list_all2 (carries (be64toh nsid) sz) evs (zip pdus ds)"
  using assms
proof (induction fs ds arbitrary: evs rule: list_all2_induct)
  case (Cons f fs d ds)
  then obtain ev evs' where evs: "evs = ev # evs'" "hands_over ev f" "list_all2 hands_over evs' fs"
    by (auto simp: list_all2_Cons2)
  then obtain pdus where "length pdus = length ds" "list_all2 (carries (be64toh nsid) sz) evs' (zip pdus ds)"
    using Cons.IH [OF evs(3)] Cons.prems by auto
  moreover obtain pdu where "fr_bytes f = pdu_bytes pdu @ d" "p_stream_id pdu = nsid"
    using Cons.hyps(1) Cons.prems(2) by (auto simp: sample_frame_def)
  then have "carries (be64toh nsid) sz ev (pdu, d)" using evs(2) Cons.prems(2,3) by (auto simp: carries_def hands_over_def)
  ultimately show ?case using evs(1) by (intro exI [of _ "pdu # pdus"]) simp
qed simp

lemma records_concat:
  assumes "length pdus = length ds" "length ms = length ds" "\<forall>d \<in> set ds. length d = sz"
  shows "concat (map2 (\<lambda>m (p, pl). meta_bytes m @ take sz pl) ms (zip pdus ds)) = concat (map2 (\<lambda>m d. meta_bytes m @ d) ms ds)"
proof -
  have "map2 (\<lambda>m (p, pl). meta_bytes m @ take sz pl) ms (zip pdus ds) = map2 (\<lambda>m d. meta_bytes m @ d) ms ds"
    using assms by (intro nth_equalityI) (auto simp: all_set_conv_all_nth)
  then show ?thesis by simp
qed

lemma frames_are_recorded:
  assumes "list_all2 (sample_frame nsid sz) fs ds" "list_all2 hands_over evs fs" "\<forall>d \<in> set ds. length d = sz" "sz \<le> 1484"
    and l: "listening w ch c nh n (be64toh nsid)" "unat (ch_payload_size c) = sz" "unbounded_pipes os"
  shows "\<exists>w1 ms a wr. nh_runner os ucb (Some nh) evs w = Some w1 \<and> length ms = length ds
    \<and> reader w1 ch c nh n a wr (concat (map2 (\<lambda>m d. meta_bytes m @ d) ms ds))"
proof -
  obtain pdus where p: "length pdus = length ds" "list_all2 (carries (be64toh nsid) sz) evs (zip pdus ds)"
    using hands_over_carries [OF assms(1-4)] by blast
  have r: "receiver w nh n (be64toh nsid) sz (ch_fd_r c) []" "0 < nh_rx_sock n" "w_nh w nh = Some n"
    using l(1,2) by (auto simp: listening_def live_def)
  obtain w1 ms where w1: "nh_runner_loop os ucb nh evs (replicate 1522 0) w = Some w1"
    "map m_avtp_timestamp ms = map (\<lambda>(p, pl). ntohl (p_avtp_timestamp p)) (zip pdus ds)"
    "receiver w1 nh n (be64toh nsid) sz (ch_fd_r c) (concat (map2 (\<lambda>m (p, pl). meta_bytes m @ take sz pl) ms (zip pdus ds)))"
    "w_ch w1 = w_ch w"
    using nh_runner_loop_frames [OF p(2) r(1) l(3), of "replicate 1522 0" ucb, unfolded append_Nil length_replicate, OF refl] by blast
  from w1(2) have "length ms = length (zip pdus ds)" by (rule map_eq_imp_length_eq)
  with p(1) have len: "length ms = length ds" by simp
  obtain a wr where "reader w1 ch c nh n a wr (concat (map2 (\<lambda>m d. meta_bytes m @ d) ms ds))"
    using listening_reader [OF l(1) w1(3) [unfolded records_concat [OF p(1) len assms(3)], folded l(2)] w1(4)] by blast
  with w1(1) r(2,3) len show ?thesis by (auto simp: nh_runner_def)
qed

lemma frames_are_read:
  assumes "list_all2 (sample_frame nsid sz) fs ds" "list_all2 hands_over evs fs" "\<forall>d \<in> set ds. length d = sz" "sz \<le> 1484"
    and l: "listening w ch c nh n (be64toh nsid)" "unat (ch_payload_size c) = sz" "unbounded_pipes os"
  shows "\<exists>w1 w2. nh_runner os ucb (Some nh) evs w = Some w1 \<and> chan_read_all os ch sz (length ds) w1 = Some (ds, w2)"
proof -
  obtain w1 ms a wr where w1: "nh_runner os ucb (Some nh) evs w = Some w1" "length ms = length ds"
    "reader w1 ch c nh n a wr (concat (map2 (\<lambda>m d. meta_bytes m @ d) ms ds))" using frames_are_recorded [OF assms] by blast
  have "nh_ftrace_break_us n \<le> 0" using l(1) by (simp add: listening_def)
  from chan_read_all_records [OF w1(3,2) _ this, of os] assms(3) l(2) w1(1) show ?thesis by auto
qed

section \<open>Properties\<close>

text \<open>C1: End to end.  A talker, with either shaper, sends any number of samples of its payload size: every call
  returns that size.  When the network hands the frames it sent, in order, to a handler with a listening channel of the
  same stream and payload size, the receive thread takes them all, and the listening application then reads exactly
  these samples, each complete and in the order they were sent.\<close>

theorem samples_arrive_in_order:
  assumes "talker os (length ds) w ch nsid sz" "\<forall>d \<in> set ds. length d = sz" "sz \<le> 1484"
    and "listening w' ch' c nh n (be64toh nsid)" "unat (ch_payload_size c) = sz" "unbounded_pipes os'"
  shows "\<exists>w1 fs. chan_send_all os ch ds w = Some (replicate (length ds) (int sz), w1) \<and> w_net w1 = w_net w @ fs
    \<and> (\<forall>evs. list_all2 hands_over evs fs \<longrightarrow>
         (\<exists>w2 w3. nh_runner os' ucb (Some nh) evs w' = Some w2 \<and> chan_read_all os' ch' sz (length ds) w2 = Some (ds, w3)))"
proof -
  from chan_send_all_frames [OF assms(1,2)] obtain w1 fs where
    "chan_send_all os ch ds w = Some (replicate (length ds) (int sz), w1)" "w_net w1 = w_net w @ fs" "list_all2 (sample_frame nsid sz) fs ds" by blast
  moreover from this(3) frames_are_read [OF _ _ assms(2-6)]
  have "list_all2 hands_over evs fs \<Longrightarrow>
    \<exists>w2 w3. nh_runner os' ucb (Some nh) evs w' = Some w2 \<and> chan_read_all os' ch' sz (length ds) w2 = Some (ds, w3)" for evs by blast
  ultimately show ?thesis by blast
qed

text \<open>The example's talker, on the stream that the example's listener listens to.\<close>

definition demo_pair :: world where
  "demo_pair = demo_world\<lparr>w_ch := (w_ch demo_world)(2 \<mapsto> demo_tx\<lparr>ch_sidw := 43, ch_pdu := (ch_pdu demo_tx)\<lparr>p_stream_id := htobe64 43\<rparr>\<rparr>)\<rparr>"

lemma demo_talker: "talker demo_os 2 demo_pair 2 (htobe64 43) 8"
proof -
  let ?c = "demo_tx\<lparr>ch_sidw := 43, ch_pdu := (ch_pdu demo_tx)\<lparr>p_stream_id := htobe64 43\<rparr>\<rparr>"
  have "live demo_pair 2 ?c 1 demo_nh" "valid_state ?c demo_nh" "sendable demo_os 2 ?c demo_nh" "paced 2 ?c"
    using demo_live(1) demo_valid(1) demo_sendable(1) [of 2]
    by (simp_all add: demo_pair_def live_def valid_state_def sendable_def payload_ok_def paced_def demo_fields)
  then show ?thesis unfolding talker_def
    by (intro exI [of _ ?c] exI [of _ 1] exI [of _ demo_nh]) (simp add: demo_fields)
qed

lemma demo_listening: "listening demo_world 3 demo_rx 1 demo_nh 43"
  using demo_live(2) demo_valid(2) demo_receiver(1) demo_lookup
  by (simp add: listening_def demo_fields) (simp add: demo_nh_def zero_nethandler_def)

theorem samples_arrive_in_order_witness:
  "\<exists>w1 fs. chan_send_all demo_os 2 [replicate 8 1, replicate 8 2] demo_pair = Some ([8, 8], w1) \<and> w_net w1 = fs
    \<and> (\<forall>evs. list_all2 hands_over evs fs \<longrightarrow>
         (\<exists>w2 w3. nh_runner demo_os (\<lambda>_ _ _ _. None) (Some 1) evs demo_world = Some w2
            \<and> chan_read_all demo_os 3 8 2 w2 = Some ([replicate 8 1, replicate 8 2], w3)))"
proof -
  let ?ds = "[replicate 8 1, replicate 8 2] :: bytes list"
  have len: "length ?ds = 2" "replicate 2 (int 8) = [8, 8]" by (simp_all add: numeral_2_eq_2)
  have "be64toh (htobe64 43) = 43" "w_net demo_pair = []" by (simp_all add: demo_pair_def demo_world_def empty_world_def)
  moreover have "\<forall>d \<in> set ?ds. length d = 8" by simp
  ultimately show ?thesis
    using samples_arrive_in_order [of demo_os ?ds demo_pair 2 "htobe64 43" 8 demo_world 3 demo_rx 1 demo_nh demo_os
        "\<lambda>_ _ _ _. None", unfolded len] demo_talker demo_listening demo_receiver(2)
    by (simp only: append_Nil demo_fields) simp
qed

end
