(* ===== verification/Ex_Manifest.thy ===== *)
theory Ex_Manifest
  imports Standalone Delivery
begin

text \<open>
  The manifest of the example programs (\<^verbatim>\<open>examples/manifest.h\<close>): the sample they exchange, as a struct and
  as bytes, and the attributes of their four channels; and the calls the programs share: a timer from the clock of the
  system, and the wait for its next cycle.
\<close>

section \<open>The sample\<close>

text \<open>A packed struct of 32 bytes.\<close>

record sensor =
  s_val :: u64
  s_seqnr :: u64
  s_ts :: u64
  s_tx_offset :: u64

definition sizeof_sensor :: nat where "sizeof_sensor = 32"

definition sensor_bytes :: "sensor \<Rightarrow> bytes" where
  "sensor_bytes s = le_bytes 8 (s_val s) @ le_bytes 8 (s_seqnr s) @ le_bytes 8 (s_ts s) @ le_bytes 8 (s_tx_offset s)"

definition sensor_of_bytes :: "bytes \<Rightarrow> sensor" where
  "sensor_of_bytes bs = \<lparr>s_val = of_le (take 8 bs), s_seqnr = of_le (take 8 (drop 8 bs)),
     s_ts = of_le (take 8 (drop 16 bs)), s_tx_offset = of_le (take 8 (drop 24 bs))\<rparr>"

section \<open>The channels\<close>

definition IDX_42 :: nat where "IDX_42 = 0"
definition IDX_154 :: nat where "IDX_154 = 1"
definition IDX_17 :: nat where "IDX_17 = 2"
definition IDX_18 :: nat where "IDX_18 = 3"

definition HZ_200 :: u64 where "HZ_200 = word_of_int (5 * NS_IN_MS)"
definition HZ_100 :: u64 where "HZ_100 = word_of_int (10 * NS_IN_MS)"
definition HZ_5 :: u64 where "HZ_5 = word_of_int (200 * NS_IN_MS)"

text \<open>The C build, in which the entries have names.\<close>

definition nc_channels :: "channel_attrs list" where
  "nc_channels =
     [\<lparr>a_dst = [0x01, 0x00, 0x5E, 0x01, 0x11, 0x42], a_stream_id = 42, a_sc = SC_CLASS_A,
       a_size = of_nat sizeof_sensor, a_interval_ns = HZ_200, a_name = ''mcast42''\<rparr>,
      \<lparr>a_dst = [0x01, 0x00, 0x5E, 0x01, 0x11, 0x9A], a_stream_id = 154, a_sc = SC_TAS,
       a_size = of_nat sizeof_sensor, a_interval_ns = HZ_5, a_name = ''mcast154''\<rparr>,
      \<lparr>a_dst = [0x01, 0x00, 0x5E, 0x01, 0x11, 0x17], a_stream_id = 17, a_sc = SC_TAS,
       a_size = 8, a_interval_ns = HZ_100, a_name = ''mcast17''\<rparr>,
      \<lparr>a_dst = [0x01, 0x00, 0x5E, 0x01, 0x11, 0x18], a_stream_id = 18, a_sc = SC_CLASS_A,
       a_size = 8, a_interval_ns = HZ_100, a_name = ''mcast18''\<rparr>]"

lemmas ex_consts = sizeof_sensor_def IDX_42_def IDX_154_def IDX_17_def IDX_18_def HZ_200_def HZ_100_def HZ_5_def

section \<open>Timers\<close>

text \<open>
  The functions of theory Periodic_Timer on the clock and the sleeps of the world: \<^verbatim>\<open>malloc\<close>, then
  \<^verbatim>\<open>clock_gettime\<close>.  A clock that fails leaves the new timer uninitialised (\<open>None\<close>), unless there is no new timer.
\<close>

definition start_timer ::
  "os \<Rightarrow> int \<Rightarrow> (bool \<Rightarrow> (int \<Rightarrow> timespec) \<Rightarrow> periodic_timer option) \<Rightarrow> world \<Rightarrow> (periodic_timer option \<times> world) option" where
  "start_timer os clockid init w =
     (let malloc_ok = os_malloc os (w_tick w)
      in case os_clock os (Suc (w_tick w)) clockid of
           Some now \<Rightarrow> Some (init malloc_ok (\<lambda>_. now), tick (tick w))
         | None \<Rightarrow> if init malloc_ok (\<lambda>_. \<lparr>tv_sec = 0, tv_nsec = 0\<rparr>) = None then Some (None, tick w) else None)"

definition timer_of :: "os \<Rightarrow> u64 \<Rightarrow> u64 \<Rightarrow> int \<Rightarrow> world \<Rightarrow> (periodic_timer option \<times> world) option" where
  "timer_of os base_ns phase_ns clockid w = start_timer os clockid (\<lambda>malloc_ok clock. pt_init malloc_ok clock base_ns phase_ns clockid) w"

definition timer_from_attr :: "os \<Rightarrow> channel_attrs \<Rightarrow> world \<Rightarrow> (periodic_timer option \<times> world) option" where
  "timer_from_attr os a w =
     start_timer os (if a_sc a = SC_TAS then CLOCK_TAI else CLOCK_REALTIME) (\<lambda>malloc_ok clock. pt_init_from_attr malloc_ok clock (Some a)) w"

definition await_cycle :: "os \<Rightarrow> periodic_timer option \<Rightarrow> world \<Rightarrow> periodic_timer option \<times> world" where
  "await_cycle os ptp w =
     (case fst (pt_next_cycle (os_nanosleep os (w_tick w)) ptp) of
        None \<Rightarrow> (None, w)
      | Some pt \<Rightarrow> (Some pt, snd (os_sleep_until os (pt_clock_id pt) (pt_ts pt) w)))"

section \<open>Facts\<close>

lemma length_sensor_bytes [simp]: "length (sensor_bytes s) = 32"
  by (simp add: sensor_bytes_def)

interpretation sensor_codec: fixed_codec sizeof_sensor sensor_bytes sensor_of_bytes
proof unfold_locales
  fix x rest show "sensor_of_bytes (sensor_bytes x @ rest) = x"
    by (simp add: sensor_of_bytes_def sensor_bytes_def)
next
  fix bs rest :: bytes
  assume len: "length bs = sizeof_sensor"
  then have "sensor_bytes (sensor_of_bytes (bs @ rest)) =
    take 8 bs @ take 8 (drop 8 bs) @ take 8 (drop 16 bs) @ take 8 (drop 24 bs)"
    by (simp add: sizeof_sensor_def sensor_bytes_def sensor_of_bytes_def le_bytes_of_le_len)
  also have "\<dots> = take 32 bs"
    by (simp add: take_split [of 8 32 bs] take_split [of 8 24 "drop 8 bs"] take_split [of 8 16 "drop 16 bs"])
  finally show "sensor_bytes (sensor_of_bytes (bs @ rest)) = bs"
    using len by (simp add: sizeof_sensor_def)
qed (simp add: sizeof_sensor_def)

lemma sensor_of_sensor_bytes [simp]: "sensor_of_bytes (sensor_bytes s) = s"
  using sensor_codec.dec_enc [of s "[]"] by simp

text \<open>The wait changes nothing but the record of sleeps and the count of calls.\<close>

lemma await_cycle_heaps [simp]:
  "w_ch (snd (await_cycle os pt w)) = w_ch w" "w_nh (snd (await_cycle os pt w)) = w_nh w"
  "w_net (snd (await_cycle os pt w)) = w_net w" "w_cb (snd (await_cycle os pt w)) = w_cb w"
  "w_fds (snd (await_cycle os pt w)) = w_fds w" "w_pipes (snd (await_cycle os pt w)) = w_pipes w"
  by (simp_all add: await_cycle_def os_sleep_until_def split: option.splits)

lemma talker_heaps:
  assumes "w_ch w' = w_ch w" "w_nh w' = w_nh w"
  shows "talker os k w' ch sid sz = talker os k w ch sid sz"
  using assms by (simp add: talker_def live_def)

text \<open>Every entry of the manifest is admitted exactly on links of at least 156.8 kbit/s, the rate of \<^verbatim>\<open>mcast42\<close>.\<close>

lemma manifest_admitted:
  "list_all (\<lambda>a. i_valid_size (a_size a) \<and> i_valid_interval speed (a_interval_ns a) (a_size a) = Some True) nc_channels
     \<longleftrightarrow> 156800 \<le> uint speed"
proof -
  have nz: "speed = 0 \<longleftrightarrow> uint speed = 0" by (simp add: uint_0_iff)
  have div: "k \<le> c div uint speed \<longleftrightarrow> k * uint speed \<le> c" if "0 < uint speed" for c k
  proof
    assume "k \<le> c div uint speed"
    then have "k * uint speed \<le> c div uint speed * uint speed" using that by (simp add: mult_right_mono)
    also have "\<dots> \<le> c" using that by (simp add: minus_mod_eq_div_mult [symmetric])
    finally show "k * uint speed \<le> c" .
  next
    assume "k * uint speed \<le> c"
    then have "k * uint speed div uint speed \<le> c div uint speed" using that by (rule zdiv_mono1)
    then show "k \<le> c div uint speed" using that by simp
  qed
  show ?thesis
    using uint_ge_0 [of speed]
    by (auto simp: nc_channels_def ex_consts nc_consts i_valid_size_def i_valid_interval_def Let_def nz div)
qed

end
