(* ===== verification/Ex_Programs.thy ===== *)
theory Ex_Programs
  imports Ex_Manifest
begin

text \<open>
  The example programs in C on the manifest: \<^verbatim>\<open>examples/talker.c\<close> and \<^verbatim>\<open>examples/listener.c\<close> on the standalone interface,
  and \<^verbatim>\<open>examples/send_at_talker.c\<close>, \<^verbatim>\<open>examples/send_at_recv.c\<close> and \<^verbatim>\<open>examples/invalid_talker.c\<close> on the handler itself.
  \<open>sigint k\<close> is whether the signal handler, which clears \<^verbatim>\<open>running\<close>, has run before round \<open>k\<close> of a loop.  Clock readings that are
  only printed, and \<^verbatim>\<open>usleep\<close>, are calls without an effect on the state (\<open>tick\<close>).
\<close>

section \<open>talker.c\<close>

definition LIMIT :: u64 where "LIMIT = 5000"

lemma below_LIMIT: "x < LIMIT \<Longrightarrow> 5000 - unat (x + 1) < 5000 - unat x"
  by (simp add: LIMIT_def word_less_nat_alt unat_word_ariths(1))

definition first_sample :: sensor where
  "first_sample = \<lparr>s_val = 0xdeadbeef, s_seqnr = 0, s_ts = 0, s_tx_offset = 100\<rparr>"

function talker_loop ::
  "os \<Rightarrow> (nat \<Rightarrow> bool) \<Rightarrow> addr option \<Rightarrow> periodic_timer option \<Rightarrow> sensor \<Rightarrow> bool \<Rightarrow> world \<Rightarrow> (sensor \<times> world) option" where
  "talker_loop os sigint ch pt s running w =
     (if s_seqnr s < LIMIT \<and> running \<and> \<not> sigint (unat (s_seqnr s))
      then do {
        (res, w) \<leftarrow> chan_send_now os ch (Some (sensor_bytes s)) w;
        let running = (if res < 0 then False else running);
        let (pt, w) = await_cycle os pt w;
        talker_loop os sigint ch pt (s\<lparr>s_seqnr := s_seqnr s + 1\<rparr>) running w
      }
      else Some (s, w))"
  by pat_completeness auto
termination
  by (relation "measure (\<lambda>(_, _, _, _, s, _, _). 5000 - unat (s_seqnr s))") (auto simp: below_LIMIT)

declare talker_loop.simps [simp del]

text \<open>From the timer to the end marker, which is sent twice.\<close>

definition talker_run :: "os \<Rightarrow> (nat \<Rightarrow> bool) \<Rightarrow> addr option \<Rightarrow> world \<Rightarrow> world option" where
  "talker_run os sigint ch w = do {
     (pt, w) \<leftarrow> timer_from_attr os (nc_channels ! IDX_42) (tick w);
     (s, w) \<leftarrow> talker_loop os sigint ch pt first_sample True w;
     let s = s\<lparr>s_seqnr := - 1\<rparr>;
     (_, w) \<leftarrow> chan_send_now os ch (Some (sensor_bytes s)) (tick w);
     (_, w) \<leftarrow> chan_send_now os ch (Some (sensor_bytes s)) (tick w);
     Some w
   }"

definition talker_main ::
  "os \<Rightarrow> interference \<Rightarrow> (nat \<Rightarrow> bool) \<Rightarrow> (int \<times> string option) list \<Rightarrow> world \<Rightarrow> (int \<times> standalone \<times> world) option" where
  "talker_main os others sigint opts w = do {
     st \<leftarrow> run_options opts statics;
     (ch, st, w) \<leftarrow> chan_create_standalone os others (Some ''mcast42'') True (Some nc_channels) (int (length nc_channels)) st w;
     if ch = None then Some (-1, st, w)
     else do {
       w \<leftarrow> talker_run os sigint ch w;
       (st, w) \<leftarrow> nh_destroy_standalone os st w;
       Some (0, st, w)
     }
   }"

section \<open>listener.c\<close>

text \<open>
  The loop with what it prints.  \<open>others k\<close> is what the other threads do while read \<open>k\<close> blocks.  The result of
  \<^verbatim>\<open>READ_WAIT\<close> is not used, and \<^verbatim>\<open>s.seqnr >= 0\<close> compares an unsigned number.
\<close>

definition nl :: string where "nl = [CHR 0x0A]"

definition progress :: "sensor \<Rightarrow> string" where
  "progress s = (if s_seqnr s mod 10 = 0 then ''.'' else '''') @ (if s_seqnr s mod 200 = 0 then dec (unat (s_seqnr s)) @ nl else '''')"

partial_function (option) listener_loop ::
  "os \<Rightarrow> interference \<Rightarrow> (nat \<Rightarrow> bool) \<Rightarrow> addr option \<Rightarrow> nat \<Rightarrow> sensor \<Rightarrow> bool \<Rightarrow> string \<Rightarrow> world \<Rightarrow> (sensor \<times> string \<times> world) option" where
  "listener_loop os others sigint ch k s running out w =
     (if running \<and> \<not> sigint k \<and> s_seqnr s \<ge> 0
      then do {
        ((_, mem), w) \<leftarrow> chan_read_wait os (others k) ch (Some (sensor_bytes s)) w;
        bs \<leftarrow> mem;
        let s = sensor_of_bytes bs;
        if s_seqnr s = - 1
        then listener_loop os others sigint ch (Suc k) s False (out @ ''Magic marker received, stopping'' @ nl) w
        else listener_loop os others sigint ch (Suc k) s running (out @ progress s) w
      }
      else Some (s, out, w))"

definition zero_sensor :: sensor where
  "zero_sensor = \<lparr>s_val = 0, s_seqnr = 0, s_ts = 0, s_tx_offset = 0\<rparr>"

definition listener_main ::
  "os \<Rightarrow> interference \<Rightarrow> interference \<Rightarrow> (nat \<Rightarrow> bool) \<Rightarrow> (int \<times> string option) list \<Rightarrow> world \<Rightarrow> (int \<times> string \<times> standalone \<times> world) option" where
  "listener_main os others readers sigint opts w = do {
     st \<leftarrow> run_options opts statics;
     (ch, st, w) \<leftarrow> chan_create_standalone os others (Some ''mcast42'') False (Some nc_channels) (int (length nc_channels)) st w;
     (s, out, w) \<leftarrow> listener_loop os readers sigint ch 0 zero_sensor True '''' (tick (tick w));
     (st, w) \<leftarrow> nh_destroy_standalone os st (tick w);
     Some (0, out, st, w)
   }"

section \<open>send_at_talker.c and send_at_recv.c\<close>

text \<open>\<open>argv\<close> are the arguments of the command line; the names of the log files are literals.\<close>

fun send_at_loop :: "os \<Rightarrow> addr option \<Rightarrow> nat \<Rightarrow> periodic_timer option \<Rightarrow> sensor \<Rightarrow> world \<Rightarrow> (sensor \<times> world) option" where
  "send_at_loop os ch 0 pt s w = Some (s, w)"
| "send_at_loop os ch (Suc k) pt s w = do {
     (ts, w) \<leftarrow> read_tai os w;
     let s = s\<lparr>s_ts := ts, s_seqnr := s_seqnr s + 1\<rparr>;
     (_, w) \<leftarrow> chan_update ch ts (Some (sensor_bytes s)) w;
     (_, w) \<leftarrow> chan_send os ch (Some (ts + s_tx_offset s)) w;
     let (pt, w) = await_cycle os pt w;
     send_at_loop os ch k pt s w
   }"

definition send_at_talker_main :: "os \<Rightarrow> string list \<Rightarrow> world \<Rightarrow> (int \<times> world) option" where
  "send_at_talker_main os argv w =
     (if length argv \<noteq> 2 then Some (-1, w)
      else do {
        (nh, w) \<leftarrow> nh_create_init os (Some (argv ! 1)) 17 (Some ''sendat_tx.csv'') w;
        (ch, w) \<leftarrow> chan_create_tx os nh (Some (nc_channels ! IDX_42)) w;
        w \<leftarrow> nh_enable_ftrace os nh w;
        if ch = None then Some (-1, w)
        else do {
          let s = \<lparr>s_val = 0xdeadbeef, s_seqnr = 1337, s_ts = 0, s_tx_offset = word_of_int (500 * NS_IN_MS)\<rparr>;
          (pt, w) \<leftarrow> timer_of os 0 (word_of_int NS_IN_SEC) CLOCK_TAI w;
          (s, w) \<leftarrow> send_at_loop os ch 10 pt s w;
          let s = s\<lparr>s_seqnr := - 1, s_val := - 1\<rparr>;
          (_, w) \<leftarrow> chan_send_now os ch (Some (sensor_bytes s)) w;
          w \<leftarrow> nh_destroy os (Nh_local nh) w;
          Some (0, w)
        }
      })"

text \<open>The receiver, until it reads the end marker; what it prints is computed from the sample and the clock.\<close>

partial_function (option) send_at_recv_loop :: "os \<Rightarrow> interference \<Rightarrow> addr option \<Rightarrow> nat \<Rightarrow> sensor \<Rightarrow> world \<Rightarrow> (sensor \<times> world) option" where
  "send_at_recv_loop os others ch k s w = do {
     ((_, mem), w) \<leftarrow> chan_read os (others k) ch (Some (sensor_bytes s)) w;
     bs \<leftarrow> mem;
     let s = sensor_of_bytes bs;
     (ts, w) \<leftarrow> read_tai os w;
     if s_seqnr s = - 1 then Some (s, w) else send_at_recv_loop os others ch (Suc k) s w
   }"

definition send_at_recv_main :: "os \<Rightarrow> interference \<Rightarrow> string list \<Rightarrow> world \<Rightarrow> (int \<times> world) option" where
  "send_at_recv_main os others argv w =
     (if length argv \<noteq> 2 then Some (-1, w)
      else do {
        (nh, w) \<leftarrow> nh_create_init os (Some (argv ! 1)) 17 (Some ''sendat_rx.csv'') w;
        (ch, w) \<leftarrow> chan_create_rx os nh (Some (nc_channels ! IDX_42)) w;
        w \<leftarrow> nh_enable_ftrace os nh w;
        if ch = None then Some (-1, w)
        else do {
          (_, w) \<leftarrow> send_at_recv_loop os others ch 0 zero_sensor w;
          w \<leftarrow> nh_destroy os (Nh_local nh) w;
          Some (0, w)
        }
      })"

section \<open>invalid_talker.c\<close>

text \<open>Two channels, A with the credit-based and B with the time-aware shaper; the launch times are the next full second and
  half a second later.\<close>

definition next_full_second :: "u64 \<Rightarrow> u64" where
  "next_full_second now = now - now mod 1000000000 + 1000000000"

definition invalid_talker_main :: "os \<Rightarrow> world \<Rightarrow> (int \<times> world) option" where
  "invalid_talker_main os w = do {
     (nh, w) \<leftarrow> nh_create_init os (Some ''enp6s0.2'') 17 (Some ''talker.csv'') w;
     (txa, w) \<leftarrow> chan_create_tx os nh (Some (nc_channels ! IDX_42)) w;
     (txb, w) \<leftarrow> chan_create_tx os nh (Some (nc_channels ! IDX_154)) w;
     if txa = None \<or> txb = None then Some (-1, w)
     else do {
       (now, w) \<leftarrow> read_tai os w;
       let now_a = next_full_second now;
       let a = \<lparr>s_val = 0xaaaaaaaaaaaaaaaa, s_seqnr = 1337, s_ts = now_a, s_tx_offset = 0\<rparr>;
       let now_b = next_full_second now + word_of_int (500 * NS_IN_MS);
       let b = \<lparr>s_val = 0xbbbbbbbbbbbbbbbb, s_seqnr = 42, s_ts = now_b, s_tx_offset = 0\<rparr>;
       (_, w) \<leftarrow> chan_update txa now_a (Some (sensor_bytes a)) w;
       (_, w) \<leftarrow> chan_update txb now_b (Some (sensor_bytes b)) w;
       (_, w) \<leftarrow> chan_send os txa (Some now_a) w;
       (_, w) \<leftarrow> chan_send os txb (Some now_b) w;
       w \<leftarrow> nh_rotate_logs os nh ((tick ^^ 10) w);
       w \<leftarrow> nh_destroy os (Nh_local nh) w;
       Some (0, w)
     }
   }"

section \<open>Facts\<close>

definition sample :: "nat \<Rightarrow> sensor" where
  "sample k = first_sample\<lparr>s_seqnr := of_nat k\<rparr>"

lemma s_seqnr_sample [simp]: "s_seqnr (sample k) = of_nat k"
  by (simp add: sample_def)

lemma sample_not_marker: "k < 5000 \<Longrightarrow> s_seqnr (sample k) \<noteq> - 1"
proof
  assume k: "k < 5000" "s_seqnr (sample k) = - 1"
  have "unat (of_nat k :: u64) = k" using k(1) by (simp add: unat_of_nat take_bit_nat_eq_self)
  with k show False by (simp add: unsigned_minus_1_eq_mask mask_eq_exp_minus_1)
qed

definition end_marker :: sensor where
  "end_marker = first_sample\<lparr>s_seqnr := - 1\<rparr>"

text \<open>The loop from sample \<open>5000 - d\<close> on, with \<open>k\<close> sends to spare.\<close>

lemma talker_loop_frames:
  "talker os (d + k) w ch sid 32 \<Longrightarrow> d \<le> 5000 \<Longrightarrow>
    \<exists>w' fs. talker_loop os (\<lambda>_. False) (Some ch) pt (sample (5000 - d)) True w = Some (sample 5000, w')
      \<and> w_net w' = w_net w @ fs \<and> talker os k w' ch sid 32
      \<and> list_all2 (sample_frame sid 32) fs (map (\<lambda>i. sensor_bytes (sample i)) [5000 - d..<5000])"
proof (induction d arbitrary: w pt)
  case 0
  then show ?case by (intro exI [of _ w] exI [of _ "[]"]) (subst talker_loop.simps, simp add: LIMIT_def)
next
  case (Suc d)
  let ?i = "5000 - Suc d"
  obtain w1 f where w1: "chan_send_now os (Some ch) (Some (sensor_bytes (sample ?i))) w = Some (32, w1)" "w_net w1 = w_net w @ [f]"
    "sample_frame sid 32 f (sensor_bytes (sample ?i))" "talker os (d + k) w1 ch sid 32"
    using chan_send_now_next [of os "d + k" w ch sid 32 "sensor_bytes (sample ?i)"] Suc.prems(1) by auto
  obtain pt' w2 where c: "await_cycle os pt w1 = (pt', w2)" by fastforce
  then have w2: "w_net w2 = w_net w1" "talker os (d + k) w2 ch sid 32"
    using await_cycle_heaps [of os pt w1] w1(4) by (auto simp: talker_heaps [of w2 w1])
  have "Suc ?i = 5000 - d" using Suc.prems(2) by simp
  then have i: "(sample ?i)\<lparr>s_seqnr := of_nat ?i + 1\<rparr> = sample (5000 - d)" "[?i..<5000] = ?i # [5000 - d..<5000]"
    using Suc.prems(2) by (simp_all add: sample_def upt_conv_Cons flip: of_nat_Suc)
  have less: "of_nat ?i < LIMIT" by (simp add: LIMIT_def word_less_nat_alt unat_of_nat take_bit_nat_eq_self)
  from Suc.IH [OF w2(2), of pt'] Suc.prems(2) obtain w' fs where
    "talker_loop os (\<lambda>_. False) (Some ch) pt' (sample (5000 - d)) True w2 = Some (sample 5000, w')" "w_net w' = w_net w2 @ fs"
    "talker os k w' ch sid 32" "list_all2 (sample_frame sid 32) fs (map (\<lambda>i. sensor_bytes (sample i)) [5000 - d..<5000])" by auto
  with w1 w2(1) c i less show ?case
    by (intro exI [of _ w'] exI [of _ "f # fs"]) (subst talker_loop.simps, simp)
qed

lemma talker_run_frames:
  assumes "talker os 5002 w ch sid 32" "\<forall>t. os_clock os t CLOCK_REALTIME \<noteq> None"
  shows "\<exists>w' fs. talker_run os (\<lambda>_. False) (Some ch) w = Some w' \<and> w_net w' = w_net w @ fs
    \<and> list_all2 (sample_frame sid 32) fs (map sensor_bytes (map sample [0..<5000] @ [end_marker, end_marker]))"
proof -
  obtain now where now: "os_clock os (Suc (w_tick (tick w))) CLOCK_REALTIME = Some now" using assms(2) by blast
  define pt where "pt = pt_init_from_attr (os_malloc os (w_tick (tick w))) (\<lambda>_. now) (Some (nc_channels ! IDX_42))"
  let ?w = "tick (tick (tick w))"
  have tm: "timer_from_attr os (nc_channels ! IDX_42) (tick w) = Some (pt, ?w)"
    using now by (simp add: timer_from_attr_def start_timer_def pt_def nc_channels_def IDX_42_def)
  have "talker os (5000 + 2) ?w ch sid 32" using assms(1) by (simp add: talker_heaps [of ?w w])
  from talker_loop_frames [OF this, of pt] obtain w1 fs where
    w1: "talker_loop os (\<lambda>_. False) (Some ch) pt (sample 0) True ?w = Some (sample 5000, w1)" "w_net w1 = w_net w @ fs" "talker os 2 w1 ch sid 32"
      "list_all2 (sample_frame sid 32) fs (map (\<lambda>i. sensor_bytes (sample i)) [0..<5000])" by auto
  have "talker os (Suc 1) (tick w1) ch sid 32" using w1(3) by (simp add: talker_heaps [of "tick w1" w1] numeral_2_eq_2)
  from chan_send_now_next [OF this, of "sensor_bytes end_marker"] obtain w2 f where
    w2: "chan_send_now os (Some ch) (Some (sensor_bytes end_marker)) (tick w1) = Some (32, w2)" "w_net w2 = w_net w1 @ [f]"
      "sample_frame sid 32 f (sensor_bytes end_marker)" "talker os (Suc 0) w2 ch sid 32" by auto
  have "talker os (Suc 0) (tick w2) ch sid 32" using w2(4) by (simp add: talker_heaps [of "tick w2" w2])
  from chan_send_now_next [OF this, of "sensor_bytes end_marker"] obtain w3 g where
    w3: "chan_send_now os (Some ch) (Some (sensor_bytes end_marker)) (tick w2) = Some (32, w3)" "w_net w3 = w_net w2 @ [g]"
      "sample_frame sid 32 g (sensor_bytes end_marker)" by auto
  have s: "sample 0 = first_sample" "(sample 5000)\<lparr>s_seqnr := - 1\<rparr> = end_marker" by (simp_all add: sample_def end_marker_def first_sample_def)
  have "talker_run os (\<lambda>_. False) (Some ch) w = Some w3"
    unfolding talker_run_def by (simp add: tm w1(1) [unfolded s] s(2) w2(1) w3(1))
  then show ?thesis using w1(2,4) w2(2,3) w3(2,3)
    by (intro exI [of _ w3] exI [of _ "fs @ [f, g]"]) (auto simp: comp_def intro!: list_all2_appendI)
qed

text \<open>Without a logger, a delayed read leaves the channel ready for the next one.\<close>

lemma chan_delay_quiet:
  assumes "reader w ch c nh n a wr buf" "nh_logger n = None"
  shows "\<exists>e w'. chan_delay os (Some ch) t w = Some (e, w') \<and> reader w' ch c nh n a wr buf \<and> w_cb w' = w_cb w"
proof -
  have l: "w_ch w ch = Some c" "ch_nh c = Some nh" "w_nh w nh = Some n" using assms(1) by (auto simp: reader_def live_def)
  have lg: "with_logger (\<lambda>lg. log_wakeup_delay (os_fopen os) lg x y z) nh v = Some v" if "w_nh v = w_nh w" for x y z v
  proof -
    have "(w_nh w)(nh \<mapsto> n\<lparr>nh_logger := None\<rparr>) = w_nh v" using that l(3) assms(2) by (cases n) auto
    then show ?thesis using that l(3) assms(2) by (simp add: with_logger_def log_wakeup_delay_def)
  qed
  show ?thesis
    using l assms(1)
    by (auto simp: chan_delay_def get_ch_def deref_def read_ptp_def read_clock_def os_sleep_until_def Let_def lg reader_def live_def pipe_at_def
        split: option.splits)
qed

text \<open>The descriptor and the size of the callback area are not part of the record.\<close>

lemma read_record_area:
  assumes "read_record ch k w = Some (r, w')" "w_cb w a = Some cb"
  shows "\<exists>cb'. w_cb w' a = Some cb' \<and> cb_fd cb' = cb_fd cb \<and> cb_sz cb' = cb_sz cb"
  using assms by (auto simp: read_record_def bind_Some_iff store_record_def Let_def os_read_heaps split: if_splits)

lemma chan_read_wait_record:
  assumes "read_begin (Some ch) w = Some (Some (20 + length pl))" "f w = Some w1" "reader w1 ch c nh n a wr (meta_bytes m @ pl @ rest)"
    "length pl = unat (ch_payload_size c)" "length mem = length pl" "nh_ftrace_break_us n \<le> 0" "nh_logger n = None" "w_cb w1 a = Some cb"
  shows "\<exists>w' cb'. chan_read_wait os f (Some ch) (Some mem) w = Some ((int (20 + length pl), Some pl), w') \<and> reader w' ch c nh n a wr rest
    \<and> w_cb w' a = Some cb' \<and> cb_fd cb' = cb_fd cb \<and> cb_sz cb' = cb_sz cb"
proof -
  obtain w2 cb2 where w2: "read_record ch (20 + length pl) w1 = Some (int (20 + length pl), w2)" "reader w2 ch c nh n a wr rest"
    "w_cb w2 a = Some cb2" "take (length pl) (cb_payload cb2) = pl"
    using reader_after [OF assms(3,4)] by blast
  obtain e w3 where w3: "chan_delay os (Some ch) (ptp_capture_of (cb_meta cb2) + sc_value (ch_sc c)) w2 = Some (e, w3)" "reader w3 ch c nh n a wr rest"
    "w_cb w3 = w_cb w2" using chan_delay_quiet [OF w2(2) assms(7)] by blast
  have len: "length pl \<le> length (cb_payload cb2)" using w2(4) by (metis length_take min.cobounded1)
  have "no_break n (cb_meta cb2)" using assms(6) by (simp add: no_break_def)
  then have "read_resume os ch (Some mem) True (int (20 + length pl)) w2 = Some ((int (20 + length pl), Some pl), w3)"
    using read_resume_reader [OF w2(2,3), of mem "int (20 + length pl)" os True] w2(4) w3(1) assms(4,5) len by (simp add: overwrite_def)
  then have "chan_read_wait os f (Some ch) (Some mem) w = Some ((int (20 + length pl), Some pl), w3)"
    using assms(1,2) w2(1) by (simp add: chan_read_wait_def i_chan_read_def)
  with w3(2,3) read_record_area [OF w2(1) assms(8)] show ?thesis by auto
qed

text \<open>The receive thread takes one frame while the application blocks in a read; \<open>buffer\<close> is what its buffer holds from before.\<close>

definition takes_frame :: "os \<Rightarrow> user_cb \<Rightarrow> addr \<Rightarrow> rx_event \<Rightarrow> bytes \<Rightarrow> world \<Rightarrow> world option" where
  "takes_frame os ucb nh ev buffer w = map_option (snd \<circ> snd) (nh_runner_round os ucb nh ev buffer w)"

lemma listening_reads_frame:
  assumes "listening w ch c nh n sid" "unat (ch_payload_size c) = 32" "carries sid 32 ev (pdu, d)" "length d = 32"
    "os_room os [] 52" "length buffer = 1522" "length mem = 32"
  shows "\<exists>w'. chan_read_wait os (takes_frame os ucb nh ev buffer) (Some ch) (Some mem) w = Some ((52, Some d), w') \<and> listening w' ch c nh n sid"
proof -
  have l: "live w ch c nh n" "valid_state c n" "\<not> ch_stopping c" "receiver w nh n sid 32 (ch_fd_r c) []" "nh_ftrace_break_us n \<le> 0" "0 < nh_rx_sock n"
    using assms(1,2) by (auto simp: listening_def)
  then have nl: "nh_logger n = None" by (simp add: receiver_def)
  obtain a where a: "ch_cbp c = Some a" "hm_lookup (nh_hmap n) sid = Some (Some a, Std_cb)" using assms(1) by (auto simp: listening_def)
  from assms(3) obtain dst src where ev: "\<not> ev_stop ev" "length dst = 6" "length src = 6" "ev_frame ev = Some (eth_frame dst src (pdu_bytes pdu @ d))"
    "32 \<le> length d" "length d \<le> 1484" "be64toh (p_stream_id pdu) = sid" by (auto simp: carries_def)
  from nh_runner_round_frame [OF l(4) _ assms(6) ev(4,1,2,3,5,6,7), of os ucb] assms(5) obtain w1 b m where
    w1: "nh_runner_round os ucb nh ev buffer w = Some (True, b, w1)" "receiver w1 nh n sid 32 (ch_fd_r c) (meta_bytes m @ take 32 d)" "w_ch w1 = w_ch w"
    by auto
  from w1(2) a(2) obtain cb where cb: "w_nh w1 nh = Some n" "w_cb w1 a = Some cb" "0 < cb_fd cb" "cb_sz cb = 32" "32 \<le> length (cb_payload cb)"
    "pipe_at w1 (ch_fd_r c) (cb_fd cb) (meta_bytes m @ d @ [])" using assms(4) by (auto simp: receiver_def)
  have "reader w1 ch c nh n a (cb_fd cb) (meta_bytes m @ d @ [])"
    using l(1-3) a(1) cb w1(3) assms(2) unfolding reader_def live_def by simp
  moreover have "takes_frame os ucb nh ev buffer w = Some w1" using w1(1) by (simp add: takes_frame_def)
  moreover have "read_begin (Some ch) w = Some (Some (20 + length d))"
    using listening_reader [OF assms(1), of w "[]"] l(4) assms(2,4) read_begin_reader by fastforce
  ultimately obtain w' cb' where w': "chan_read_wait os (takes_frame os ucb nh ev buffer) (Some ch) (Some mem) w = Some ((int (20 + length d), Some d), w')"
    "reader w' ch c nh n a (cb_fd cb) []" "w_cb w' a = Some cb'" "cb_fd cb' = cb_fd cb" "cb_sz cb' = cb_sz cb"
    using chan_read_wait_record [of ch w d "takes_frame os ucb nh ev buffer" w1 c nh n a "cb_fd cb" m "[]" mem cb os] assms(2,4,7) l(5) nl cb(2) by auto
  have r': "w_nh w' nh = Some n" "pipe_at w' (ch_fd_r c) (cb_fd cb') []" "32 \<le> length (cb_payload cb')"
    using w'(2-4) assms(2) by (auto simp: reader_def live_def)
  then have "receiver w' nh n sid 32 (ch_fd_r c) []" using l(4) a(2) w'(3-5) cb(3,4) by (auto simp: receiver_def)
  then have "listening w' ch c nh n sid" using w'(2) l(2,3,5,6) a assms(2) by (auto simp: listening_def reader_def)
  with w'(1) assms(4) show ?thesis by auto
qed

text \<open>The listener reads on, one sample per frame, and prints on the way.\<close>

definition stopped_text :: string where
  "stopped_text = ''Magic marker received, stopping'' @ nl"

lemma listener_loop_samples:
  assumes "\<And>i. i < length ss \<Longrightarrow> \<exists>ev pdu buffer. others (k + i) = takes_frame os ucb nh ev buffer \<and> carries sid 32 ev (pdu, sensor_bytes (ss ! i))
      \<and> length buffer = 1522 \<and> s_seqnr (ss ! i) \<noteq> - 1 \<and> \<not> sigint (k + i)"
    and "listening w ch c nh n sid" "unat (ch_payload_size c) = 32" "os_room os [] 52"
  shows "\<exists>w'. listener_loop os others sigint (Some ch) k s True out w
      = listener_loop os others sigint (Some ch) (k + length ss) (last (s # ss)) True (out @ concat (map progress ss)) w' \<and> listening w' ch c nh n sid"
  using assms(1,2)
proof (induction ss arbitrary: k s out w)
  case Nil
  then show ?case by auto
next
  case (Cons x ss)
  obtain ev pdu buffer where o: "others k = takes_frame os ucb nh ev buffer" "carries sid 32 ev (pdu, sensor_bytes x)" "length buffer = 1522"
    "s_seqnr x \<noteq> - 1" "\<not> sigint k" using Cons.prems(1) [of 0] by auto
  obtain w1 where w1: "chan_read_wait os (others k) (Some ch) (Some (sensor_bytes s)) w = Some ((52, Some (sensor_bytes x)), w1)" "listening w1 ch c nh n sid"
    using listening_reads_frame [OF Cons.prems(2) assms(3) o(2) _ assms(4) o(3), of "sensor_bytes s" ucb] o(1) by auto
  have "\<exists>ev pdu buffer. others (Suc k + i) = takes_frame os ucb nh ev buffer \<and> carries sid 32 ev (pdu, sensor_bytes (ss ! i))
      \<and> length buffer = 1522 \<and> s_seqnr (ss ! i) \<noteq> - 1 \<and> \<not> sigint (Suc k + i)" if "i < length ss" for i
    using Cons.prems(1) [of "Suc i"] that by simp
  from Cons.IH [OF this w1(2), of x "out @ progress x"] obtain w' where
    "listener_loop os others sigint (Some ch) (Suc k) x True (out @ progress x) w1
      = listener_loop os others sigint (Some ch) (Suc k + length ss) (last (x # ss)) True ((out @ progress x) @ concat (map progress ss)) w'"
    "listening w' ch c nh n sid" by blast
  with w1(1) o(4,5) show ?case by (intro exI [of _ w'], subst listener_loop.simps) simp
qed

text \<open>Without a channel every read returns at once and leaves the sample as it is.\<close>

lemma listener_loop_no_channel:
  assumes "listener_loop os others (\<lambda>_. False) None k s True out w = Some r" "s_seqnr s \<noteq> - 1"
  shows False
proof -
  have read: "chan_read_wait os f None (Some d) w = Some ((- EINVAL, Some d), w)" for f d os w
    by (simp add: chan_read_wait_def i_chan_read_def read_begin_def chan_valid_def)
  have "sigint = (\<lambda>_. False) \<longrightarrow> ch = None \<longrightarrow> running \<longrightarrow> s_seqnr s = - 1"
    if l: "listener_loop os others sigint ch k s running out w = Some r" for os others sigint ch k s running out w r
  proof (rule listener_loop.raw_induct [where P = "\<lambda>os others sigint ch k s running out w r.
      sigint = (\<lambda>_. False) \<longrightarrow> ch = None \<longrightarrow> running \<longrightarrow> s_seqnr s = - 1", OF _ l], goal_cases)
    case (1 loop os others sigint ch k s running out w r)
    from 1(2) 1(1) [of os others sigint ch "Suc k" s running "out @ progress s" w r] show ?case
      by (auto simp: read Let_def split: if_splits)
  qed
  with assms show False by blast
qed

text \<open>The channel that the program creates is fit for any number of sends.\<close>

lemma mcast42_talker:
  assumes "sa_nh st = None" "\<not> sa_do_srp st" "sa_create os st w = Some (Some nh, w1)" "w_nh w1 nh = Some n" "os_good os" "heap_ok w"
    and "156800 \<le> uint (nh_link_speed n)" "nh_logger n = None" "accepts_frames os"
  shows "\<exists>ch w'. chan_create_standalone os others (Some ''mcast42'') True (Some nc_channels) (int (length nc_channels)) st w
      = Some (Some ch, st\<lparr>sa_nh := Some nh\<rparr>, w') \<and> talker os k w' ch (htobe64 42) 32"
proof -
  let ?a = "hd nc_channels"
  have a: "a_stream_id ?a = 42" "a_sc ?a = SC_CLASS_A" "unat (a_size ?a) = 32" "find (\<lambda>a. strncmp_eq ''mcast42'' (a_name a) 32) nc_channels = Some ?a"
    by (simp_all add: nc_channels_def sizeof_sensor_def strncmp_eq_def)
  have "?a \<in> set nc_channels" by (simp add: nc_channels_def)
  then have adm: "i_valid_size (a_size ?a)" "i_valid_interval (nh_link_speed n) (a_interval_ns ?a) (a_size ?a) = Some True"
    using manifest_admitted [of "nh_link_speed n"] assms(7) by (auto simp: list_all_iff)
  obtain ch w' c n' where ch: "chan_create_standalone os others (Some ''mcast42'') True (Some nc_channels) (int (length nc_channels)) st w
      = Some (Some ch, st\<lparr>sa_nh := Some nh\<rparr>, w')" "live w' ch c nh n'" "valid_state c n'" "new_talker os ?a c" "nh_logger n' = nh_logger n"
    using standalone_new_talker [OF assms(1-6) adm _ _ a(4), of others] a(1,2) by auto
  have "sendable os k c n'" using ch(4,5) assms(5,8,9) by (simp add: sendable_def os_good_def logger_room_def new_talker_def)
  then have "talker os k w' ch (htobe64 42) 32"
    unfolding talker_def using ch(2-4) a(1-3) by (intro exI [of _ c] exI [of _ nh] exI [of _ n']) (simp add: new_talker_def)
  with ch(1) show ?thesis by blast
qed

section \<open>Properties\<close>

text \<open>C36: The two example programs together.  On a link of at least 156.8 kbit/s, \<^verbatim>\<open>talker.c\<close> gets its channel by name and sends, when it is
  not interrupted, 5000 samples and two end markers.  When the network hands the frames, in order and each while the listener blocks in its next read, to a handler
  with a listening channel for the stream, whose pipe has room for one record, the loop of \<^verbatim>\<open>listener.c\<close> holds after read \<open>k\<close> exactly
  sample \<open>k\<close>, complete (it returns it when it is interrupted there), for each of the 5000; not interrupted, it returns with the marker, having printed a dot for
  every tenth sample and the number of every two hundredth, and stops at the first marker.\<close>

theorem example_talker_reaches_listener:
  assumes "sa_nh st = None" "\<not> sa_do_srp st" "sa_create os st w = Some (Some nh, w1)" "w_nh w1 nh = Some n" "os_good os" "heap_ok w"
    and "156800 \<le> uint (nh_link_speed n)" "nh_logger n = None" "accepts_frames os" "\<forall>t. os_clock os t CLOCK_REALTIME \<noteq> None"
    and "listening w' ch' c nh' n' 42" "unat (ch_payload_size c) = 32" "os_room os' [] 52"
  shows "\<exists>ch st' w2 w3 fs. chan_create_standalone os others (Some ''mcast42'') True (Some nc_channels) (int (length nc_channels)) st w
      = Some (Some ch, st', w2)
    \<and> talker_run os (\<lambda>_. False) (Some ch) w2 = Some w3 \<and> w_net w3 = w_net w2 @ fs \<and> length fs = 5002
    \<and> (\<forall>evs bufs arrivals. list_all2 hands_over evs fs \<longrightarrow> (\<forall>k. length (bufs k) = 1522) \<longrightarrow>
         arrivals = (\<lambda>k. takes_frame os' ucb nh' (evs ! k) (bufs k)) \<longrightarrow>
         (\<forall>k < 5000. \<exists>w4. listener_loop os' arrivals (\<lambda>j. j = Suc k) (Some ch') 0 zero_sensor True '''' w'
            = Some (sample k, concat (map (\<lambda>k. progress (sample k)) [0..<Suc k]), w4))
         \<and> (\<exists>w4. listener_loop os' arrivals (\<lambda>_. False) (Some ch') 0 zero_sensor True '''' w'
            = Some (end_marker, concat (map (\<lambda>k. progress (sample k)) [0..<5000]) @ stopped_text, w4)))"
proof -
  let ?ds = "map sensor_bytes (map sample [0..<5000] @ [end_marker, end_marker])"
  obtain ch w2 where t: "chan_create_standalone os others (Some ''mcast42'') True (Some nc_channels) (int (length nc_channels)) st w
      = Some (Some ch, st\<lparr>sa_nh := Some nh\<rparr>, w2)" "talker os 5002 w2 ch (htobe64 42) 32"
    using mcast42_talker [OF assms(1-9)] by blast
  obtain w3 fs where f: "talker_run os (\<lambda>_. False) (Some ch) w2 = Some w3" "w_net w3 = w_net w2 @ fs" "list_all2 (sample_frame (htobe64 42) 32) fs ?ds"
    using talker_run_frames [OF t(2) assms(10)] by blast
  have listen: "(\<forall>k < 5000. \<exists>w4. listener_loop os' arrivals (\<lambda>j. j = Suc k) (Some ch') 0 zero_sensor True '''' w'
            = Some (sample k, concat (map (\<lambda>k. progress (sample k)) [0..<Suc k]), w4))
         \<and> (\<exists>w4. listener_loop os' arrivals (\<lambda>_. False) (Some ch') 0 zero_sensor True '''' w'
            = Some (end_marker, concat (map (\<lambda>k. progress (sample k)) [0..<5000]) @ stopped_text, w4))"
    if ev: "list_all2 hands_over evs fs" "\<forall>k. length (bufs k) = 1522" "arrivals = (\<lambda>k. takes_frame os' ucb nh' (evs ! k) (bufs k))" for evs bufs arrivals
  proof -
    from hands_over_carries [OF f(3) ev(1)] obtain pdus where "length pdus = length ?ds" "list_all2 (carries (be64toh (htobe64 42)) 32) evs (zip pdus ?ds)"
      by auto
    then have car: "carries 42 32 (evs ! i) (pdus ! i, ?ds ! i)" if "i < 5002" for i using that list_all2_nthD2 [of _ evs "zip pdus ?ds" i] by simp
    have step: "\<exists>w4. listener_loop os' arrivals sigint (Some ch') 0 zero_sensor True '''' w'
        = listener_loop os' arrivals sigint (Some ch') m (last (zero_sensor # map sample [0..<m])) True (concat (map (\<lambda>k. progress (sample k)) [0..<m])) w4
      \<and> listening w4 ch' c nh' n' 42" if m: "m \<le> 5000" "\<forall>j < m. \<not> sigint j" for m sigint
    proof -
      have "?ds ! i = sensor_bytes (sample i)" if "i < m" for i using that m(1) by (simp add: nth_append)
      then have "carries 42 32 (evs ! i) (pdus ! i, sensor_bytes (map sample [0..<m] ! i))" if "i < m" for i using car [of i] that m(1) by simp
      moreover have "s_seqnr (map sample [0..<m] ! i) \<noteq> - 1" if "i < m" for i using sample_not_marker [of i] that m(1) by simp
      ultimately have "\<exists>ev pdu buffer. arrivals (0 + i) = takes_frame os' ucb nh' ev buffer \<and> carries 42 32 ev (pdu, sensor_bytes (map sample [0..<m] ! i))
          \<and> length buffer = 1522 \<and> s_seqnr (map sample [0..<m] ! i) \<noteq> - 1 \<and> \<not> sigint (0 + i)" if "i < length (map sample [0..<m])" for i
        using that ev(2,3) m(2) by (intro exI [of _ "evs ! i"] exI [of _ "pdus ! i"] exI [of _ "bufs i"]) simp
      from listener_loop_samples [OF this assms(11-13), of zero_sensor "''''"] show ?thesis by (simp add: comp_def)
    qed
    have "\<exists>w4. listener_loop os' arrivals (\<lambda>j. j = Suc k) (Some ch') 0 zero_sensor True '''' w'
        = Some (sample k, concat (map (\<lambda>k. progress (sample k)) [0..<Suc k]), w4)" if "k < 5000" for k
      using step [of "Suc k" "\<lambda>j. j = Suc k"] that by (auto simp: listener_loop.simps [where k = "Suc k"])
    moreover obtain w4 where w4: "listener_loop os' arrivals (\<lambda>_. False) (Some ch') 0 zero_sensor True '''' w'
        = listener_loop os' arrivals (\<lambda>_. False) (Some ch') 5000 (sample 4999) True (concat (map (\<lambda>k. progress (sample k)) [0..<5000])) w4"
      "listening w4 ch' c nh' n' 42" using step [of 5000 "\<lambda>_. False"] by (auto simp: last_map)
    have "?ds ! 5000 = sensor_bytes end_marker" by (simp add: nth_append)
    with car [of 5000] have "carries 42 32 (evs ! 5000) (pdus ! 5000, sensor_bytes end_marker)" by simp
    from listening_reads_frame [OF w4(2) assms(12) this _ assms(13), of "bufs 5000" "sensor_bytes (sample 4999)" ucb] ev(2,3) obtain w5 where
      "chan_read_wait os' (arrivals 5000) (Some ch') (Some (sensor_bytes (sample 4999))) w4 = Some ((52, Some (sensor_bytes end_marker)), w5)" by auto
    moreover have "s_seqnr end_marker = - 1" by (simp add: end_marker_def)
    ultimately show ?thesis unfolding w4(1)
      by (subst listener_loop.simps) (simp add: listener_loop.simps [where running = False] stopped_text_def)
  qed
  moreover have "length fs = 5002" using list_all2_lengthD [OF f(3)] by simp
  ultimately show ?thesis using t(1) f(1,2) by blast
qed

text \<open>A listener for the stream of the example, with a payload of 32 bytes.\<close>

definition ex_nh :: nethandler where
  "ex_nh = demo_nh\<lparr>nh_hmap := [\<lparr>ce_stream_id = 42, ce_priv_data = Some 10, ce_cb = Some Std_cb\<rparr>]\<rparr>"

definition ex_rx :: channel where
  "ex_rx = demo_rx\<lparr>ch_sidw := 42, ch_payload_size := 32\<rparr>"

definition ex_world :: world where
  "ex_world = demo_world\<lparr>w_nh := [1 \<mapsto> ex_nh], w_ch := [3 \<mapsto> ex_rx], w_cb := [10 \<mapsto> demo_cb\<lparr>cb_sz := 32, cb_payload := replicate 32 0\<rparr>]\<rparr>"

lemma ex_listening: "listening ex_world 3 ex_rx 1 ex_nh 42" "unat (ch_payload_size ex_rx) = 32"
proof -
  have "hm_lookup (nh_hmap ex_nh) 42 = Some (Some 10, Std_cb)" by (simp add: ex_nh_def hm_lookup_def get_hm_idx_def)
  then show "listening ex_world 3 ex_rx 1 ex_nh 42"
    using demo_valid(2)
    by (auto simp: listening_def ex_world_def ex_rx_def demo_world_def live_def valid_state_def receiver_def pipe_at_def open_pipe_def demo_cb_def)
      (simp_all add: ex_nh_def demo_nh_def demo_rx_def zero_nethandler_def zero_channel_def)
qed (simp add: ex_rx_def)

theorem example_talker_reaches_listener_witness:
  "\<exists>ch st' w2 w3 fs evs out w4. chan_create_standalone demo_os (\<lambda>_. Some) (Some ''mcast42'') True (Some nc_channels) (int (length nc_channels)) lo_settings empty_world
      = Some (Some ch, st', w2)
    \<and> talker_run demo_os (\<lambda>_. False) (Some ch) w2 = Some w3 \<and> w_net w3 = w_net w2 @ fs \<and> length fs = 5002 \<and> list_all2 hands_over evs fs
    \<and> listener_loop demo_os (\<lambda>k. takes_frame demo_os (\<lambda>_ _ _ _. None) 1 (evs ! k) (replicate 1522 0)) (\<lambda>j. j = Suc 3) (Some 3) 0 zero_sensor True '''' ex_world
        = Some (sample 3, out, w4)"
proof -
  obtain w1 n where c: "sa_create demo_os lo_settings empty_world = Some (Some 100, w1)" "w_nh w1 100 = Some n" "nh_link_speed n = 1000000000"
    "nh_logger n = None" using lo_create by blast
  have h: "heap_ok empty_world" "sa_nh lo_settings = None" "\<not> sa_do_srp lo_settings" "accepts_frames demo_os" "\<forall>t. os_clock demo_os t CLOCK_REALTIME \<noteq> None"
    "os_room demo_os [] 52"
    by (simp_all add: heap_ok_def empty_world_def lo_settings_def statics_def accepts_frames_def demo_os_def)
  have "156800 \<le> uint (nh_link_speed n)" using c(3) by simp
  from example_talker_reaches_listener [OF h(2,3) c(1,2) demo_os_good h(1) this c(4) h(4,5) ex_listening h(6), of "\<lambda>_. Some" "\<lambda>_ _ _ _. None"]
  obtain ch st' w2 w3 fs where t: "chan_create_standalone demo_os (\<lambda>_. Some) (Some ''mcast42'') True (Some nc_channels) (int (length nc_channels)) lo_settings empty_world
      = Some (Some ch, st', w2)" "talker_run demo_os (\<lambda>_. False) (Some ch) w2 = Some w3" "w_net w3 = w_net w2 @ fs" "length fs = 5002"
    and l: "\<And>evs. list_all2 hands_over evs fs \<Longrightarrow> \<forall>k < 5000. \<exists>w4. listener_loop demo_os (\<lambda>k. takes_frame demo_os (\<lambda>_ _ _ _. None) 1 (evs ! k) (replicate 1522 0))
        (\<lambda>j. j = Suc k) (Some 3) 0 zero_sensor True '''' ex_world = Some (sample k, concat (map (\<lambda>k. progress (sample k)) [0..<Suc k]), w4)"
    by (elim exE conjE) (rule that, assumption+, simp)
  define evs where "evs = map (\<lambda>f. \<lparr>ev_frame = Some (eth_frame (replicate 6 1) (replicate 6 2) (fr_bytes f)), ev_stamps = [], ev_stop = False\<rparr>) fs"
  have e: "list_all2 hands_over evs fs"
    unfolding evs_def list_all2_map1 list_all2_same hands_over_def by (auto intro!: exI [of _ "replicate 6 _"])
  with t l [OF e, rule_format, of 3] show ?thesis by auto
qed

text \<open>A listener without a channel.  When \<^verbatim>\<open>listener.c\<close> cannot create its channel, \<^verbatim>\<open>main\<close> does not notice: every \<^verbatim>\<open>READ_WAIT\<close> returns
  \<open>-EINVAL\<close> at once, without waiting and without touching the sample, and the loop, which looks only at the sample, never
  ends unless a signal comes.  \<^verbatim>\<open>talker.c\<close> returns -1 in the same situation.\<close>

lemma listener_without_channel_spins:
  assumes "run_options opts statics = Some st"
    and "\<And>tx. chan_create_standalone os others (Some ''mcast42'') tx (Some nc_channels) (int (length nc_channels)) st w = Some (None, st', w')"
  shows "chan_read_wait os f None (Some (sensor_bytes s)) w' = Some ((- EINVAL, Some (sensor_bytes s)), w')
    \<and> listener_main os others readers (\<lambda>_. False) opts w = None
    \<and> talker_main os others sigint opts w = Some (-1, st', w')"
proof (intro conjI)
  have "listener_loop os readers (\<lambda>_. False) None 0 zero_sensor True '''' (tick (tick w')) = None"
    using listener_loop_no_channel [of os readers 0 zero_sensor "''''" "tick (tick w')"]
    by (cases "listener_loop os readers (\<lambda>_. False) None 0 zero_sensor True '''' (tick (tick w'))") (auto simp: zero_sensor_def)
  then show "listener_main os others readers (\<lambda>_. False) opts w = None" using assms by (simp add: listener_main_def)
qed (use assms in \<open>simp_all add: talker_main_def chan_read_wait_def i_chan_read_def read_begin_def chan_valid_def\<close>)

end
