(* ===== verification/Manychan.thy ===== *)
theory Manychan
  imports Ex_Manifest
begin

text \<open>
  The mesh tester (\<^verbatim>\<open>examples/manychan.c\<close>): every agent of an ensemble of \<open>N\<close> has a talker to and a listener from every agent,
  itself included.  The agents wait for each other with a magic value, then send periodically.  The static
  variables are a record.  The signal handler and the threads that drain the listeners run beside \<^verbatim>\<open>main\<close>; what others do to the
  statics and to the world at a point where a thread waits is an argument.  Output is left out.
\<close>

section \<open>Settings\<close>

definition ENSEMBLE_SIZE_LIMIT :: nat where "ENSEMBLE_SIZE_LIMIT = 14"
definition ENTITY_READY_MAGIC :: u64 where "ENTITY_READY_MAGIC = 0xdeadbeef"
definition ID_BASE_OFFSET :: int where "ID_BASE_OFFSET = 42"

record manychan =
  mc_logfile :: string
  mc_nic :: string
  mc_remote_ready :: "bool list"
  mc_ensemble_size :: int
  mc_ensemble_idx :: int
  mc_iterations :: int
  mc_verbose :: bool
  mc_do_srp :: bool
  mc_running :: bool
  mc_tracing :: bool
  mc_base :: channel_attrs

definition mc_statics :: manychan where
  "mc_statics = \<lparr>mc_logfile = '''', mc_nic = ''eth0'', mc_remote_ready = replicate ENSEMBLE_SIZE_LIMIT False,
     mc_ensemble_size = 3, mc_ensemble_idx = 0, mc_iterations = -1, mc_verbose = False, mc_do_srp = False,
     mc_running = False, mc_tracing = False,
     mc_base = \<lparr>a_dst = [0x01, 0x00, 0x5E, 0x01, 0x01, 0x00], a_stream_id = 0, a_sc = SC_CLASS_A, a_size = 8,
       a_interval_ns = HZ_100, a_name = ''''\<rparr>\<rparr>"

text \<open>\<open>Inl\<close> is \<^verbatim>\<open>exit\<close>; an overflow of \<^verbatim>\<open>int\<close> is undefined (\<open>None\<close>), as is a missing argument.\<close>

definition int_ok :: "int \<Rightarrow> bool" where
  "int_ok i \<longleftrightarrow> - (2 ^ 31) \<le> i \<and> i < 2 ^ 31"

definition mc_parser :: "int \<Rightarrow> string option \<Rightarrow> manychan \<Rightarrow> (int + manychan) option" where
  "mc_parser key arg st =
     (if key = of_char CHR ''C'' then do {
        s \<leftarrow> arg;
        Some (if s = ''SC_CLASS_A'' then Inr (st\<lparr>mc_base := (mc_base st)\<lparr>a_sc := SC_CLASS_A\<rparr>\<rparr>)
              else if s = ''SC_CLASS_B'' then Inr (st\<lparr>mc_base := (mc_base st)\<lparr>a_sc := SC_CLASS_A\<rparr>\<rparr>)
              else if s = ''SC_TAS'' then Inr (st\<lparr>mc_base := (mc_base st)\<lparr>a_sc := SC_TAS\<rparr>\<rparr>)
              else Inl (-1))
      }
      else if key = of_char CHR ''L'' then do { s \<leftarrow> arg; Some (Inr (st\<lparr>mc_logfile := strncpy s (129 - 15)\<rparr>)) }
      else if key = of_char CHR ''i'' then do { v \<leftarrow> atoi arg; Some (Inr (st\<lparr>mc_iterations := v\<rparr>)) }
      else if key = of_char CHR ''n'' then do { s \<leftarrow> arg; Some (Inr (st\<lparr>mc_nic := strncpy s (IFNAMSIZ - 1)\<rparr>)) }
      else if key = of_char CHR ''v'' then Some (Inr (st\<lparr>mc_verbose := True\<rparr>))
      else if key = of_char CHR ''s'' then do { v \<leftarrow> atoi arg; Some (Inr (st\<lparr>mc_ensemble_size := v\<rparr>)) }
      else if key = of_char CHR ''P'' then do {
        v \<leftarrow> atoi arg;
        if \<not> int_ok (v * 1000) then None
        else Some (Inr (st\<lparr>mc_base := (mc_base st)\<lparr>a_interval_ns := word_of_int (v * 1000)\<rparr>\<rparr>))
      }
      else if key = of_char CHR ''S'' then Some (Inr (st\<lparr>mc_do_srp := True\<rparr>))
      else if key = of_char CHR ''T'' then Some (Inr (st\<lparr>mc_tracing := True\<rparr>))
      else if key = of_char CHR ''I'' then do { v \<leftarrow> atoi arg; Some (Inr (st\<lparr>mc_ensemble_idx := v\<rparr>)) }
      else Some (Inr st))"

fun mc_options :: "(int \<times> string option) list \<Rightarrow> manychan \<Rightarrow> (int + manychan) option" where
  "mc_options [] st = Some (Inr st)"
| "mc_options ((key, arg) # opts) st = do {
     r \<leftarrow> mc_parser key arg st;
     (case r of Inl e \<Rightarrow> Some (Inl e) | Inr st \<Rightarrow> mc_options opts st)
   }"

definition valid_settings :: "manychan \<Rightarrow> bool" where
  "valid_settings st =
     (if mc_ensemble_idx st \<ge> mc_ensemble_size st then False
      else if mc_ensemble_size st < 2 \<or> mc_ensemble_size st > int ENSEMBLE_SIZE_LIMIT then False
      else if uint (a_interval_ns (mc_base st)) > NS_IN_SEC \<or> uint (a_interval_ns (mc_base st)) < 125 * NS_IN_US then False
      else True)"

text \<open>The agent's number, as an \<^verbatim>\<open>unsigned short\<close>, is appended to the name of the log file.\<close>

definition mc_log_suffix :: "manychan \<Rightarrow> manychan" where
  "mc_log_suffix st =
     (if length (mc_logfile st) > 0
      then st\<lparr>mc_logfile := mc_logfile st @ take 128 (''-'' @ dec (nat (mc_ensemble_idx st mod 2 ^ 16)) @ ''.csv'')\<rparr>
      else st)"

section \<open>Listeners\<close>

text \<open>
  One round of \<^verbatim>\<open>rx_drain\<close> after \<^verbatim>\<open>chan_read\<close> has returned \<open>res\<close> and \<open>data\<close>.  The index is computed in 64 bits without sign and
  converted to \<^verbatim>\<open>int\<close>; an index outside the array is a fault.
\<close>

definition drain_id :: "u64 \<Rightarrow> manychan \<Rightarrow> int" where
  "drain_id sid st =
     sint (ucast ((sid - word_of_int (mc_ensemble_idx st) - word_of_int ID_BASE_OFFSET) div word_of_int (mc_ensemble_size st)) :: u32)"

definition drain_round :: "u64 \<Rightarrow> int \<Rightarrow> u64 \<Rightarrow> manychan \<Rightarrow> manychan option" where
  "drain_round sid res data st =
     (let st = (if res < 0 then st\<lparr>mc_running := False\<rparr> else st)
      in if data = - 1 then Some (st\<lparr>mc_running := False\<rparr>)
         else if data = ENTITY_READY_MAGIC
         then let i = drain_id sid st
              in if i > int ENSEMBLE_SIZE_LIMIT then Some st
                 else if i < 0 \<or> nat i \<ge> length (mc_remote_ready st) then None
                 else if \<not> mc_remote_ready st ! nat i then Some (st\<lparr>mc_remote_ready := (mc_remote_ready st)[nat i := True]\<rparr>)
                 else Some st
         else Some st)"

text \<open>\<open>sts k\<close> and \<open>others k\<close> are what the other threads do to the statics and to the world while round \<open>k\<close> waits.\<close>

partial_function (option) drain_wait ::
  "os \<Rightarrow> (nat \<Rightarrow> manychan \<Rightarrow> manychan) \<Rightarrow> interference \<Rightarrow> addr \<Rightarrow> nat \<Rightarrow> manychan \<Rightarrow> world \<Rightarrow> (nat \<times> manychan \<times> world) option" where
  "drain_wait os sts others rx k st w = do {
     (r, w) \<leftarrow> chan_ready_timedwait os (Some rx) (100 * word_of_int NS_IN_MS) w;
     let st = sts k st;
     w \<leftarrow> others k w;
     if r \<noteq> 0 \<and> mc_running st then drain_wait os sts others rx (Suc k) st w else Some (Suc k, st, w)
   }"

partial_function (option) drain_loop ::
  "os \<Rightarrow> (nat \<Rightarrow> manychan \<Rightarrow> manychan) \<Rightarrow> interference \<Rightarrow> addr \<Rightarrow> nat \<Rightarrow> manychan \<Rightarrow> world \<Rightarrow> (manychan \<times> world) option" where
  "drain_loop os sts others rx k st w =
     (if mc_running st then do {
        ((res, mem), w) \<leftarrow> chan_read os (others k) (Some rx) (Some (le_bytes 8 (0 :: u64))) w;
        bs \<leftarrow> mem;
        c \<leftarrow> w_ch w rx;
        st \<leftarrow> drain_round (ch_sidw c) res (of_le bs) (sts k st);
        drain_loop os sts others rx (Suc k) st w
      }
      else Some (st, w))"

definition rx_drain ::
  "os \<Rightarrow> (nat \<Rightarrow> manychan \<Rightarrow> manychan) \<Rightarrow> interference \<Rightarrow> addr option \<Rightarrow> manychan \<Rightarrow> world \<Rightarrow> (manychan \<times> world) option" where
  "rx_drain os sts others data st w =
     (case data of
        None \<Rightarrow> Some (st, w)
      | Some rx \<Rightarrow> do {
          (k, st, w) \<leftarrow> drain_wait os sts others rx 0 st w;
          (st, w) \<leftarrow> drain_loop os sts others rx k st w;
          Some (st\<lparr>mc_running := False\<rparr>, w)
        })"

definition all_ready :: "manychan \<Rightarrow> bool" where
  "all_ready st = list_all (\<lambda>i. mc_remote_ready st ! i) [0..<nat (mc_ensemble_size st)]"

section \<open>Channels\<close>

definition mc_attrs :: "int \<Rightarrow> manychan \<Rightarrow> channel_attrs" where
  "mc_attrs i st = (mc_base st)\<lparr>a_dst := (a_dst (mc_base st))[5 := word_of_int i], a_stream_id := word_of_int i\<rparr>"

definition tx_id :: "manychan \<Rightarrow> nat \<Rightarrow> int" where
  "tx_id st idx = int idx + mc_ensemble_idx st * mc_ensemble_size st + ID_BASE_OFFSET"

definition rx_id :: "manychan \<Rightarrow> nat \<Rightarrow> int" where
  "rx_id st idx = mc_ensemble_idx st + int idx * mc_ensemble_size st + ID_BASE_OFFSET"

text \<open>With a large negative number of the agent the product overflows.\<close>

fun create_tx_loop :: "os \<Rightarrow> addr option \<Rightarrow> nat list \<Rightarrow> manychan \<Rightarrow> world \<Rightarrow> (addr option list \<times> manychan \<times> world) option" where
  "create_tx_loop os nh [] st w = Some ([], st, w)"
| "create_tx_loop os nh (idx # idxs) st w =
     (if \<not> int_ok (mc_ensemble_idx st * mc_ensemble_size st) \<or> \<not> int_ok (tx_id st idx) then None
      else do {
        let st = st\<lparr>mc_base := mc_attrs (tx_id st idx) st\<rparr>;
        (ch, w) \<leftarrow> chan_create_tx os nh (Some (mc_base st)) w;
        (chs, st, w) \<leftarrow> create_tx_loop os nh idxs st w;
        Some (ch # chs, st, w)
      })"

text \<open>Each listener is given to a new thread; the threads' arguments are the result.\<close>

fun create_rx_loop :: "os \<Rightarrow> addr option \<Rightarrow> nat list \<Rightarrow> manychan \<Rightarrow> world \<Rightarrow> (addr option list \<times> manychan \<times> world) option" where
  "create_rx_loop os nh [] st w = Some ([], st, w)"
| "create_rx_loop os nh (idx # idxs) st w = do {
     let st = st\<lparr>mc_base := mc_attrs (rx_id st idx) st\<rparr>;
     (ch, w) \<leftarrow> chan_create_rx os nh (Some (mc_base st)) w;
     (chs, st, w) \<leftarrow> create_rx_loop os nh idxs st (tick w);
     Some (ch # chs, st, w)
   }"

section \<open>The main thread\<close>

fun count_ready :: "os \<Rightarrow> addr option list \<Rightarrow> world \<Rightarrow> (nat \<times> world) option" where
  "count_ready os [] w = Some (0, w)"
| "count_ready os (ch # chs) w = do {
     (r, w) \<leftarrow> chan_ready_timedwait os ch (100 * word_of_int NS_IN_MS) w;
     (k, w) \<leftarrow> count_ready os chs w;
     Some ((if r = 0 then Suc k else k), w)
   }"

partial_function (option) await_tx_ready :: "os \<Rightarrow> interference \<Rightarrow> addr option list \<Rightarrow> nat \<Rightarrow> world \<Rightarrow> world option" where
  "await_tx_ready os others tx k w = do {
     (ready_ctr, w) \<leftarrow> count_ready os tx w;
     w \<leftarrow> others k w;
     if ready_ctr \<noteq> length tx then await_tx_ready os others tx (Suc k) w else Some w
   }"

text \<open>A value to every talker; the result is the number of calls that failed.\<close>

fun send_all_tx :: "os \<Rightarrow> addr option list \<Rightarrow> u64 \<Rightarrow> world \<Rightarrow> (int \<times> world) option" where
  "send_all_tx os [] data w = Some (0, w)"
| "send_all_tx os (ch # chs) data w = do {
     (r, w) \<leftarrow> chan_send_now os ch (Some (le_bytes 8 data)) w;
     (e, w) \<leftarrow> send_all_tx os chs data w;
     Some ((if r < 0 then e + 1 else e), w)
   }"

partial_function (option) sync_loop ::
  "os \<Rightarrow> (nat \<Rightarrow> manychan \<Rightarrow> manychan) \<Rightarrow> interference \<Rightarrow> addr option list \<Rightarrow> nat \<Rightarrow> periodic_timer option \<Rightarrow> manychan \<Rightarrow> world
     \<Rightarrow> (periodic_timer option \<times> manychan \<times> world) option" where
  "sync_loop os sts others tx k pt st w =
     (if mc_running st then do {
        let (pt, w) = await_cycle os pt w;
        let st = sts k st;
        w \<leftarrow> others k w;
        (_, w) \<leftarrow> send_all_tx os tx ENTITY_READY_MAGIC w;
        if all_ready st then Some (pt, st, w) else sync_loop os sts others tx (Suc k) pt st w
      }
      else Some (pt, st, w))"

text \<open>\<^verbatim>\<open>iterations--\<close> below the smallest \<^verbatim>\<open>int\<close> is undefined.\<close>

partial_function (option) capture_loop ::
  "os \<Rightarrow> (nat \<Rightarrow> manychan \<Rightarrow> manychan) \<Rightarrow> interference \<Rightarrow> addr option list \<Rightarrow> nat \<Rightarrow> periodic_timer option \<Rightarrow> int \<Rightarrow> manychan \<Rightarrow> world
     \<Rightarrow> (int \<times> manychan \<times> world) option" where
  "capture_loop os sts others tx k pt errors st w =
     (if mc_iterations st \<noteq> 0 \<and> mc_running st then do {
        let i = mc_iterations st - 1;
        if \<not> int_ok i then None
        else do {
          let (pt, w) = await_cycle os pt w;
          let st = sts k (st\<lparr>mc_iterations := i\<rparr>);
          w \<leftarrow> others k w;
          (e, w) \<leftarrow> send_all_tx os tx (word_of_int i) w;
          capture_loop os sts others tx (Suc k) pt (errors + e) st w
        }
      }
      else Some (errors, st, w))"

text \<open>
  After the channels have been created: wait, synchronise, reset the log, capture, send the end marker, destroy.  Three
  environments, one per waiting loop.
\<close>

definition mc_run ::
  "os \<Rightarrow> (nat \<Rightarrow> manychan \<Rightarrow> manychan) \<Rightarrow> (nat \<Rightarrow> manychan \<Rightarrow> manychan) \<Rightarrow> interference \<Rightarrow> interference \<Rightarrow> interference
     \<Rightarrow> addr \<Rightarrow> addr option list \<Rightarrow> manychan \<Rightarrow> world \<Rightarrow> (int \<times> manychan \<times> world) option" where
  "mc_run os sts sts' others others' others'' nh tx st w = do {
     w \<leftarrow> await_tx_ready os others tx 0 w;
     (pt, w) \<leftarrow> timer_from_attr os (mc_base st) w;
     (pt, st, w) \<leftarrow> sync_loop os sts others' tx 0 pt st w;
     n \<leftarrow> w_nh w nh;
     lg \<leftarrow> log_reset (nh_logger n);
     let w = set_nh nh (n\<lparr>nh_logger := lg\<rparr>) w;
     (errors, st, w) \<leftarrow> capture_loop os sts' others'' tx 0 pt 0 st w;
     (_, w) \<leftarrow> send_all_tx os tx (- 1) w;
     let st = st\<lparr>mc_running := False\<rparr>;
     w \<leftarrow> nh_destroy os (Nh_local (Some nh)) w;
     Some (errors, st, w)
   }"

definition mc_setup :: "os \<Rightarrow> interference \<Rightarrow> manychan \<Rightarrow> world \<Rightarrow> (addr option \<times> world) option" where
  "mc_setup os others st w = do {
     (nhp, w) \<leftarrow> nh_create_init os (Some (mc_nic st)) (nat (2 * mc_ensemble_size st + 1))
       (if length (mc_logfile st) > 0 then Some (mc_logfile st) else None) w;
     (case nhp of
        None \<Rightarrow> Some (None, w)
      | Some nh \<Rightarrow> do {
          w \<leftarrow> nh_set_verbose nhp (mc_verbose st) w;
          w \<leftarrow> nh_set_srp os others nhp (mc_do_srp st) w;
          w \<leftarrow> (if mc_tracing st then nh_enable_ftrace os nhp w else Some w);
          Some (nhp, w)
        })
   }"

text \<open>The number returned with the exit status is what \<^verbatim>\<open>main\<close> prints at its end, the errors of the capture.\<close>

definition mc_main ::
  "os \<Rightarrow> interference \<Rightarrow> (nat \<Rightarrow> manychan \<Rightarrow> manychan) \<Rightarrow> (nat \<Rightarrow> manychan \<Rightarrow> manychan) \<Rightarrow> interference \<Rightarrow> interference \<Rightarrow> interference
     \<Rightarrow> (int \<times> string option) list \<Rightarrow> world \<Rightarrow> ((int \<times> int) \<times> world) option" where
  "mc_main os srp sts sts' others others' others'' opts w = do {
     r \<leftarrow> mc_options opts mc_statics;
     (case r of
        Inl e \<Rightarrow> Some ((e, 0), w)
      | Inr st \<Rightarrow>
          if \<not> valid_settings st then Some ((-1, 0), w)
          else do {
            let st = mc_log_suffix st;
            (nhp, w) \<leftarrow> mc_setup os srp st w;
            (case nhp of
               None \<Rightarrow> Some ((-1, 0), w)
             | Some nh \<Rightarrow> do {
                 (tx, st, w) \<leftarrow> create_tx_loop os nhp [0..<nat (mc_ensemble_size st)] st w;
                 let st = st\<lparr>mc_running := True\<rparr>;
                 (_, st, w) \<leftarrow> create_rx_loop os nhp [0..<nat (mc_ensemble_size st)] st w;
                 (errors, st, w) \<leftarrow> mc_run os sts sts' others others' others'' nh tx st w;
                 Some ((0, errors), w)
               })
          })
   }"

section \<open>Facts\<close>

lemmas mc_consts = ENSEMBLE_SIZE_LIMIT_def ENTITY_READY_MAGIC_def ID_BASE_OFFSET_def

lemma valid_settings_iff:
  "valid_settings st \<longleftrightarrow> mc_ensemble_idx st < mc_ensemble_size st \<and> 2 \<le> mc_ensemble_size st \<and> mc_ensemble_size st \<le> 14
     \<and> 125000 \<le> uint (a_interval_ns (mc_base st)) \<and> uint (a_interval_ns (mc_base st)) \<le> 1000000000"
  by (auto simp: valid_settings_def mc_consts nc_consts)

text \<open>What the command line cannot change.\<close>

definition mc_fresh :: "manychan \<Rightarrow> bool" where
  "mc_fresh st \<longleftrightarrow> a_size (mc_base st) = 8 \<and> length (a_dst (mc_base st)) = 6 \<and> a_sc (mc_base st) \<in> {SC_CLASS_A, SC_TAS}
     \<and> mc_remote_ready st = replicate 14 False \<and> length (mc_logfile st) \<le> 114"

lemma mc_parser_fresh:
  assumes "mc_parser key arg st = Some (Inr st')" "mc_fresh st"
  shows "mc_fresh st'"
  using assms by (auto simp: mc_parser_def mc_fresh_def bind_Some_iff strncpy_def split: if_splits)

lemma mc_options_fresh: "mc_options opts st = Some (Inr st') \<Longrightarrow> mc_fresh st \<Longrightarrow> mc_fresh st'"
proof (induction opts arbitrary: st)
  case (Cons op opts)
  obtain key arg where op: "op = (key, arg)" by fastforce
  with Cons.prems(1) obtain r where r: "mc_parser key arg st = Some r" by (auto simp: bind_Some_iff)
  with Cons op show ?case by (cases r) (auto dest: mc_parser_fresh)
qed simp

lemma mc_statics_fresh: "mc_fresh mc_statics"
  by (simp add: mc_fresh_def mc_statics_def mc_consts)

lemma mc_attrs_fields [simp]:
  "a_stream_id (mc_attrs i st) = word_of_int i" "a_size (mc_attrs i st) = a_size (mc_base st)" "a_sc (mc_attrs i st) = a_sc (mc_base st)"
  "a_interval_ns (mc_attrs i st) = a_interval_ns (mc_base st)" "mc_attrs i (st\<lparr>mc_base := mc_attrs j st\<rparr>) = mc_attrs i st"
  by (simp_all add: mc_attrs_def)

lemma ids_base [simp]: "tx_id (st\<lparr>mc_base := b\<rparr>) i = tx_id st i" "rx_id (st\<lparr>mc_base := b\<rparr>) i = rx_id st i"
  by (simp_all add: tx_id_def rx_id_def)

text \<open>An agent of the ensemble: its settings are accepted, and its number is not negative.\<close>

definition agent :: "manychan \<Rightarrow> bool" where
  "agent st \<longleftrightarrow> valid_settings st \<and> 0 \<le> mc_ensemble_idx st"

lemma id_bounds:
  assumes "agent st" "i < nat (mc_ensemble_size st)"
  shows "42 \<le> tx_id st i" "tx_id st i < 238" "42 \<le> rx_id st i" "rx_id st i < 238"
proof -
  let ?n = "mc_ensemble_size st" and ?k = "mc_ensemble_idx st"
  have b: "0 \<le> ?k" "?k \<le> ?n - 1" "int i \<le> ?n - 1" "?n \<le> 14" "2 \<le> ?n" using assms by (auto simp: agent_def valid_settings_iff)
  have "?k * ?n \<le> (?n - 1) * ?n" "int i * ?n \<le> (?n - 1) * ?n" "0 \<le> ?k * ?n" using b by (auto intro!: mult_right_mono)
  moreover have "?n * ?n \<le> 14 * 14" using b by (intro mult_mono) auto
  moreover have "(?n - 1) * ?n = ?n * ?n - ?n" by (simp add: algebra_simps)
  ultimately show "42 \<le> tx_id st i" "tx_id st i < 238" "42 \<le> rx_id st i" "rx_id st i < 238"
    using b by (auto simp: tx_id_def rx_id_def ID_BASE_OFFSET_def)
qed

lemma uint_id: "0 \<le> i \<Longrightarrow> i < 256 \<Longrightarrow> uint (word_of_int i :: u64) = i" "0 \<le> i \<Longrightarrow> i < 256 \<Longrightarrow> uint (word_of_int i :: u8) = i"
  by (simp_all add: uint_word_of_int)

text \<open>Two numbers below the base determine, and are determined by, \<open>a + b * n\<close>.\<close>

lemma base_digits:
  fixes a b c d n :: int
  assumes "0 \<le> a" "a < n" "0 \<le> c" "c < n"
  shows "a + b * n = c + d * n \<longleftrightarrow> a = c \<and> b = d"
proof
  assume eq: "a + b * n = c + d * n"
  have "(a + b * n) mod n = a" "(c + d * n) mod n = c" using assms by simp_all
  with eq have "a = c" by simp
  with eq assms show "a = c \<and> b = d" by simp
qed simp

text \<open>The index that a ready signal is recorded under is the number of its sender.\<close>

lemma drain_id_sender:
  assumes "agent st" "j < nat (mc_ensemble_size st)"
  shows "drain_id (word_of_int (rx_id st j)) st = int j"
proof -
  let ?n = "mc_ensemble_size st"
  have n: "2 \<le> ?n" "?n \<le> 14" "int j \<le> 13" "0 \<le> mc_ensemble_idx st" using assms by (auto simp: agent_def valid_settings_iff)
  have "0 \<le> int j * ?n" "int j * ?n < 238"
    using id_bounds(3,4) [OF assms] n(1,4) by (simp_all add: rx_id_def ID_BASE_OFFSET_def)
  then have u: "uint (word_of_int (int j * ?n) :: u64) = int j * ?n" "uint (word_of_int ?n :: u64) = ?n"
    using n(1,2) uint_id(1) [of "int j * ?n"] uint_id(1) [of ?n] by linarith+
  have "uint (word_of_int (int j * ?n) div word_of_int ?n :: u64) = uint (of_nat j :: u64)"
    unfolding uint_div_distrib u using n by (simp add: unsigned_of_nat take_bit_nat_eq_self)
  then have "(word_of_int (int j * ?n) div word_of_int ?n :: u64) = of_nat j" by (simp add: word_uint_eq_iff)
  moreover have "(word_of_int (rx_id st j) - word_of_int (mc_ensemble_idx st) - word_of_int ID_BASE_OFFSET :: u64) = word_of_int (int j * ?n)"
    by (simp add: rx_id_def flip: wi_hom_sub)
  moreover have "sint (ucast (of_nat j :: u64) :: u32) = int j"
    using n(3) by (simp add: unsigned_of_nat take_bit_nat_eq_self signed_of_nat signed_take_bit_int_eq_self)
  ultimately show ?thesis by (simp only: drain_id_def)
qed

lemma drain_round_ready:
  assumes "agent st" "j < nat (mc_ensemble_size st)" "length (mc_remote_ready st) = 14" "0 \<le> res"
  shows "drain_round (word_of_int (rx_id st j)) res ENTITY_READY_MAGIC st = Some (st\<lparr>mc_remote_ready := (mc_remote_ready st)[j := True]\<rparr>)"
proof -
  have j: "j < 14" using assms(1,2) by (auto simp: agent_def valid_settings_iff)
  have "ENTITY_READY_MAGIC \<noteq> - 1" by (simp add: ENTITY_READY_MAGIC_def)
  moreover have "st\<lparr>mc_remote_ready := (mc_remote_ready st)[j := True]\<rparr> = st" if "mc_remote_ready st ! j"
    using that list_update_id [of "mc_remote_ready st" j] by simp
  ultimately show ?thesis using drain_id_sender [OF assms(1,2)] assms(3,4) j
    by (auto simp: drain_round_def Let_def ENSEMBLE_SIZE_LIMIT_def)
qed

fun ready_signals :: "nat list \<Rightarrow> manychan \<Rightarrow> manychan option" where
  "ready_signals [] st = Some st"
| "ready_signals (j # js) st = do { st \<leftarrow> drain_round (word_of_int (rx_id st j)) 28 ENTITY_READY_MAGIC st; ready_signals js st }"

lemma ready_signals_mark:
  "agent st \<Longrightarrow> length (mc_remote_ready st) = 14 \<Longrightarrow> \<forall>j \<in> set js. j < nat (mc_ensemble_size st) \<Longrightarrow>
    \<exists>rs. ready_signals js st = Some (st\<lparr>mc_remote_ready := rs\<rparr>) \<and> length rs = 14
      \<and> (\<forall>i < 14. rs ! i \<longleftrightarrow> mc_remote_ready st ! i \<or> i \<in> set js)"
proof (induction js arbitrary: st)
  case Nil
  then show ?case by (intro exI [of _ "mc_remote_ready st"]) simp
next
  case (Cons j js)
  let ?st = "st\<lparr>mc_remote_ready := (mc_remote_ready st)[j := True]\<rparr>"
  have "agent ?st" using Cons.prems(1) by (simp add: agent_def valid_settings_iff)
  then obtain rs where "ready_signals js ?st = Some (st\<lparr>mc_remote_ready := rs\<rparr>)" "length rs = 14"
    "\<forall>i < 14. rs ! i \<longleftrightarrow> (mc_remote_ready st)[j := True] ! i \<or> i \<in> set js"
    using Cons.IH [of ?st] Cons.prems by auto
  moreover have "j < 14" using Cons.prems(1,3) by (auto simp: agent_def valid_settings_iff)
  ultimately show ?case using drain_round_ready [of st j 28] Cons.prems
    by (intro exI [of _ rs]) (auto simp: nth_list_update)
qed

text \<open>The settings that \<open>valid_settings\<close> accepts pass the admission test on any link of at least 4.736 Mbit/s.\<close>

lemma settings_admitted:
  assumes "valid_settings st" "a_size (mc_base st) = 8" "4736000 \<le> uint speed"
  shows "i_valid_interval speed (a_interval_ns (mc_base st)) (a_size (mc_base st)) = Some True"
proof -
  let ?i = "uint (a_interval_ns (mc_base st))"
  have i: "125000 \<le> ?i" "?i \<le> 1000000000" using assms(1) by (simp_all add: valid_settings_iff)
  have "528000000000 div uint speed \<le> 528000000000 div 4736000" using assms(3) by (intro zdiv_mono2) auto
  then have d: "528000000000 div uint speed < 125000" by simp
  have "125000 * 4736000 \<le> ?i * uint speed" using i(1) assms(3) by (intro mult_mono) auto
  moreover have "speed \<noteq> 0" using assms(3) by auto
  ultimately show ?thesis using i d assms(2) by (simp add: i_valid_interval_def nc_consts Let_def)
qed

definition mesh_talker :: "os \<Rightarrow> world \<Rightarrow> addr \<Rightarrow> nethandler \<Rightarrow> channel_attrs \<Rightarrow> addr \<Rightarrow> bool" where
  "mesh_talker os w nh n a ch \<longleftrightarrow> (\<exists>c. w_ch w ch = Some c \<and> ch_nh c = Some nh \<and> valid_state c n \<and> new_talker os a c)"

lemma mesh_talker_relinked:
  assumes "mesh_talker os w nh n a ch" "relinked (w_ch w ch) (w_ch w' ch)" "nh_rx_sock n' = nh_rx_sock n"
  shows "mesh_talker os w' nh n' a ch"
proof -
  obtain c p where c: "w_ch w ch = Some c" "ch_nh c = Some nh" "valid_state c n" "new_talker os a c" "w_ch w' ch = Some (c\<lparr>ch_next := p\<rparr>)"
    using assms(1,2) by (auto simp: mesh_talker_def relinked_Some)
  then have "valid_state (c\<lparr>ch_next := p\<rparr>) n'" "new_talker os a (c\<lparr>ch_next := p\<rparr>)"
    using assms(3) by (simp_all add: valid_state_def new_talker_def payload_ok_def)
  with c(2,5) show ?thesis by (simp add: mesh_talker_def)
qed

text \<open>No handler writes a log.\<close>

definition no_logs :: "world \<Rightarrow> bool" where
  "no_logs w \<longleftrightarrow> (\<forall>nh n. w_nh w nh = Some n \<longrightarrow> nh_logger n = None)"

lemma create_tx_loop_ok:
  "w_nh w nh = Some n \<Longrightarrow> nh_srp n = Some s \<Longrightarrow> \<not> nh_use_srp n \<Longrightarrow> 0 \<le> nh_rx_sock n \<Longrightarrow> os_good os \<Longrightarrow> heap_ok w \<Longrightarrow>
    tx_chans w nh xs tp \<Longrightarrow> tail_ok xs tp \<Longrightarrow> mc_fresh st \<Longrightarrow>
    i_valid_interval (nh_link_speed n) (a_interval_ns (mc_base st)) (a_size (mc_base st)) = Some True \<Longrightarrow>
    \<forall>i \<in> set idxs. (word_of_int (tx_id st i) :: u64) \<noteq> 0 \<and> int_ok (tx_id st i) \<Longrightarrow> int_ok (mc_ensemble_idx st * mc_ensemble_size st) \<Longrightarrow>
    \<exists>chs st' w' n' t. create_tx_loop os (Some nh) idxs st w = Some (map Some chs, st', w') \<and> tx_chans w' nh (xs @ chs) t
      \<and> w_nh w' nh = Some n' \<and> nh_rx_sock n' = nh_rx_sock n \<and> nh_running n' = nh_running n \<and> (\<forall>b. w_ch w b \<noteq> None \<longrightarrow> relinked (w_ch w b) (w_ch w' b))
      \<and> (no_logs w \<longrightarrow> no_logs w') \<and> mc_iterations st' = mc_iterations st
      \<and> list_all2 (\<lambda>ch i. mesh_talker os w' nh n' (mc_attrs (tx_id st i) st) ch) chs idxs"
proof (induction idxs arbitrary: w n xs tp st)
  case Nil
  then show ?case by (intro exI [of _ "[]"] exI [of _ st] exI [of _ w] exI [of _ n] exI [of _ tp]) simp
next
  case (Cons i idxs)
  let ?st = "st\<lparr>mc_base := mc_attrs (tx_id st i) st\<rparr>"
  have adm: "i_valid_size (a_size (mc_base st))" "\<forall>x. a_sc (mc_base st) \<noteq> SC_undeclared x"
    using Cons.prems(9) by (auto simp: mc_fresh_def i_valid_size_def)
  obtain ch w1 c h where w1: "chan_create_tx os (Some nh) (Some (mc_attrs (tx_id st i) st)) w = Some (Some ch, w1)" "ch = w_fresh w"
    "tx_chans w1 nh (xs @ [ch]) (Some ch)" "w_ch w1 ch = Some c" "ch_nh c = Some nh"
    "w_nh w1 = (w_nh w)(nh \<mapsto> n\<lparr>nh_tx_head := h, nh_tx_tail := Some ch\<rparr>)" "valid_state c n" "new_talker os (mc_attrs (tx_id st i) st) c"
    "heap_ok w1" "\<forall>b. b \<noteq> ch \<longrightarrow> relinked (w_ch w b) (w_ch w1 b)"
    using chan_create_tx_new [OF Cons.prems(1-8), of "mc_attrs (tx_id st i) st"] adm Cons.prems(10,11) by auto
  let ?n = "n\<lparr>nh_tx_head := h, nh_tx_tail := Some ch\<rparr>"
  have "mc_fresh ?st" "tail_ok (xs @ [ch]) (Some ch)" using Cons.prems(9) by (simp_all add: mc_fresh_def mc_attrs_def tail_ok_def)
  then obtain chs st' w' n' t where w': "create_tx_loop os (Some nh) idxs ?st w1 = Some (map Some chs, st', w')"
    "tx_chans w' nh ((xs @ [ch]) @ chs) t" "w_nh w' nh = Some n'" "nh_rx_sock n' = nh_rx_sock n"
    "\<forall>b. w_ch w1 b \<noteq> None \<longrightarrow> relinked (w_ch w1 b) (w_ch w' b)"
    "list_all2 (\<lambda>ch i. mesh_talker os w' nh n' (mc_attrs (tx_id st i) st) ch) chs idxs" "nh_running n' = nh_running n"
    "no_logs w1 \<longrightarrow> no_logs w'" "mc_iterations st' = mc_iterations st"
    using Cons.IH [of w1 ?n "xs @ [ch]" "Some ch" ?st] w1(3,6,9) Cons.prems(2-5,10-12) by auto
  have "mesh_talker os w1 nh n (mc_attrs (tx_id st i) st) ch" using w1(4,5,7,8) by (simp add: mesh_talker_def)
  then have "mesh_talker os w' nh n' (mc_attrs (tx_id st i) st) ch" using mesh_talker_relinked w'(4,5) w1(4) by blast
  moreover have "relinked (w_ch w b) (w_ch w' b)" if "w_ch w b \<noteq> None" for b
  proof -
    have "b \<noteq> ch" using that w1(2) Cons.prems(6) by (auto simp: heap_ok_def)
    then have r: "relinked (w_ch w b) (w_ch w1 b)" using w1(10) by blast
    then have "w_ch w1 b \<noteq> None" using that by (cases "w_ch w1 b") auto
    then show ?thesis using r w'(5) relinked_trans by blast
  qed
  moreover have "no_logs w1" if "no_logs w" using that w1(6) Cons.prems(1) by (simp add: no_logs_def)
  ultimately show ?case using w1(1) w' Cons.prems(11,12)
    by (intro exI [of _ "ch # chs"] exI [of _ st'] exI [of _ w'] exI [of _ n'] exI [of _ t]) simp
qed

text \<open>Talkers that are ready are counted without waiting.\<close>

lemma count_ready_all:
  "\<forall>ch \<in> set chs. \<exists>c. w_ch w ch = Some c \<and> ch_nh c = Some nh \<and> ch_ready c \<and> \<not> ch_stopping c \<Longrightarrow>
    w_nh w nh = Some n \<Longrightarrow> nh_running n \<Longrightarrow> \<forall>t. os_clock os t CLOCK_REALTIME \<noteq> None \<Longrightarrow>
    \<exists>w'. count_ready os (map Some chs) w = Some (length chs, w') \<and> w_sleep w' = w_sleep w"
proof (induction chs arbitrary: w)
  case (Cons ch chs)
  obtain ts where ts: "os_clock os (w_tick w) CLOCK_REALTIME = Some ts" using Cons.prems(4) by blast
  obtain c where "w_ch w ch = Some c" "ch_nh c = Some nh" "ch_ready c" "\<not> ch_stopping c" using Cons.prems(1) by auto
  with ts have "chan_ready_timedwait os (Some ch) (100 * word_of_int NS_IN_MS) w = Some (0, tick w)"
    using Cons.prems(2,3) by (simp add: chan_ready_timedwait_def read_clock_def Let_def)
  moreover obtain w' where "count_ready os (map Some chs) (tick w) = Some (length chs, w')" "w_sleep w' = w_sleep w"
    using Cons.IH [of "tick w"] Cons.prems by auto
  ultimately show ?case by simp
qed simp

text \<open>A missing talker is never ready.\<close>

lemma count_ready_less:
  "count_ready os tx w = Some (k, w') \<Longrightarrow> k \<le> length tx \<and> (None \<in> set tx \<longrightarrow> k < length tx)"
proof (induction tx arbitrary: w k w')
  case (Cons ch tx)
  then obtain r w1 k' where r: "chan_ready_timedwait os ch (100 * word_of_int NS_IN_MS) w = Some (r, w1)"
    "count_ready os tx w1 = Some (k', w')" "k = (if r = 0 then Suc k' else k')" by (auto simp: bind_Some_iff)
  have "ch = None \<Longrightarrow> r \<noteq> 0" using r(1) by (auto simp: chan_ready_timedwait_def EINVAL_def)
  then show ?case using Cons.IH [OF r(2)] r(3) by auto
qed simp

lemma await_tx_ready_missing:
  assumes "await_tx_ready os others tx k w = Some w'"
  shows "None \<notin> set tx"
  using assms
proof (rule await_tx_ready.raw_induct [where P = "\<lambda>os others tx k w w'. None \<notin> set tx", rotated], goal_cases)
  case (1 loop os others tx k w w')
  then show ?case by (auto simp: bind_Some_iff split: if_splits dest: count_ready_less)
qed

text \<open>The talkers of an agent, as \<^verbatim>\<open>main\<close> creates them.\<close>

lemma mesh_created:
  assumes "mc_options opts mc_statics = Some (Inr st)" "agent st"
    and "w_nh w nh = Some n" "nh_srp n = Some s" "\<not> nh_use_srp n" "0 \<le> nh_rx_sock n" "os_good os" "heap_ok w" "tx_chans w nh [] None"
    and "4736000 \<le> uint (nh_link_speed n)"
  shows "\<exists>chs st' w' n' t. create_tx_loop os (Some nh) [0..<nat (mc_ensemble_size st)] st w = Some (map Some chs, st', w')
    \<and> tx_chans w' nh chs t \<and> w_nh w' nh = Some n' \<and> nh_running n' = nh_running n
    \<and> list_all2 (\<lambda>ch i. mesh_talker os w' nh n' (mc_attrs (tx_id st i) st) ch) chs [0..<nat (mc_ensemble_size st)]
    \<and> (no_logs w \<longrightarrow> no_logs w') \<and> mc_iterations st' = mc_iterations st"
proof -
  have f: "mc_fresh st" by (rule mc_options_fresh [OF assms(1) mc_statics_fresh])
  have adm: "i_valid_interval (nh_link_speed n) (a_interval_ns (mc_base st)) (a_size (mc_base st)) = Some True"
    using settings_admitted [of st] assms(2,10) f by (simp add: agent_def mc_fresh_def)
  have ids: "\<forall>i \<in> set [0..<nat (mc_ensemble_size st)]. (word_of_int (tx_id st i) :: u64) \<noteq> 0 \<and> int_ok (tx_id st i)"
  proof
    fix i assume "i \<in> set [0..<nat (mc_ensemble_size st)]"
    then have i: "42 \<le> tx_id st i" "tx_id st i < 238" using id_bounds(1,2) [OF assms(2), of i] by simp_all
    then have "uint (word_of_int (tx_id st i) :: u64) \<noteq> uint (0 :: u64)" using uint_id(1) [of "tx_id st i"] by simp
    then have "(word_of_int (tx_id st i) :: u64) \<noteq> 0" by metis
    then show "(word_of_int (tx_id st i) :: u64) \<noteq> 0 \<and> int_ok (tx_id st i)" using i by (simp add: int_ok_def)
  qed
  have "0 < nat (mc_ensemble_size st)" using assms(2) by (auto simp: agent_def valid_settings_iff)
  from id_bounds(1,2) [OF assms(2) this] have "int_ok (mc_ensemble_idx st * mc_ensemble_size st)" by (simp add: tx_id_def ID_BASE_OFFSET_def int_ok_def)
  from create_tx_loop_ok [OF assms(3-9) _ f adm ids this] show ?thesis by (auto simp: tail_ok_def)
qed

text \<open>A new talker can send for as long as the counter of the capture lasts: with at most a second between the frames its 64-bit launch time does
  not wrap.\<close>

lemma mesh_talker_talker:
  assumes "mesh_talker os w nh n (mc_attrs i st) ch" "w_nh w nh = Some n" "no_logs w" "os_good os" "accepts_frames os" "agent st" "mc_fresh st"
    and "k < 2 ^ 31"
  shows "talker os k w ch (htobe64 (word_of_int i)) 8"
proof -
  obtain c where c: "w_ch w ch = Some c" "ch_nh c = Some nh" "valid_state c n" "new_talker os (mc_attrs i st) c"
    using assms(1) by (auto simp: mesh_talker_def)
  have "nh_logger n = None" using assms(2,3) by (simp add: no_logs_def)
  then have s: "sendable os k c n" using c(4) assms(4,5) by (simp add: sendable_def os_good_def logger_room_def new_talker_def)
  have "uint (ch_interval_ns c) \<le> 1000000000" using c(4) assms(6) by (simp add: new_talker_def agent_def valid_settings_iff mc_attrs_def)
  moreover from this have "int k * uint (ch_interval_ns c) \<le> 2 ^ 31 * 1000000000" using assms(8) by (intro mult_mono) auto
  moreover obtain ts where "ch_next_tx_ns c = ts_u64 ts" "0 \<le> ts_ns ts" "ts_ns ts < 2 ^ 62" using c(4) by (auto simp: new_talker_def)
  then have "uint (ch_next_tx_ns c) < 2 ^ 62" using uint_ts_u64 [of ts] by simp
  ultimately have "paced k c" by (simp add: paced_def)
  then show ?thesis unfolding talker_def using c s assms(2,7)
    by (intro exI [of _ c] exI [of _ nh] exI [of _ n]) (auto simp: live_def new_talker_def mc_fresh_def mc_attrs_def)
qed

text \<open>A send changes the channel it is called on and no other, and no handler.\<close>

definition only_ch :: "addr \<Rightarrow> world \<Rightarrow> world \<Rightarrow> bool" where
  "only_ch ch w w' \<longleftrightarrow> (\<forall>b. b \<noteq> ch \<longrightarrow> w_ch w' b = w_ch w b) \<and> w_nh w' = w_nh w"

lemma with_logger_none:
  assumes "w_nh w nh = Some n" "nh_logger n = None"
  shows "with_logger (\<lambda>lg. log_tx fo lg (Some du) a b d) nh w = Some w"
proof -
  have "n\<lparr>nh_logger := None\<rparr> = n" using assms(2) by (cases n) simp
  then have "(w_nh w)(nh \<mapsto> n\<lparr>nh_logger := None\<rparr>) = w_nh w" using assms(1) by auto
  then show ?thesis using assms by (simp add: with_logger_def log_tx_def i_log_def)
qed

lemma send_at_keeps:
  assumes "live w ch c nh n" "nh_logger n = None"
  shows "i_tas_send_at os ch None w = Some (x, w') \<Longrightarrow> only_ch ch w w'"
    "i_cbs_send_at os ch None w = Some (x, w') \<Longrightarrow> only_ch ch w w'"
proof -
  have sent: "w_ch (snd (os_send_frame os d t v)) = w_ch v" "w_nh (snd (os_send_frame os d t v)) = w_nh v" for d t v
    by (simp_all add: os_send_frame_def Let_def)
  have err: "w_ch (snd (nc_handle_sock_err os a b v)) = w_ch v" "w_nh (snd (nc_handle_sock_err os a b v)) = w_nh v" for a b v
    by (simp_all add: nc_handle_sock_err_def Let_def split: option.splits)
  have l: "w_ch w ch = Some c" "ch_nh c = Some nh" "w_nh w nh = Some n" using assms(1) by (auto simp: live_def)
  have lg: "with_logger (\<lambda>lg. log_tx fo lg (Some du) a b d) nh v = Some v" if "w_nh v = w_nh w" for v fo du a b d
    using with_logger_none [of v nh n] that l(3) assms(2) by simp
  show "i_tas_send_at os ch None w = Some (x, w') \<Longrightarrow> only_ch ch w w'"
    using l by (auto simp: i_tas_send_at_def read_tai_def read_clock_def bind_Some_iff Let_def split_beta sent err lg only_ch_def split: if_splits)
  show "i_cbs_send_at os ch None w = Some (x, w') \<Longrightarrow> only_ch ch w w'"
    using l by (auto simp: i_cbs_send_at_def read_tai_def read_clock_def bind_Some_iff Let_def split_beta sent lg only_ch_def split: if_splits)
qed

lemma chan_send_now_keeps:
  assumes "chan_send_now os (Some ch) (Some d) w = Some (r, w')" "talker os k w ch sid sz" "sz \<le> length d"
    and "no_logs w"
  shows "only_ch ch w w'"
proof -
  obtain c nh n where t: "live w ch c nh n" "valid_state c n" "sendable os k c n" "ch_ops c = Some tas_ops \<or> ch_ops c = Some cbs_ops"
    "unat (ch_payload_size c) = sz" using assms(2) by (auto simp: talker_def)
  have lg: "nh_logger n = None" using assms(4) t(1) by (auto simp: live_def no_logs_def)
  obtain ts where ts: "read_tai os w = Some (ts, tick w)" using clock_ok_read_tai [of os w] t(3) by (auto simp: sendable_def)
  let ?w = "set_ch ch (updated ts d c) (tick w)"
  have "live (tick w) ch c nh n" using t(1) by (simp add: live_def)
  then have upd: "chan_update (Some ch) ts (Some d) (tick w) = Some (0, ?w)" using t(2,5) assms(3) chan_update_valid by blast
  have l: "live ?w ch (updated ts d c) nh n" using t(1) by (simp add: live_def updated_def)
  have "chan_valid w (Some ch) = Some True" "w_ch w ch = Some c" using chan_valid_live [OF t(1)] t(1,2) by (simp_all add: live_def)
  then have "(\<exists>x. i_tas_send_at os ch None ?w = Some (x, w')) \<or> (\<exists>x. i_cbs_send_at os ch None ?w = Some (x, w'))"
    using assms(1) t(4) ts upd
    by (auto simp: chan_send_now_def i_tas_send_now_def i_cbs_send_now_def bind_Some_iff split: if_splits)
  then have "only_ch ch ?w w'" using send_at_keeps [OF l lg] by blast
  then show ?thesis by (simp add: only_ch_def)
qed

lemma only_ch_talker: "only_ch ch w w' \<Longrightarrow> b \<noteq> ch \<Longrightarrow> talker os k w' b sid sz = talker os k w b sid sz"
  by (simp add: only_ch_def talker_def live_def)

text \<open>A round: one frame on every talker, in order, and all talkers are ready for the next.\<close>

lemma send_all_tx_frames:
  "list_all2 (\<lambda>ch sid. talker os (Suc k) w ch sid 8) chs sids \<Longrightarrow> distinct chs \<Longrightarrow> no_logs w \<Longrightarrow>
    \<exists>w' fs. send_all_tx os (map Some chs) data w = Some (0, w') \<and> w_net w' = w_net w @ fs
      \<and> list_all2 (\<lambda>f sid. sample_frame sid 8 f (le_bytes 8 data)) fs sids
      \<and> list_all2 (\<lambda>ch sid. talker os k w' ch sid 8) chs sids \<and> w_nh w' = w_nh w \<and> (\<forall>b. b \<notin> set chs \<longrightarrow> w_ch w' b = w_ch w b)"
proof (induction chs arbitrary: w sids)
  case Nil
  then show ?case by (intro exI [of _ w] exI [of _ "[]"]) auto
next
  case (Cons ch chs)
  then obtain sid sids' where s: "sids = sid # sids'" "talker os (Suc k) w ch sid 8" "list_all2 (\<lambda>ch sid. talker os (Suc k) w ch sid 8) chs sids'"
    by (auto simp: list_all2_Cons1)
  obtain w1 f where w1: "chan_send_now os (Some ch) (Some (le_bytes 8 data)) w = Some (8, w1)" "w_net w1 = w_net w @ [f]"
    "sample_frame sid 8 f (le_bytes 8 data)" "talker os k w1 ch sid 8"
    using chan_send_now_next [OF s(2), of "le_bytes 8 data"] by auto
  have o: "only_ch ch w w1" using chan_send_now_keeps [OF w1(1) s(2)] Cons.prems(3) by simp
  have "list_all2 (\<lambda>ch sid. talker os (Suc k) w1 ch sid 8) chs sids'"
  proof (rule list.rel_mono_strong [OF s(3)])
    fix z y assume "z \<in> set chs" "talker os (Suc k) w z y 8"
    moreover from this Cons.prems(2) have "z \<noteq> ch" by auto
    ultimately show "talker os (Suc k) w1 z y 8" using only_ch_talker [OF o] by blast
  qed
  from Cons.IH [OF this] Cons.prems(2,3) o obtain w' fs where w': "send_all_tx os (map Some chs) data w1 = Some (0, w')" "w_net w' = w_net w1 @ fs"
    "list_all2 (\<lambda>f sid. sample_frame sid 8 f (le_bytes 8 data)) fs sids'" "list_all2 (\<lambda>ch sid. talker os k w' ch sid 8) chs sids'"
    "w_nh w' = w_nh w1" "\<forall>b. b \<notin> set chs \<longrightarrow> w_ch w' b = w_ch w1 b" by (auto simp: only_ch_def no_logs_def)
  have "talker os k w' ch sid 8" using w1(4) w'(5,6) Cons.prems(2) by (simp add: talker_def live_def)
  with w1 w' o s(1) show ?case by (intro exI [of _ w'] exI [of _ "f # fs"]) (auto simp: only_ch_def)
qed

lemma capture_loop_rounds:
  "list_all2 (\<lambda>ch sid. talker os (m + k) w ch sid 8) chs sids \<Longrightarrow> distinct chs \<Longrightarrow> no_logs w \<Longrightarrow>
    mc_running st \<Longrightarrow> mc_iterations st = int m \<Longrightarrow> m < 2 ^ 31 \<Longrightarrow>
    \<exists>w' fss. capture_loop os (\<lambda>_ st. st) (\<lambda>_. Some) (map Some chs) j pt e st w = Some (e, st\<lparr>mc_iterations := 0\<rparr>, w')
      \<and> w_net w' = w_net w @ concat fss
      \<and> list_all2 (\<lambda>fs i. list_all2 (\<lambda>f sid. sample_frame sid 8 f (le_bytes 8 (of_nat i :: u64))) fs sids) fss (rev [0..<m])
      \<and> list_all2 (\<lambda>ch sid. talker os k w' ch sid 8) chs sids"
proof (induction m arbitrary: w st j pt)
  case 0
  then have "st\<lparr>mc_iterations := 0\<rparr> = st" by simp
  with 0 show ?case by (intro exI [of _ w] exI [of _ "[]"]) (simp add: capture_loop.simps)
next
  case (Suc m)
  obtain pt' w1 where c: "await_cycle os pt w = (pt', w1)" by fastforce
  then have w1: "w_ch w1 = w_ch w" "w_nh w1 = w_nh w" "w_net w1 = w_net w" using await_cycle_heaps [of os pt w] by auto
  have "list_all2 (\<lambda>ch sid. talker os (Suc (m + k)) w1 ch sid 8) chs sids"
    using Suc.prems(1) by (simp add: talker_heaps [OF w1(1,2)])
  from send_all_tx_frames [OF this Suc.prems(2), of "of_nat m"] Suc.prems(3) w1(2) obtain w2 fs where
    w2: "send_all_tx os (map Some chs) (of_nat m) w1 = Some (0, w2)" "w_net w2 = w_net w @ fs"
      "list_all2 (\<lambda>f sid. sample_frame sid 8 f (le_bytes 8 (of_nat m :: u64))) fs sids"
      "list_all2 (\<lambda>ch sid. talker os (m + k) w2 ch sid 8) chs sids" "w_nh w2 = w_nh w" using w1(3) by (auto simp: no_logs_def)
  let ?st = "st\<lparr>mc_iterations := int m\<rparr>"
  from Suc.IH [OF w2(4) Suc.prems(2), of ?st "Suc j" pt'] Suc.prems(3,4,6) w2(5) obtain w' fss where
    w': "capture_loop os (\<lambda>_ st. st) (\<lambda>_. Some) (map Some chs) (Suc j) pt' e ?st w2 = Some (e, st\<lparr>mc_iterations := 0\<rparr>, w')"
      "w_net w' = w_net w2 @ concat fss"
      "list_all2 (\<lambda>fs i. list_all2 (\<lambda>f sid. sample_frame sid 8 f (le_bytes 8 (of_nat i :: u64))) fs sids) fss (rev [0..<m])"
      "list_all2 (\<lambda>ch sid. talker os k w' ch sid 8) chs sids" by (auto simp: no_logs_def)
  have "int_ok (int m)" using Suc.prems(6) by (simp add: int_ok_def)
  then have "capture_loop os (\<lambda>_ st. st) (\<lambda>_. Some) (map Some chs) j pt e st w = Some (e, st\<lparr>mc_iterations := 0\<rparr>, w')"
    using Suc.prems(4,5) c w2(1) w'(1) by (subst capture_loop.simps) simp
  with w' w2(2,3) show ?case by (intro exI [of _ w'] exI [of _ "fs # fss"]) simp
qed

section \<open>Properties\<close>

text \<open>C38: The ids of the mesh.  Talker \<open>i\<close> of one agent and listener \<open>j\<close> of another, or the same, agent of the ensemble have the same stream id exactly
  if \<open>i\<close> is the number of the listening agent and \<open>j\<close> that of the sending one.  Every id is between 42 and 237: it is not 0, and
  it fits the last byte of the multicast address unchanged.\<close>

theorem mesh_ids_pair_agents:
  assumes "agent a" "agent b" "mc_ensemble_size a = mc_ensemble_size b"
    and "i < nat (mc_ensemble_size a)" "j < nat (mc_ensemble_size b)" "length (a_dst (mc_base a)) = 6"
  shows "(a_stream_id (mc_attrs (tx_id a i) a) = a_stream_id (mc_attrs (rx_id b j) b)
      \<longleftrightarrow> int i = mc_ensemble_idx b \<and> int j = mc_ensemble_idx a)
    \<and> 42 \<le> uint (a_stream_id (mc_attrs (tx_id a i) a)) \<and> uint (a_stream_id (mc_attrs (tx_id a i) a)) < 238
    \<and> uint (a_dst (mc_attrs (tx_id a i) a) ! 5) = uint (a_stream_id (mc_attrs (tx_id a i) a))"
proof -
  have t: "42 \<le> tx_id a i" "tx_id a i < 238" and r: "42 \<le> rx_id b j" "rx_id b j < 238"
    using id_bounds(1,2) [OF assms(1,4)] id_bounds(3,4) [OF assms(2,5)] by simp_all
  have "(word_of_int (tx_id a i) :: u64) = word_of_int (rx_id b j) \<longleftrightarrow> tx_id a i = rx_id b j"
    using t r uint_id(1) [of "tx_id a i"] uint_id(1) [of "rx_id b j"] by (auto simp: word_uint_eq_iff)
  also have "\<dots> \<longleftrightarrow> int i + mc_ensemble_idx a * mc_ensemble_size a = mc_ensemble_idx b + int j * mc_ensemble_size a"
    by (simp add: tx_id_def rx_id_def assms(3))
  also have "\<dots> \<longleftrightarrow> int i = mc_ensemble_idx b \<and> int j = mc_ensemble_idx a"
    using base_digits [of "int i" "mc_ensemble_size a" "mc_ensemble_idx b" "mc_ensemble_idx a" "int j"] assms
    by (auto simp: agent_def valid_settings_iff)
  finally show ?thesis using t assms(6) by (simp add: uint_id mc_attrs_def)
qed

text \<open>C39: The agents wait for each other.  An agent that has just started has received ready signals on the listeners \<open>js\<close>, in
  any order and any number of times: none is lost or recorded for another agent, and \<open>all_ready\<close> lets the agent go on exactly if
  a signal has come from every agent of the ensemble.\<close>

theorem all_ready_iff_all_signalled:
  assumes "mc_options opts mc_statics = Some (Inr st)" "agent st" "\<forall>j \<in> set js. j < nat (mc_ensemble_size st)"
  shows "\<exists>st'. ready_signals js st = Some st' \<and> (all_ready st' \<longleftrightarrow> set js = {0..<nat (mc_ensemble_size st)})"
proof -
  have f: "mc_remote_ready st = replicate 14 False" using mc_options_fresh [OF assms(1) mc_statics_fresh] by (simp add: mc_fresh_def)
  obtain rs where rs: "ready_signals js st = Some (st\<lparr>mc_remote_ready := rs\<rparr>)" "\<forall>i < 14. rs ! i \<longleftrightarrow> i \<in> set js"
    using ready_signals_mark [OF assms(2) _ assms(3)] f by auto
  have "nat (mc_ensemble_size st) \<le> 14" using assms(2) by (auto simp: agent_def valid_settings_iff)
  then have "all_ready (st\<lparr>mc_remote_ready := rs\<rparr>) \<longleftrightarrow> set js = {0..<nat (mc_ensemble_size st)}"
    using rs(2) assms(3) by (auto simp: all_ready_def list_all_iff)
  with rs(1) show ?thesis by blast
qed

text \<open>C37: The talkers of an agent.  On a working system, without SRP and on a link of at least 4.736 Mbit/s, with settings that \<open>valid_settings\<close> accepts and
  an agent number that is not negative (which \<open>valid_settings\<close> does not check, see \<open>negative_index_accepted\<close>), \<^verbatim>\<open>main\<close> gets a talker for every agent of the ensemble, in the order of their numbers; each is valid and has the stream id of its pair
  and the period of the settings, they are the Tx list of the handler, and the wait for all talkers ends at once, without sleeping.\<close>

theorem mesh_talkers_created:
  assumes "mc_options opts mc_statics = Some (Inr st)" "agent st"
    and "w_nh w nh = Some n" "nh_srp n = Some s" "\<not> nh_use_srp n" "0 \<le> nh_rx_sock n" "os_good os" "heap_ok w" "tx_chans w nh [] None"
    and "4736000 \<le> uint (nh_link_speed n)" "nh_running n" "\<forall>t. os_clock os t CLOCK_REALTIME \<noteq> None"
  shows "\<exists>chs st' w' tp w''. create_tx_loop os (Some nh) [0..<nat (mc_ensemble_size st)] st w = Some (map Some chs, st', w')
    \<and> length chs = nat (mc_ensemble_size st) \<and> tx_chans w' nh chs tp
    \<and> (\<forall>i < nat (mc_ensemble_size st). chan_valid w' (Some (chs ! i)) = Some True
         \<and> (\<exists>c. w_ch w' (chs ! i) = Some c \<and> ch_sidw c = word_of_int (tx_id st i) \<and> ch_interval_ns c = a_interval_ns (mc_base st)))
    \<and> await_tx_ready os (\<lambda>_. Some) (map Some chs) 0 w' = Some w'' \<and> w_sleep w'' = w_sleep w'"
proof -
  from mesh_created [OF assms(1-10)] obtain chs st' w' n' t where
    c: "create_tx_loop os (Some nh) [0..<nat (mc_ensemble_size st)] st w = Some (map Some chs, st', w')" "tx_chans w' nh chs t"
      "w_nh w' nh = Some n'" "nh_running n' = nh_running n"
      "list_all2 (\<lambda>ch i. mesh_talker os w' nh n' (mc_attrs (tx_id st i) st) ch) chs [0..<nat (mc_ensemble_size st)]"
    by blast
  have len: "length chs = nat (mc_ensemble_size st)" using list_all2_lengthD [OF c(5)] by simp
  have m: "mesh_talker os w' nh n' (mc_attrs (tx_id st i) st) (chs ! i)" if "i < nat (mc_ensemble_size st)" for i
    using list_all2_nthD2 [OF c(5), of i] that by simp
  have v: "chan_valid w' (Some (chs ! i)) = Some True
      \<and> (\<exists>c. w_ch w' (chs ! i) = Some c \<and> ch_sidw c = word_of_int (tx_id st i) \<and> ch_interval_ns c = a_interval_ns (mc_base st))"
    if "i < nat (mc_ensemble_size st)" for i
    using m [OF that] c(3) chan_valid_live [of w' "chs ! i" _ nh n'] by (auto simp: mesh_talker_def live_def new_talker_def)
  have "\<forall>ch \<in> set chs. \<exists>c. w_ch w' ch = Some c \<and> ch_nh c = Some nh \<and> ch_ready c \<and> \<not> ch_stopping c"
    using m len by (fastforce simp: in_set_conv_nth mesh_talker_def new_talker_def)
  from count_ready_all [OF this c(3) _ assms(12)] c(4) assms(11) obtain w'' where
    r: "count_ready os (map Some chs) w' = Some (length chs, w'')" "w_sleep w'' = w_sleep w'" by auto
  then have "await_tx_ready os (\<lambda>_. Some) (map Some chs) 0 w' = Some w''" by (subst await_tx_ready.simps) simp
  with c(1,2) len v r(2) show ?thesis by blast
qed

text \<open>C40: A capture is complete.  With accepted settings and an agent number that is not negative, without SRP and without a log, and when the network takes every frame
  and no signal or other thread stops the agent, the talkers that \<^verbatim>\<open>main\<close> creates serve a capture of any positive number
  of iterations (a negative one, like the default, is the continuous mode; zero captures nothing, see \<open>zero_iterations_capture_nothing\<close>): it ends without an error, and it has sent, for each value from the number of iterations less one down to 0, one frame with that
  value on the stream of every pair of the agent, in the order of the agents.\<close>

theorem mesh_capture_counts_down:
  assumes "mc_options opts mc_statics = Some (Inr st)" "agent st"
    and "w_nh w nh = Some n" "nh_srp n = Some s" "\<not> nh_use_srp n" "0 \<le> nh_rx_sock n" "os_good os" "heap_ok w" "tx_chans w nh [] None"
    and "4736000 \<le> uint (nh_link_speed n)" "no_logs w" "accepts_frames os" "mc_iterations st = int m" "m < 2 ^ 31" "0 < m"
  shows "\<exists>chs st' w' w'' fss. create_tx_loop os (Some nh) [0..<nat (mc_ensemble_size st)] st w = Some (map Some chs, st', w')
    \<and> capture_loop os (\<lambda>_ st. st) (\<lambda>_. Some) (map Some chs) 0 pt 0 (st'\<lparr>mc_running := True\<rparr>) w' = Some (0, st'\<lparr>mc_running := True, mc_iterations := 0\<rparr>, w'')
    \<and> w_net w'' = w_net w' @ concat fss
    \<and> list_all2 (\<lambda>fs v. list_all2 (\<lambda>f i. sample_frame (htobe64 (word_of_int (tx_id st i))) 8 f (le_bytes 8 (of_nat v :: u64)))
         fs [0..<nat (mc_ensemble_size st)]) fss (rev [0..<m])"
proof -
  let ?sid = "\<lambda>i. htobe64 (word_of_int (tx_id st i)) :: u64"
  from mesh_created [OF assms(1-10)] obtain chs st' w' n' t where
    c: "create_tx_loop os (Some nh) [0..<nat (mc_ensemble_size st)] st w = Some (map Some chs, st', w')" "tx_chans w' nh chs t"
      "w_nh w' nh = Some n'" "list_all2 (\<lambda>ch i. mesh_talker os w' nh n' (mc_attrs (tx_id st i) st) ch) chs [0..<nat (mc_ensemble_size st)]"
      "no_logs w'" "mc_iterations st' = mc_iterations st"
    using assms(11) by blast
  have "list_all2 (\<lambda>ch sid. talker os (m + 0) w' ch sid 8) chs (map ?sid [0..<nat (mc_ensemble_size st)])"
    unfolding list_all2_map2 by (rule list_all2_mono [OF c(4)])
      (use mesh_talker_talker [OF _ c(3,5) assms(7,12,2) mc_options_fresh [OF assms(1) mc_statics_fresh] assms(14)] in simp)
  moreover have "distinct chs" using c(2) by (auto simp: tx_chans_def intro: chain_distinct)
  ultimately obtain w'' fss where "capture_loop os (\<lambda>_ st. st) (\<lambda>_. Some) (map Some chs) 0 pt 0 (st'\<lparr>mc_running := True\<rparr>) w' = Some (0, st'\<lparr>mc_running := True, mc_iterations := 0\<rparr>, w'')"
    "w_net w'' = w_net w' @ concat fss"
    "list_all2 (\<lambda>fs v. list_all2 (\<lambda>f sid. sample_frame sid 8 f (le_bytes 8 (of_nat v :: u64))) fs (map ?sid [0..<nat (mc_ensemble_size st)])) fss (rev [0..<m])"
    using capture_loop_rounds [of os m 0 w' chs "map ?sid [0..<nat (mc_ensemble_size st)]" "st'\<lparr>mc_running := True\<rparr>" 0 pt 0] c(5,6) assms(13,14) by auto
  with c(1) show ?thesis unfolding list_all2_map2 by blast
qed

text \<open>A mesh of three agents with the default settings, on the handler of the examples.\<close>

lemma demo_agents: "agent mc_statics" "agent (mc_statics\<lparr>mc_ensemble_idx := 2\<rparr>)"
  by (simp_all add: agent_def valid_settings_iff mc_statics_def HZ_100_def nc_consts)

theorem mesh_ids_pair_agents_witness:
  "a_stream_id (mc_attrs (tx_id mc_statics 2) mc_statics)
     = a_stream_id (mc_attrs (rx_id (mc_statics\<lparr>mc_ensemble_idx := 2\<rparr>) 0) (mc_statics\<lparr>mc_ensemble_idx := 2\<rparr>))"
  using mesh_ids_pair_agents [OF demo_agents _, of 2 0] by (simp add: mc_statics_def)

theorem all_ready_iff_all_signalled_witness:
  "(\<exists>st'. ready_signals [2, 0, 2, 1] mc_statics = Some st' \<and> all_ready st') \<and> (\<exists>st'. ready_signals [2, 0] mc_statics = Some st' \<and> \<not> all_ready st')"
proof -
  have o: "mc_options [] mc_statics = Some (Inr mc_statics)" by simp
  have s: "mc_ensemble_size mc_statics = 3" "nat 3 = 3" by (simp_all add: mc_statics_def)
  have j: "\<forall>j \<in> set [2, 0, 2, 1]. j < nat (mc_ensemble_size mc_statics)" "\<forall>j \<in> set [2, 0]. j < nat (mc_ensemble_size mc_statics)"
    "set [2, 0, 2, 1] = {0..<nat (mc_ensemble_size mc_statics)}" "set [2, 0] \<noteq> {0..<nat (mc_ensemble_size mc_statics)}"
    by (simp_all add: s atLeastLessThan_nat_numeral insert_commute insert_eq_iff)
  show ?thesis
    using all_ready_iff_all_signalled [OF o demo_agents(1) j(1)] all_ready_iff_all_signalled [OF o demo_agents(1) j(2)] j(3,4) by blast
qed

theorem mesh_talkers_created_witness:
  "\<exists>chs st' w'. create_tx_loop demo_os (Some 1) [0..<3] mc_statics idle_world = Some (map Some chs, st', w') \<and> length chs = 3"
proof -
  have "mc_ensemble_size mc_statics = 3" "nh_link_speed idle_nh = 1000000000" "nh_running idle_nh" "\<forall>t. os_clock demo_os t CLOCK_REALTIME \<noteq> None"
    by (simp_all add: mc_statics_def idle_nh_def demo_os_def)
  then show ?thesis
    using mesh_talkers_created [OF _ demo_agents(1) idle_nh_at(1-4) demo_os_good idle_nh_at(5,6), of "[]"] by auto
qed

theorem mesh_capture_counts_down_witness:
  "\<exists>chs st' w' w'' fss. create_tx_loop demo_os (Some 1) [0..<3] (mc_statics\<lparr>mc_iterations := 2\<rparr>) idle_world = Some (map Some chs, st', w')
    \<and> capture_loop demo_os (\<lambda>_ st. st) (\<lambda>_. Some) (map Some chs) 0 None 0 (st'\<lparr>mc_running := True\<rparr>) w'
        = Some (0, st'\<lparr>mc_running := True, mc_iterations := 0\<rparr>, w'')
    \<and> w_net w'' = w_net w' @ concat fss \<and> length fss = 2 \<and> (\<forall>fs \<in> set fss. length fs = 3)"
proof -
  let ?st = "mc_statics\<lparr>mc_iterations := 2\<rparr>"
  have o: "mc_options [(of_char CHR ''i'', Some (dec 2))] mc_statics = Some (Inr ?st)" by (simp add: mc_parser_def atoi_dec)
  have "agent ?st" using demo_agents(1) by (simp add: agent_def valid_settings_iff)
  moreover have "4736000 \<le> uint (nh_link_speed idle_nh)" "no_logs idle_world" "accepts_frames demo_os" "mc_ensemble_size ?st = 3" "mc_iterations ?st = int 2"
    by (simp_all add: idle_nh_def idle_world_def empty_world_def zero_nethandler_def no_logs_def accepts_frames_def demo_os_def mc_statics_def)
  ultimately show ?thesis
    using mesh_capture_counts_down [OF o _ idle_nh_at(1-4) demo_os_good idle_nh_at(5,6), of 2 None] by (fastforce dest: list_all2_lengthD simp: list_all2_conv_all_nth in_set_conv_nth)
qed

text \<open>A mesh with a missing talker hangs.  When one of the talkers could not be created, which \<^verbatim>\<open>main\<close> does not check, the wait for all
  talkers never ends: whatever the other threads do, each round counts one channel less than the ensemble has, and
  the loop looks neither at \<^verbatim>\<open>running\<close> nor at the clock.\<close>

lemma missing_talker_hangs:
  assumes "None \<in> set tx"
  shows "(\<forall>k w w'. count_ready os tx w = Some (k, w') \<longrightarrow> k < length tx)
    \<and> mc_run os sts sts' others others' others'' nh tx st w = None"
  using assms count_ready_less [of os tx] await_tx_ready_missing [of os others tx 0 w]
  by (cases "await_tx_ready os others tx 0 w") (auto simp: mc_run_def)

text \<open>The name of the log file fits its array, with the number of the agent, the extension and the terminating zero.\<close>

lemma log_suffix_fits:
  assumes "mc_options opts mc_statics = Some (Inr st)"
  shows "length (mc_logfile (mc_log_suffix st)) < 129"
proof -
  have "length (mc_logfile st) \<le> 114" using mc_options_fresh [OF assms mc_statics_fresh] by (simp add: mc_fresh_def)
  moreover have "mc_ensemble_idx st mod 2 ^ 16 < 2 ^ 16" "0 \<le> mc_ensemble_idx st mod 2 ^ 16" by simp_all
  then have "nat (mc_ensemble_idx st mod 2 ^ 16) < 10 ^ 5" by simp
  from length_dec_le [OF this] have "length (dec (nat (mc_ensemble_idx st mod 2 ^ 16))) \<le> 5" by simp
  ultimately show ?thesis by (simp add: mc_log_suffix_def)
qed

text \<open>The settings accept a negative number; with -14 of three agents the first talker has stream id 0 and is refused, or worse, with -1 the
  ids are those of other pairs.\<close>

lemma negative_index_accepted:
  "valid_settings (mc_statics\<lparr>mc_ensemble_idx := -14\<rparr>)" "a_stream_id (mc_attrs (tx_id (mc_statics\<lparr>mc_ensemble_idx := -14\<rparr>) 0) mc_statics) = 0"
  "valid_settings (mc_statics\<lparr>mc_ensemble_idx := -1\<rparr>)" "tx_id (mc_statics\<lparr>mc_ensemble_idx := -1\<rparr>) 2 = 41"
  by (simp_all add: valid_settings_iff mc_statics_def HZ_100_def nc_consts mc_attrs_def tx_id_def ID_BASE_OFFSET_def)

text \<open>Without iterations nothing is captured; the option text promises continuous mode for 0.\<close>

lemma zero_iterations_capture_nothing:
  "mc_iterations st = 0 \<Longrightarrow> capture_loop os sts others tx k pt e st w = Some (e, st, w)"
  by (subst capture_loop.simps) simp

text \<open>Class B cannot be chosen: both names set class A.\<close>

lemma class_b_is_class_a:
  "mc_parser (of_char CHR ''C'') (Some ''SC_CLASS_B'') st = mc_parser (of_char CHR ''C'') (Some ''SC_CLASS_A'') st"
  by (simp add: mc_parser_def)

end
