(* ===== verification/Cpp_Wrapper.thy ===== *)
theory Cpp_Wrapper
  imports Nh_Setup Delivery
begin

text \<open>
  The C++ interface (\<^verbatim>\<open>include/netchan.hpp\<close>): the classes \<^verbatim>\<open>NetHandler\<close>, \<^verbatim>\<open>NetChan\<close>, \<^verbatim>\<open>NetChanTx\<close> and
  \<^verbatim>\<open>NetChanRx\<close>.  A member function gets the object it works on; a channel object is its pointer \<^verbatim>\<open>ch\<close>, because the other
  member is never read or written.  A constructor returns \<open>Inl\<close> what it throws or \<open>Inr\<close> the object.
\<close>

section \<open>NetHandler\<close>

record net_handler =
  obj_nh :: "addr option"
  obj_hmap_size :: int
  obj_logfile :: string
  obj_use_srp :: bool
  obj_valid :: bool

type_synonym thrown = string

definition NetHandler :: "os \<Rightarrow> interference \<Rightarrow> string \<Rightarrow> string \<Rightarrow> bool \<Rightarrow> world \<Rightarrow> ((thrown + net_handler) \<times> world) option" where
  "NetHandler os others ifname logfile srp w = do {
     (nh, w) \<leftarrow> nh_create_init os (Some ifname) 127 (if length logfile > 0 then Some logfile else None) w;
     if nh = None then Some (Inl ''Failed creating netchan::NetHandler, invalid NIC?'', w)
     else do {
       w \<leftarrow> nh_set_srp os others nh srp w;
       Some (Inr \<lparr>obj_nh = nh, obj_hmap_size = 127, obj_logfile = logfile, obj_use_srp = srp, obj_valid = nh \<noteq> None\<rparr>, w)
     }
   }"

text \<open>
  The other constructors delegate.  The one with only an interface passes the literal \<^verbatim>\<open>""\<close> as second argument: of the candidates with
  \<^verbatim>\<open>std::string\<close> and with \<^verbatim>\<open>bool\<close>, overload resolution takes the second, because the conversion of a pointer to
  \<^verbatim>\<open>bool\<close> is a standard conversion and that to a string is user-defined.  The pointer is not null.
\<close>

definition NetHandler_bool :: "os \<Rightarrow> interference \<Rightarrow> string \<Rightarrow> bool \<Rightarrow> world \<Rightarrow> ((thrown + net_handler) \<times> world) option" where
  "NetHandler_bool os others ifname use_srp w = NetHandler os others ifname '''' use_srp w"

definition NetHandler_logfile :: "os \<Rightarrow> interference \<Rightarrow> string \<Rightarrow> string \<Rightarrow> world \<Rightarrow> ((thrown + net_handler) \<times> world) option" where
  "NetHandler_logfile os others ifname logfile w = NetHandler os others ifname logfile False w"

definition NetHandler_ifname :: "os \<Rightarrow> interference \<Rightarrow> string \<Rightarrow> world \<Rightarrow> ((thrown + net_handler) \<times> world) option" where
  "NetHandler_ifname os others ifname w = NetHandler_bool os others ifname True w"

definition NetHandler_destructor :: "os \<Rightarrow> net_handler \<Rightarrow> world \<Rightarrow> world option" where
  "NetHandler_destructor os this w = (if obj_nh this \<noteq> None then nh_destroy os (Nh_local (obj_nh this)) w else Some w)"

definition set_tx_prio_sc :: "net_handler \<Rightarrow> int \<Rightarrow> stream_class \<Rightarrow> world \<Rightarrow> (bool \<times> world) option" where
  "set_tx_prio_sc this tx_prio sc w = nh_set_tx_prio (obj_nh this) sc tx_prio w"

definition set_tx_prio :: "net_handler \<Rightarrow> int \<Rightarrow> world \<Rightarrow> (bool \<times> world) option" where
  "set_tx_prio this tx_prio w = nh_set_tx_prio (obj_nh this) SC_CLASS_A tx_prio w"

definition new_tx_channel :: "os \<Rightarrow> net_handler \<Rightarrow> channel_attrs option \<Rightarrow> world \<Rightarrow> (addr option \<times> world) option" where
  "new_tx_channel os this attrs w = (if \<not> obj_valid this then Some (None, w) else chan_create_tx os (obj_nh this) attrs w)"

definition new_rx_channel :: "os \<Rightarrow> net_handler \<Rightarrow> channel_attrs option \<Rightarrow> world \<Rightarrow> (addr option \<times> world) option" where
  "new_rx_channel os this attrs w = (if \<not> obj_valid this then Some (None, w) else chan_create_rx os (obj_nh this) attrs w)"

definition active_tx :: "net_handler \<Rightarrow> world \<Rightarrow> int option" where
  "active_tx this w = nh_get_num_tx w (obj_nh this)"

definition active_rx :: "net_handler \<Rightarrow> world \<Rightarrow> int option" where
  "active_rx this w = nh_get_num_rx w (obj_nh this)"

definition NetHandler_verbose :: "net_handler \<Rightarrow> world \<Rightarrow> world option" where
  "NetHandler_verbose this w = nh_set_verbose (obj_nh this) True w"

definition NetHandler_stop :: "os \<Rightarrow> net_handler \<Rightarrow> world \<Rightarrow> world option" where
  "NetHandler_stop os this w = nh_stop os (obj_nh this) w"

definition stop_log :: "os \<Rightarrow> net_handler \<Rightarrow> world \<Rightarrow> world option" where
  "stop_log os this w = do {
     nh \<leftarrow> obj_nh this;
     n \<leftarrow> w_nh w nh;
     if nh_logger n \<noteq> None
     then do {
       w \<leftarrow> with_logger (log_flush_and_rotate (os_fopen os)) nh w;
       w \<leftarrow> upd_nh nh (\<lambda>n. n\<lparr>nh_logger := log_destroy (nh_logger n)\<rparr>) w;
       upd_nh nh (\<lambda>n. n\<lparr>nh_logger := None\<rparr>) w
     }
     else Some w
   }"

section \<open>NetChan\<close>

definition NetChan_stop :: "os \<Rightarrow> addr option \<Rightarrow> world \<Rightarrow> (bool \<times> world) option" where
  "NetChan_stop os ch w = chan_stop os ch w"

definition NetChan_ready :: "addr option \<Rightarrow> world \<Rightarrow> bool option" where
  "NetChan_ready ch w = chan_ready w ch"

definition ready_wait_once :: "os \<Rightarrow> addr option \<Rightarrow> world \<Rightarrow> (bool \<times> world) option" where
  "ready_wait_once os ch w = do { (r, w) \<leftarrow> chan_ready_timedwait os ch 100000000 w; Some (r = 0, w) }"

text \<open>
  The loop of \<^verbatim>\<open>ready_wait\<close>; \<open>others k\<close> is what the other threads do while round \<open>k\<close> waits.  Each round
  reads \<^verbatim>\<open>ch->nh->verbose\<close>.
\<close>

partial_function (option) ready_wait_loop :: "os \<Rightarrow> interference \<Rightarrow> addr option \<Rightarrow> nat \<Rightarrow> world \<Rightarrow> world option" where
  "ready_wait_loop os others ch k w = do {
     c \<leftarrow> get_ch w ch;
     n \<leftarrow> get_nh w (ch_nh c);
     (ok, w) \<leftarrow> ready_wait_once os ch w;
     w \<leftarrow> others k w;
     c \<leftarrow> get_ch w ch;
     if \<not> ok \<and> \<not> ch_stopping c then ready_wait_loop os others ch (Suc k) w else Some w
   }"

definition ready_wait :: "os \<Rightarrow> interference \<Rightarrow> addr option \<Rightarrow> world \<Rightarrow> world option" where
  "ready_wait os others ch w = ready_wait_loop os others ch 0 w"

section \<open>NetChanTx and NetChanRx\<close>

definition NetChanTx :: "os \<Rightarrow> net_handler \<Rightarrow> channel_attrs option \<Rightarrow> world \<Rightarrow> (addr option \<times> world) option" where
  "NetChanTx os nh attrs w = new_tx_channel os nh attrs w"

definition NetChanTx_send :: "os \<Rightarrow> addr option \<Rightarrow> bytes option \<Rightarrow> world \<Rightarrow> (bool \<times> world) option" where
  "NetChanTx_send os ch data w = do {
     ready \<leftarrow> chan_ready w ch;
     if ch = None \<or> \<not> ready then Some (False, w)
     else do {
       c \<leftarrow> get_ch w ch;
       w \<leftarrow> (if ch_sc c = SC_TAS then map_option snd (wait_for_tx_slot os ch w) else Some w);
       (r, w) \<leftarrow> chan_send_now os ch data w;
       c \<leftarrow> get_ch w ch;
       Some (r = uint (ch_payload_size c), w)
     }
   }"

definition NetChanTx_send_wait :: "os \<Rightarrow> addr option \<Rightarrow> bytes option \<Rightarrow> world \<Rightarrow> (bool outcome \<times> world) option" where
  "NetChanTx_send_wait os ch data w =
     (if ch = None then Some (Returned False, w)
      else do {
        (r, w) \<leftarrow> chan_send_now_wait os ch data w;
        (case r of
           Segfault \<Rightarrow> Some (Segfault, w)
         | Returned r \<Rightarrow> do { c \<leftarrow> get_ch w ch; Some (Returned (r = uint (ch_payload_size c)), w) })
      })"

definition NetChanRx :: "os \<Rightarrow> net_handler \<Rightarrow> channel_attrs option \<Rightarrow> world \<Rightarrow> (addr option \<times> world) option" where
  "NetChanRx os nh attrs w = new_rx_channel os nh attrs w"

definition NetChanRx_read ::
  "os \<Rightarrow> (world \<Rightarrow> world option) \<Rightarrow> addr option \<Rightarrow> bytes option \<Rightarrow> world \<Rightarrow> ((bool \<times> bytes option) \<times> world) option" where
  "NetChanRx_read os others ch data w =
     (if ch = None then Some ((False, data), w)
      else do { ((r, data), w) \<leftarrow> chan_read os others ch data w; Some ((r > 0, data), w) })"

definition NetChanRx_read_wait ::
  "os \<Rightarrow> (world \<Rightarrow> world option) \<Rightarrow> addr option \<Rightarrow> bytes option \<Rightarrow> world \<Rightarrow> ((bool \<times> bytes option) \<times> world) option" where
  "NetChanRx_read_wait os others ch data w =
     (if ch = None then Some ((False, data), w)
      else do { ((r, data), w) \<leftarrow> chan_read_wait os others ch data w; Some ((r > 0, data), w) })"

section \<open>Facts\<close>

text \<open>One round of waiting, when the wait on the condition variable always times out, which is what happens unless there is a spurious wakeup:
  nothing signals the variable.  A round on a running handler waits once.\<close>

definition no_wakeup :: "os \<Rightarrow> bool" where
  "no_wakeup os \<longleftrightarrow> (\<forall>t. os_cond_timedwait os t \<noteq> 0 \<and> os_clock os t CLOCK_REALTIME \<noteq> None)"

lemma ready_wait_once_result:
  assumes "live w ch c nh n" "no_wakeup os"
  shows "\<exists>sl t. ready_wait_once os (Some ch) w
    = Some (nh_running n \<and> \<not> ch_stopping c \<and> ch_ready c, w\<lparr>w_sleep := sl, w_tick := t\<rparr>)
    \<and> length sl = length (w_sleep w) + (if nh_running n \<and> \<not> ch_stopping c \<and> \<not> ch_ready c then 1 else 0)"
proof -
  obtain ts where "os_clock os (w_tick w) CLOCK_REALTIME = Some ts" using assms(2) by (auto simp: no_wakeup_def)
  then show ?thesis using assms
    by (cases w) (auto simp: ready_wait_once_def chan_ready_timedwait_def live_def read_clock_def no_wakeup_def Let_def EINVAL_def tick_def)
qed

lemma ready_wait_once_idle:
  assumes "live w ch c nh n" "\<not> nh_running n"
  shows "ready_wait_once os (Some ch) w = Some (False, w)"
  using assms by (simp add: ready_wait_once_def chan_ready_timedwait_def live_def EINVAL_def)

text \<open>A spurious wakeup counts as success.\<close>

lemma ready_wait_once_spurious:
  assumes "live w ch c nh n" "nh_running n" "\<not> ch_stopping c" "\<not> ch_ready c" "os_cond_timedwait os (Suc (w_tick w)) = 0"
    "os_clock os (w_tick w) CLOCK_REALTIME \<noteq> None"
  shows "\<exists>sl t. ready_wait_once os (Some ch) w = Some (True, w\<lparr>w_sleep := sl, w_tick := t\<rparr>)"
  using assms by (cases w) (auto simp: ready_wait_once_def chan_ready_timedwait_def live_def read_clock_def Let_def tick_def)

text \<open>The loop does not end in states from which each round leads back to such a state.\<close>

definition kept_waiting :: "(world \<Rightarrow> bool) \<Rightarrow> os \<Rightarrow> interference \<Rightarrow> addr option \<Rightarrow> bool" where
  "kept_waiting I os others ch \<longleftrightarrow> (\<forall>j u b u1 u2. I u \<and> ready_wait_once os ch u = Some (b, u1) \<and> others j u1 = Some u2
     \<longrightarrow> \<not> b \<and> I u2 \<and> (\<forall>c. get_ch u2 ch = Some c \<longrightarrow> \<not> ch_stopping c))"

lemma ready_wait_loop_never:
  "ready_wait_loop os others ch k w = Some w' \<Longrightarrow> kept_waiting I os others ch \<longrightarrow> \<not> I w"
proof (rule ready_wait_loop.raw_induct [where P = "\<lambda>os others ch k w w'. kept_waiting I os others ch \<longrightarrow> \<not> I w"], goal_cases)
  case (1 rec os others ch k w w')
  then obtain ok w1 w2 c2 where r: "ready_wait_once os ch w = Some (ok, w1)" "others k w1 = Some w2" "get_ch w2 ch = Some c2"
    "(if \<not> ok \<and> \<not> ch_stopping c2 then rec os others ch (Suc k) w2 else Some w2) = Some w'"
    by (auto simp: bind_Some_iff)
  show ?case
  proof (intro impI notI)
    assume a: "kept_waiting I os others ch" "I w"
    then have "\<not> ok" "I w2" "\<not> ch_stopping c2" using r(1-3) unfolding kept_waiting_def by blast+
    with r(4) have "rec os others ch (Suc k) w2 = Some w'" by simp
    from 1(2) [OF this] a(1) \<open>I w2\<close> show False by blast
  qed
qed

text \<open>Other threads that act once, while round \<open>k\<close> waits.\<close>

definition at_round :: "nat \<Rightarrow> (world \<Rightarrow> world option) \<Rightarrow> interference" where
  "at_round k f = (\<lambda>j u. if j = k then f u else Some u)"

lemma ready_wait_round:
  assumes "live w ch c nh n" "no_wakeup os" "\<not> (nh_running n \<and> \<not> ch_stopping c \<and> ch_ready c)" "\<not> ch_stopping c" "others k = Some"
  shows "\<exists>sl t. ready_wait_loop os others (Some ch) k w = ready_wait_loop os others (Some ch) (Suc k) (w\<lparr>w_sleep := sl, w_tick := t\<rparr>)
    \<and> length sl = length (w_sleep w) + (if nh_running n then 1 else 0)"
proof -
  obtain sl t where "ready_wait_once os (Some ch) w = Some (False, w\<lparr>w_sleep := sl, w_tick := t\<rparr>)"
    "length sl = length (w_sleep w) + (if nh_running n then 1 else 0)"
    using ready_wait_once_result [OF assms(1,2)] assms(3,4) by auto
  then show ?thesis using assms(1,4,5)
    by (intro exI [of _ sl] exI [of _ t], subst ready_wait_loop.simps) (simp add: live_def)
qed

lemma ready_wait_skip:
  assumes "live w ch c nh n" "no_wakeup os" "\<not> ch_ready c" "\<not> ch_stopping c" "\<And>j. j < k \<Longrightarrow> others (i + j) = Some"
  shows "\<exists>sl t. ready_wait_loop os others (Some ch) i w = ready_wait_loop os others (Some ch) (i + k) (w\<lparr>w_sleep := sl, w_tick := t\<rparr>)
    \<and> length sl = length (w_sleep w) + (if nh_running n then k else 0)"
  using assms(1,5)
proof (induction k arbitrary: i w)
  case 0
  have "w\<lparr>w_sleep := w_sleep w, w_tick := w_tick w\<rparr> = w" by simp
  then show ?case by (intro exI [of _ "w_sleep w"] exI [of _ "w_tick w"]) simp
next
  case (Suc k)
  obtain sl t where r: "ready_wait_loop os others (Some ch) i w = ready_wait_loop os others (Some ch) (Suc i) (w\<lparr>w_sleep := sl, w_tick := t\<rparr>)"
    "length sl = length (w_sleep w) + (if nh_running n then 1 else 0)"
    using ready_wait_round [OF Suc.prems(1) assms(2) _ assms(4), of others i] assms(3) Suc.prems(2) [of 0] by auto
  have "live (w\<lparr>w_sleep := sl, w_tick := t\<rparr>) ch c nh n" using Suc.prems(1) by (simp add: live_def)
  from Suc.IH [OF this, of "Suc i"] Suc.prems(2) [of "Suc _"] obtain sl' t' where
    "ready_wait_loop os others (Some ch) (Suc i) (w\<lparr>w_sleep := sl, w_tick := t\<rparr>) = ready_wait_loop os others (Some ch) (Suc i + k) (w\<lparr>w_sleep := sl', w_tick := t'\<rparr>)"
    "length sl' = length sl + (if nh_running n then k else 0)" by auto
  with r show ?case by (intro exI [of _ sl'] exI [of _ t']) simp
qed

text \<open>A report of a listener makes the talker of the stream ready.\<close>

lemma listener_makes_ready:
  assumes "live w ch c nh n" "tx_chans w nh xs tp" "find (\<lambda>x. map_option ch_sidw (w_ch w x) = Some (ch_sidw c)) xs = Some ch"
    and "w_ch u = w_ch w" "w_nh u = w_nh w"
  shows "nh_notify_talker_Lnew (Some nh) (ch_sidw c) u = Some (True, set_ch ch (c\<lparr>ch_ready := True\<rparr>) u)"
proof -
  have l: "w_ch w ch = Some c" "w_nh w nh = Some n" using assms(1) by (simp_all add: live_def)
  have "chain (w_ch u) (nh_tx_head n) xs" using assms(2,4) l(2) by (simp add: tx_chans_def)
  then have "get_tx_chan_from_sid u (Some nh) (ch_sidw c) = Some (Some ch)"
    using find_sid_loop_chain [of u _ xs "ch_sidw c"] assms(3-5) l(2) by (cases xs) (auto simp: get_tx_chan_from_sid_def)
  then show ?thesis using l(1) assms(4) by (simp add: nh_notify_talker_Lnew_def)
qed

text \<open>The round in which the other threads act.\<close>

lemma ready_wait_at_round:
  assumes "live w ch c nh n" "no_wakeup os" "\<not> ch_ready c" "\<not> ch_stopping c"
  shows "\<exists>sl t. ready_wait os (at_round k f) (Some ch) w = do {
      u \<leftarrow> f (w\<lparr>w_sleep := sl, w_tick := t\<rparr>);
      c \<leftarrow> get_ch u (Some ch);
      if \<not> ch_stopping c then ready_wait_loop os (at_round k f) (Some ch) (Suc k) u else Some u }
    \<and> length sl = length (w_sleep w) + (if nh_running n then Suc k else 0)"
proof -
  have "at_round k f (0 + j) = Some" if "j < k" for j using that by (auto simp: at_round_def)
  then obtain sl t where
    s: "ready_wait os (at_round k f) (Some ch) w = ready_wait_loop os (at_round k f) (Some ch) k (w\<lparr>w_sleep := sl, w_tick := t\<rparr>)"
      and len: "length sl = length (w_sleep w) + (if nh_running n then k else 0)"
    using ready_wait_skip [OF assms, of k "at_round k f" 0] by (auto simp: ready_wait_def)
  have l: "live (w\<lparr>w_sleep := sl, w_tick := t\<rparr>) ch c nh n" using assms(1) by (simp add: live_def)
  obtain sl' t' where "ready_wait_once os (Some ch) (w\<lparr>w_sleep := sl, w_tick := t\<rparr>) = Some (False, w\<lparr>w_sleep := sl', w_tick := t'\<rparr>)"
      "length sl' = length sl + (if nh_running n then 1 else 0)"
    using ready_wait_once_result [OF l assms(2)] assms(3,4) by auto
  moreover from this have "ready_wait os (at_round k f) (Some ch) w = do {
      u \<leftarrow> f (w\<lparr>w_sleep := sl', w_tick := t'\<rparr>);
      c \<leftarrow> get_ch u (Some ch);
      if \<not> ch_stopping c then ready_wait_loop os (at_round k f) (Some ch) (Suc k) u else Some u }"
    unfolding s using l by (subst ready_wait_loop.simps) (simp add: live_def at_round_def)
  ultimately show ?thesis using len by (intro exI [of _ sl'] exI [of _ t']) simp
qed

lemma ready_wait_loop_ends:
  assumes "live w ch c nh n" "no_wakeup os" "nh_running n" "\<not> ch_stopping c" "ch_ready c" "others k = Some"
  shows "\<exists>sl t. ready_wait_loop os others (Some ch) k w = Some (w\<lparr>w_sleep := sl, w_tick := t\<rparr>) \<and> length sl = length (w_sleep w)"
proof -
  obtain sl t where "ready_wait_once os (Some ch) w = Some (True, w\<lparr>w_sleep := sl, w_tick := t\<rparr>)" "length sl = length (w_sleep w)"
    using ready_wait_once_result [OF assms(1,2)] assms(3-5) by auto
  then show ?thesis using assms(1,6)
    by (intro exI [of _ sl] exI [of _ t], subst ready_wait_loop.simps) (simp add: live_def)
qed

lemma ready_wait_not_running:
  assumes "live w ch c nh n" "\<not> nh_running n" "\<not> ch_stopping c"
    and "\<And>u u' c. f u = Some u' \<Longrightarrow> w_ch u ch = Some c \<Longrightarrow> w_nh u' = w_nh u \<and> w_ch u' ch \<in> {Some c, Some (c\<lparr>ch_ready := True\<rparr>)}"
  shows "ready_wait os (at_round k f) (Some ch) w = None"
proof -
  let ?I = "\<lambda>u. \<exists>c n. live u ch c nh n \<and> \<not> nh_running n \<and> \<not> ch_stopping c"
  have "kept_waiting ?I os (at_round k f) (Some ch)" unfolding kept_waiting_def
  proof (intro allI impI, elim conjE exE)
    fix j u b u1 u2 c n
    assume a: "ready_wait_once os (Some ch) u = Some (b, u1)" "at_round k f j u1 = Some u2" "live u ch c nh n" "\<not> nh_running n" "\<not> ch_stopping c"
    have u1: "\<not> b" "u1 = u" using ready_wait_once_idle [OF a(3,4)] a(1) by auto
    then have "w_nh u2 = w_nh u \<and> w_ch u2 ch \<in> {Some c, Some (c\<lparr>ch_ready := True\<rparr>)}"
      using a(2,3) assms(4) [of u1 u2 c] by (auto simp: at_round_def live_def split: if_splits)
    with a(3-5) have "live u2 ch c nh n \<or> live u2 ch (c\<lparr>ch_ready := True\<rparr>) nh n" by (auto simp: live_def)
    with a(4,5) u1(1) show "\<not> b \<and> ?I u2 \<and> (\<forall>c. get_ch u2 (Some ch) = Some c \<longrightarrow> \<not> ch_stopping c)"
      by (auto simp: live_def)
  qed
  moreover have "?I w" using assms(1-3) by blast
  ultimately show ?thesis
    using ready_wait_loop_never [of os "at_round k f" "Some ch" 0 w _ ?I] unfolding ready_wait_def
    by (cases "ready_wait_loop os (at_round k f) (Some ch) 0 w") blast+
qed

section \<open>Properties\<close>

text \<open>What the SRP monitor does with a listener of a stream, and a thread that stops a channel.\<close>

definition report_listener :: "addr \<Rightarrow> u64 \<Rightarrow> world \<Rightarrow> world option" where
  "report_listener nh sid u = map_option snd (nh_notify_talker_Lnew (Some nh) sid u)"

definition stop_channel :: "os \<Rightarrow> addr \<Rightarrow> world \<Rightarrow> world option" where
  "stop_channel os ch u = map_option snd (chan_stop os (Some ch) u)"

text \<open>The example world with its talker still waiting.\<close>

definition waiting_world :: world where
  "waiting_world = demo_world\<lparr>w_ch := (w_ch demo_world)(2 \<mapsto> demo_tx\<lparr>ch_ready := False\<rparr>)\<rparr>"

lemma ready_wait_reported:
  assumes "live w ch c nh n" "\<not> ch_ready c" "\<not> ch_stopping c" "no_wakeup os" "nh_running n"
    and "tx_chans w nh xs tp" "find (\<lambda>x. map_option ch_sidw (w_ch w x) = Some (ch_sidw c)) xs = Some ch"
  shows "\<exists>w' c'. ready_wait os (at_round k (report_listener nh (ch_sidw c))) (Some ch) w = Some w' \<and> w_ch w' ch = Some c' \<and> ch_ready c'
    \<and> length (w_sleep w') = length (w_sleep w) + Suc k"
proof -
  let ?f = "report_listener nh (ch_sidw c)" and ?c = "c\<lparr>ch_ready := True\<rparr>"
  obtain sl t where r: "ready_wait os (at_round k ?f) (Some ch) w = do {
      u \<leftarrow> ?f (w\<lparr>w_sleep := sl, w_tick := t\<rparr>);
      c' \<leftarrow> get_ch u (Some ch);
      if \<not> ch_stopping c' then ready_wait_loop os (at_round k ?f) (Some ch) (Suc k) u else Some u }"
    "length sl = length (w_sleep w) + Suc k"
    using ready_wait_at_round [OF assms(1,4,2,3), of k ?f] assms(5) by auto
  let ?u = "set_ch ch ?c (w\<lparr>w_sleep := sl, w_tick := t\<rparr>)"
  have "?f (w\<lparr>w_sleep := sl, w_tick := t\<rparr>) = Some ?u"
    using listener_makes_ready [OF assms(1,6,7), of "w\<lparr>w_sleep := sl, w_tick := t\<rparr>"] by (simp add: report_listener_def)
  moreover have "live ?u ch ?c nh n" using assms(1) by (simp add: live_def)
  from ready_wait_loop_ends [OF this assms(4,5), of "at_round k ?f" "Suc k"] assms(3) obtain sl' t' where
    "ready_wait_loop os (at_round k ?f) (Some ch) (Suc k) ?u = Some (?u\<lparr>w_sleep := sl', w_tick := t'\<rparr>)"
    "length sl' = length sl" by (auto simp: at_round_def)
  ultimately show ?thesis using r assms(3) by simp
qed

lemma ready_wait_stopped:
  assumes "live w ch c nh n" "\<not> ch_ready c" "\<not> ch_stopping c" "no_wakeup os" "can_write os w (ch_fd_w c) (unat (ch_payload_size c))"
  shows "\<exists>w' c'. ready_wait os (at_round k (stop_channel os ch)) (Some ch) w = Some w' \<and> w_ch w' ch = Some c' \<and> ch_stopping c'
    \<and> length (w_sleep w') = length (w_sleep w) + (if nh_running n then Suc k else 0)"
proof -
  obtain sl t where r: "ready_wait os (at_round k (stop_channel os ch)) (Some ch) w = do {
      u \<leftarrow> stop_channel os ch (w\<lparr>w_sleep := sl, w_tick := t\<rparr>);
      c' \<leftarrow> get_ch u (Some ch);
      if \<not> ch_stopping c' then ready_wait_loop os (at_round k (stop_channel os ch)) (Some ch) (Suc k) u else Some u }"
    "length sl = length (w_sleep w) + (if nh_running n then Suc k else 0)"
    using ready_wait_at_round [OF assms(1,4,2,3), of k "stop_channel os ch"] by blast
  let ?u = "w\<lparr>w_sleep := sl, w_tick := t\<rparr>"
  have "live ?u ch c nh n" "can_write os ?u (ch_fd_w c) (unat (ch_payload_size c))" using assms(1,5) by (simp_all add: live_def can_write_def)
  from chan_stop_first [OF this(1) assms(3) this(2)] obtain u1 q u' where u': "only_mrp (set_ch ch (stopped c) ?u) u1"
    "(if os_malloc os (w_tick u1) then os_write (os_room os) (ch_fd_w c) (replicate (unat (ch_payload_size c)) 0) (tick u1)
      else Some (-1, tick u1)) = Some (q, u')"
    "chan_stop os (Some ch) ?u = Some (True, u')" "w_ch u' = (w_ch w)(ch \<mapsto> stopped c)" by auto
  have "w_sleep u' = sl" using u'(1,2) only_mrp_fields(9) os_write_heaps(10) by (fastforce split: if_splits)
  with u'(3,4) show ?thesis using r by (simp add: stop_channel_def stopped_def)
qed

lemma ready_wait_alone:
  assumes "live w ch c nh n" "\<not> ch_ready c" "\<not> ch_stopping c" "no_wakeup os"
  shows "ready_wait os (at_round k Some) (Some ch) w = None"
proof -
  let ?I = "\<lambda>u. live u ch c nh n"
  have "kept_waiting ?I os (at_round k Some) (Some ch)" unfolding kept_waiting_def
    using ready_wait_once_result [OF _ assms(4), of _ ch c nh n] assms(2,3) by (fastforce simp: at_round_def live_def)
  then show ?thesis
    using ready_wait_loop_never [of os "at_round k Some" "Some ch" 0 w _ ?I] assms(1) unfolding ready_wait_def
    by (cases "ready_wait_loop os (at_round k Some) (Some ch) 0 w") blast+
qed

lemma report_listener_effect:
  assumes "report_listener nh sid u = Some u'" "w_ch u ch = Some c"
  shows "w_nh u' = w_nh u \<and> w_ch u' ch \<in> {Some c, Some (c\<lparr>ch_ready := True\<rparr>)}"
  using assms by (auto simp: report_listener_def nh_notify_talker_Lnew_def bind_Some_iff upd_ch_def split: option.splits)

text \<open>C30: Waiting until a talker can send.  \<open>ready_wait\<close> on a talker that waits for a listener.  When the wait on the condition variable always
  times out, as it does without spurious wakeups since nothing signals it: on a running handler, when the SRP monitor processes the report of a listener while
  round \<open>k\<close> waits, \<open>ready_wait\<close> returns with the channel ready after exactly these \<open>k + 1\<close> waits have timed out, not at the report; when another thread
  stops the channel instead, it returns with the channel stopping after the same waits, and on a handler that does not run after round \<open>k\<close> without having waited;
  when nothing happens it never returns.  On a handler that does not run, a report of a listener does not end it either.  And after a spurious wakeup in the first round
  it returns at once with the channel unchanged, that is, not ready.\<close>

theorem ready_wait_outcome:
  assumes "live w ch c nh n" "\<not> ch_ready c" "\<not> ch_stopping c"
    and "tx_chans w nh xs tp" "find (\<lambda>x. map_option ch_sidw (w_ch w x) = Some (ch_sidw c)) xs = Some ch"
    and "can_write os w (ch_fd_w c) (unat (ch_payload_size c))"
  shows "(no_wakeup os \<longrightarrow>
      (nh_running n \<longrightarrow> (\<exists>w' c'. ready_wait os (at_round k (report_listener nh (ch_sidw c))) (Some ch) w = Some w' \<and> w_ch w' ch = Some c' \<and> ch_ready c'
         \<and> length (w_sleep w') = length (w_sleep w) + Suc k))
      \<and> (\<exists>w' c'. ready_wait os (at_round k (stop_channel os ch)) (Some ch) w = Some w' \<and> w_ch w' ch = Some c' \<and> ch_stopping c'
         \<and> length (w_sleep w') = length (w_sleep w) + (if nh_running n then Suc k else 0))
      \<and> ready_wait os (at_round k Some) (Some ch) w = None)
    \<and> (\<not> nh_running n \<longrightarrow> ready_wait os (at_round k (report_listener nh (ch_sidw c))) (Some ch) w = None)
    \<and> (nh_running n \<longrightarrow> os_clock os (w_tick w) CLOCK_REALTIME \<noteq> None \<longrightarrow> os_cond_timedwait os (Suc (w_tick w)) = 0 \<longrightarrow>
        (\<exists>w'. ready_wait os (\<lambda>_. Some) (Some ch) w = Some w' \<and> w_ch w' = w_ch w))"
proof (intro conjI impI)
  show "ready_wait os (at_round k (report_listener nh (ch_sidw c))) (Some ch) w = None" if "\<not> nh_running n"
    by (rule ready_wait_not_running [OF assms(1) that assms(3)]) (rule report_listener_effect)
  assume s: "nh_running n" "os_clock os (w_tick w) CLOCK_REALTIME \<noteq> None" "os_cond_timedwait os (Suc (w_tick w)) = 0"
  obtain sl t where "ready_wait_once os (Some ch) w = Some (True, w\<lparr>w_sleep := sl, w_tick := t\<rparr>)"
    using ready_wait_once_spurious [OF assms(1) s(1) assms(3,2) s(3,2)] by blast
  then have "ready_wait os (\<lambda>_. Some) (Some ch) w = Some (w\<lparr>w_sleep := sl, w_tick := t\<rparr>)"
    unfolding ready_wait_def using assms(1) by (subst ready_wait_loop.simps) (simp add: live_def)
  then show "\<exists>w'. ready_wait os (\<lambda>_. Some) (Some ch) w = Some w' \<and> w_ch w' = w_ch w" by simp
qed (use ready_wait_reported [OF assms(1-3) _ _ assms(4,5)] ready_wait_stopped [OF assms(1-3) _ assms(6)] ready_wait_alone [OF assms(1-3)] in blast)+

theorem ready_wait_outcome_witness:
  "(\<exists>w'. ready_wait demo_os (at_round 5 (stop_channel demo_os 2)) (Some 2) waiting_world = Some w')
    \<and> (\<exists>w' c'. ready_wait demo_os (at_round 5 (report_listener 1 42)) (Some 2) waiting_world = Some w' \<and> w_ch w' 2 = Some c' \<and> ch_ready c'
        \<and> length (w_sleep w') = 6)"
proof -
  have l: "live waiting_world 2 (demo_tx\<lparr>ch_ready := False\<rparr>) 1 demo_nh" using demo_live(1) by (simp add: live_def waiting_world_def)
  have "ch_sidw demo_tx = 42" "nh_running demo_nh" "w_sleep waiting_world = []"
    by (simp_all add: demo_tx_def demo_nh_def waiting_world_def demo_world_def empty_world_def)
  moreover have "no_wakeup demo_os" by (simp add: no_wakeup_def demo_os_def ETIMEDOUT_def)
  moreover have "tx_chans waiting_world 1 [2] (Some 2)" using demo_handler(2)
    by (simp add: tx_chans_def waiting_world_def demo_world_def demo_nh_def zero_nethandler_def)
  moreover have "can_write demo_os waiting_world (ch_fd_w demo_tx) (unat (ch_payload_size demo_tx))" using demo_can_write
    by (simp add: can_write_def waiting_world_def)
  ultimately show ?thesis
    using ready_wait_outcome [OF l, of "[2]" "Some 2" demo_os 5] by (auto simp: demo_fields waiting_world_def)
qed

text \<open>Sending waits for the slot of a time-aware talker, which changes nothing but the clock.\<close>

lemma wait_for_tx_slot_only_waits:
  assumes "live w ch c nh n" "valid_state c n" "clock_ok os"
  shows "\<exists>r sl t. wait_for_tx_slot os (Some ch) w = Some (r, w\<lparr>w_sleep := sl, w_tick := t\<rparr>)"
proof -
  obtain ts where "os_clock os (w_tick w) CLOCK_TAI = Some ts" using assms(3) by (auto simp: clock_ok_def)
  then show ?thesis using assms(1) chan_valid_live [OF assms(1)] assms(2)
    by (cases w) (auto simp: wait_for_tx_slot_def live_def read_tai_def read_clock_def ts_normalize_def ts_subtract_ns_def os_sleep_until_def
        tick_def Let_def)
qed

lemma talker_waits: "talker os k (w\<lparr>w_sleep := sl, w_tick := t\<rparr>) ch sid sz = talker os k w ch sid sz"
  by (simp add: talker_def live_def)

lemma NetChanTx_send_next:
  assumes "talker os (Suc k) w ch sid sz" "sz \<le> length d"
  shows "\<exists>w' f. NetChanTx_send os (Some ch) (Some d) w = Some (True, w') \<and> w_net w' = w_net w @ [f]
    \<and> sample_frame sid sz f d \<and> talker os k w' ch sid sz"
proof -
  obtain c nh n where c: "live w ch c nh n" "valid_state c n" "sendable os (Suc k) c n" using assms(1) by (auto simp: talker_def)
  obtain r sl t where wait: "wait_for_tx_slot os (Some ch) w = Some (r, w\<lparr>w_sleep := sl, w_tick := t\<rparr>)"
    using wait_for_tx_slot_only_waits [OF c(1,2), of os] c(3) unfolding sendable_def by blast
  obtain u where u: "(if ch_sc c = SC_TAS then map_option snd (wait_for_tx_slot os (Some ch) w) else Some w) = Some u"
    "talker os (Suc k) u ch sid sz" "w_net u = w_net w"
    using wait assms(1) by (cases "ch_sc c = SC_TAS") (auto simp: talker_waits)
  from chan_send_now_next [OF u(2) assms(2)] obtain w' f where s: "chan_send_now os (Some ch) (Some d) u = Some (int sz, w')"
    "w_net w' = w_net u @ [f]" "sample_frame sid sz f d" "talker os k w' ch sid sz" by blast
  from s(4) obtain c' where "w_ch w' ch = Some c'" "unat (ch_payload_size c') = sz" by (auto simp: talker_def live_def)
  then have "uint (ch_payload_size c') = int sz" by auto
  moreover have "ch_ready c" using c(2) by (simp add: valid_state_def)
  ultimately have "NetChanTx_send os (Some ch) (Some d) w = Some (True, w')"
    using c(1) u(1) s(1) \<open>w_ch w' ch = Some c'\<close> by (simp add: NetChanTx_send_def chan_ready_def live_def)
  with s(2-4) u(3) show ?thesis by auto
qed

text \<open>The handler of a new object, before SRP is set.\<close>

lemma NetHandler_new:
  assumes "NetHandler os others ifname lf srp w = Some (Inr obj, w')"
  shows "\<exists>nh n w1. obj_nh obj = Some nh \<and> nh_set_srp os others (Some nh) srp w1 = Some w' \<and> w_nh w1 nh = Some n
    \<and> \<not> nh_use_srp n \<and> nh_srp n \<noteq> None \<and> nh_running n"
proof -
  obtain r w1 where r: "nh_create_init os (Some ifname) 127 (if length lf > 0 then Some lf else None) w = Some (r, w1)"
    "created_handler os (Some ifname) (if length lf > 0 then Some lf else None) w 127 r w1"
    using nh_create_init_ok [of os "Some ifname" 127 "if length lf > 0 then Some lf else None" w] by (elim exE conjE) (rule that)
  with assms have s: "r = Some (w_fresh w)" "obj_nh obj = r" "nh_set_srp os others r srp w1 = Some w'"
    by (auto simp: NetHandler_def bind_Some_iff created_handler_def split: if_splits option.splits)
  from r(2) s(1) obtain n where "setup_inv w 127 (w_fresh w) w1 n" "nh_running n" "nh_srp n \<noteq> None" by (auto simp: created_handler_def)
  then show ?thesis using s by (intro exI [of _ "w_fresh w"] exI [of _ n] exI [of _ w1]) (auto simp: setup_inv_def)
qed

text \<open>The constructor that takes only an interface name turns on SRP, unlike the one that takes a log file as well.  Whenever the former
  returns an object, its handler uses SRP, or the set-up of SRP has failed and left a handler that does not run and has no
  container; the handler of the latter runs and does not use SRP.\<close>

lemma default_constructor_enables_srp:
  "(\<forall>obj w'. NetHandler_ifname os others ifname w = Some (Inr obj, w') \<longrightarrow>
      (\<exists>nh n. obj_nh obj = Some nh \<and> w_nh w' nh = Some n \<and> (nh_use_srp n \<or> nh_srp n = None \<and> \<not> nh_running n)))
   \<and> (\<forall>obj w'. NetHandler_logfile os others ifname logfile w = Some (Inr obj, w') \<longrightarrow>
      (\<exists>nh n. obj_nh obj = Some nh \<and> w_nh w' nh = Some n \<and> \<not> nh_use_srp n \<and> nh_running n))"
proof -
  show ?thesis
  proof (intro conjI allI impI)
    fix obj w'
    assume "NetHandler_ifname os others ifname w = Some (Inr obj, w')"
    then obtain nh n w1 where c: "obj_nh obj = Some nh" "nh_set_srp os others (Some nh) True w1 = Some w'" "w_nh w1 nh = Some n"
      "\<not> nh_use_srp n" "nh_srp n \<noteq> None" using NetHandler_new by (fastforce simp: NetHandler_ifname_def NetHandler_bool_def)
    then obtain ok w2 where "nc_srp_setup os others (Some nh) w1 = Some (ok, w2)"
      "w' = w2 \<and> \<not> ok \<or> upd_nh nh (\<lambda>n. n\<lparr>nh_use_srp := True\<rparr>) w2 = Some w'"
      by (auto simp: nh_set_srp_def bind_Some_iff split: if_splits)
    then have "\<exists>n. w_nh w' nh = Some n \<and> (nh_use_srp n \<or> nh_srp n = None \<and> \<not> nh_running n)"
      using nc_srp_setup_fails [of os others nh w1 w2 n] c(3,5) by (auto simp: upd_nh_def bind_Some_iff)
    then show "\<exists>nh n. obj_nh obj = Some nh \<and> w_nh w' nh = Some n \<and> (nh_use_srp n \<or> nh_srp n = None \<and> \<not> nh_running n)"
      using c(1) by blast
  next
    fix obj w'
    assume "NetHandler_logfile os others ifname logfile w = Some (Inr obj, w')"
    then show "\<exists>nh n. obj_nh obj = Some nh \<and> w_nh w' nh = Some n \<and> \<not> nh_use_srp n \<and> nh_running n"
      using NetHandler_new by (fastforce simp: NetHandler_logfile_def nh_set_srp_def)
  qed
qed

end
