(* ===== verification/Ex_Cpp.thy ===== *)
theory Ex_Cpp
  imports Ex_Manifest Cpp_Wrapper
begin

text \<open>
  The example programs in C++ (\<^verbatim>\<open>examples/talker.cpp\<close> and \<^verbatim>\<open>examples/listener.cpp\<close>).  The command line is parsed by
  boost, a library: what it leaves in the variables of \<^verbatim>\<open>main\<close>, and which options were given, is an argument.  A program returns
  \<open>Inl\<close> for an exception that ends it.  The handler object is destroyed where its scope ends.
\<close>

section \<open>The command line\<close>

record po_result =
  vm_count :: "string \<Rightarrow> bool"
  po_nic :: string
  po_loops :: int
  po_logfile :: string
  po_stream_id :: u64
  po_tx_prio :: int
  po_stream_class :: string

text \<open>The attributes: those of \<^verbatim>\<open>mcast17\<close> with the given stream id, whose lowest byte is also the last one of the address.\<close>

definition cpp_attr :: "po_result \<Rightarrow> channel_attrs" where
  "cpp_attr po = (let a = (nc_channels ! IDX_17)\<lparr>a_stream_id := po_stream_id po\<rparr> in a\<lparr>a_dst := (a_dst a)[5 := ucast (a_stream_id a)]\<rparr>)"

section \<open>talker.cpp\<close>

text \<open>The priority: \<open>False\<close> is \<^verbatim>\<open>return -1\<close>.\<close>

definition cpp_set_prio :: "po_result \<Rightarrow> net_handler \<Rightarrow> world \<Rightarrow> (bool \<times> world) option" where
  "cpp_set_prio po nh w =
     (if vm_count po ''tx_prio_cbs_a'' then set_tx_prio_sc nh (po_tx_prio po) SC_CLASS_A w
      else if vm_count po ''tx_prio_cbs_b'' then set_tx_prio_sc nh (po_tx_prio po) SC_CLASS_B w
      else if vm_count po ''tx_tx_prio_tas'' then set_tx_prio_sc nh (po_tx_prio po) SC_TAS w
      else Some (True, w))"

definition cpp_stream_class :: "po_result \<Rightarrow> channel_attrs \<Rightarrow> channel_attrs option" where
  "cpp_stream_class po a =
     (if vm_count po ''stream_class''
      then if po_stream_class po = ''SC_CLASS_A'' then Some (a\<lparr>a_sc := SC_CLASS_A\<rparr>)
           else if po_stream_class po = ''SC_CLASS_B'' then Some (a\<lparr>a_sc := SC_CLASS_B\<rparr>)
           else if po_stream_class po = ''SC_TAS'' then Some (a\<lparr>a_sc := SC_TAS\<rparr>)
           else None
      else Some a)"

text \<open>\<^verbatim>\<open>while (--loops >= 0 && running)\<close>; the result is the number of samples sent, each the time at which it was taken.\<close>

function cpp_send_loop :: "os \<Rightarrow> (nat \<Rightarrow> bool) \<Rightarrow> addr option \<Rightarrow> periodic_timer option \<Rightarrow> int \<Rightarrow> nat \<Rightarrow> world \<Rightarrow> (nat \<times> world) option" where
  "cpp_send_loop os sigint tx pt loops ctr w =
     (let loops = loops - 1
      in if loops \<ge> 0 \<and> \<not> sigint ctr
         then do {
           (ts, w) \<leftarrow> read_tai os w;
           (ok, w) \<leftarrow> NetChanTx_send os tx (Some (le_bytes 8 ts)) w;
           if \<not> ok then Some (ctr, w)
           else let (pt, w) = (if pt \<noteq> None then await_cycle os pt w else (pt, w))
                in cpp_send_loop os sigint tx pt loops (Suc ctr) w
         }
         else Some (ctr, w))"
  by pat_completeness auto
termination
  by (relation "measure (\<lambda>(_, _, _, _, loops, _, _). nat loops)") auto

declare cpp_send_loop.simps [simp del]

text \<open>From the timer, which only the credit-based classes use, to the end marker.\<close>

definition cpp_send_all :: "os \<Rightarrow> (nat \<Rightarrow> bool) \<Rightarrow> channel_attrs \<Rightarrow> int \<Rightarrow> addr option \<Rightarrow> world \<Rightarrow> (nat \<times> world) option" where
  "cpp_send_all os sigint a loops tx w = do {
     (pt, w) \<leftarrow> (if a_sc a = SC_TAS then Some (None, w) else timer_from_attr os a w);
     (ctr, w) \<leftarrow> cpp_send_loop os sigint tx pt loops 0 (tick w);
     (_, w) \<leftarrow> NetChanTx_send os tx (Some (le_bytes 8 (- 1 :: u64))) (tick w);
     Some (ctr, w)
   }"

definition cpp_talker_main ::
  "os \<Rightarrow> interference \<Rightarrow> interference \<Rightarrow> (nat \<Rightarrow> bool) \<Rightarrow> po_result \<Rightarrow> world \<Rightarrow> ((thrown + int) \<times> world) option" where
  "cpp_talker_main os srp others sigint po w =
     (if vm_count po ''help'' then Some (Inr 0, w)
      else do {
        (r, w) \<leftarrow> NetHandler os srp (po_nic po) (po_logfile po) (vm_count po ''use_srp'') w;
        (case r of
           Inl e \<Rightarrow> Some (Inl e, w)
         | Inr nh \<Rightarrow> do {
             w \<leftarrow> (if vm_count po ''verbose'' then NetHandler_verbose nh w else Some w);
             (ok, w) \<leftarrow> cpp_set_prio po nh w;
             (case (if ok then cpp_stream_class po (cpp_attr po) else None) of
                None \<Rightarrow> do { w \<leftarrow> NetHandler_destructor os nh w; Some (Inr (-1), w) }
              | Some a \<Rightarrow> do {
                  (tx, w) \<leftarrow> NetChanTx os nh (Some a) w;
                  w \<leftarrow> ready_wait os others tx w;
                  (_, w) \<leftarrow> cpp_send_all os sigint a (po_loops po) tx w;
                  (_, w) \<leftarrow> NetChan_stop os tx w;
                  w \<leftarrow> NetHandler_destructor os nh w;
                  Some (Inr 0, w)
                })
           })
      })"

section \<open>listener.cpp\<close>

text \<open>
  The rate estimator: the values of \<^verbatim>\<open>rx_ctr\<close> that it sees, one per second while the program runs, with the difference to the last;
  \<open>clk\<close> is the result of \<^verbatim>\<open>clock_gettime\<close>.
\<close>

primrec rates :: "int \<Rightarrow> int list \<Rightarrow> (int \<times> int) list" where
  "rates last_ctr [] = []"
| "rates last_ctr (c # cs) = (c, c - last_ctr) # rates c cs"

definition async_rx_ctr :: "timespec option \<Rightarrow> int \<Rightarrow> int list \<Rightarrow> (int \<times> int) list" where
  "async_rx_ctr clk rx_ctr seen = (case clk of None \<Rightarrow> [] | Some _ \<Rightarrow> rates rx_ctr seen)"

text \<open>The signal handler; its call of \<^verbatim>\<open>stop\<close> is part of what others do while a read blocks.\<close>

definition cpp_sighandler :: "os \<Rightarrow> addr option \<Rightarrow> world \<Rightarrow> (bool \<times> world) option" where
  "cpp_sighandler os rx w = do { (_, w) \<leftarrow> NetChan_stop os rx w; Some (False, w) }"

text \<open>The loop of \<^verbatim>\<open>main\<close>, with the number of frames it has counted.\<close>

partial_function (option) cpp_read_loop ::
  "os \<Rightarrow> interference \<Rightarrow> (nat \<Rightarrow> bool) \<Rightarrow> addr option \<Rightarrow> nat \<Rightarrow> bool \<Rightarrow> u64 \<Rightarrow> int \<Rightarrow> world \<Rightarrow> (u64 \<times> int \<times> world) option" where
  "cpp_read_loop os others sigint rx k running recv_ts rx_ctr w =
     (if running \<and> \<not> sigint k
      then do {
        ((ok, mem), w) \<leftarrow> NetChanRx_read os (others k) rx (Some (le_bytes 8 recv_ts)) w;
        bs \<leftarrow> mem;
        let recv_ts = of_le bs;
        if ok
        then cpp_read_loop os others sigint rx (Suc k) (recv_ts \<noteq> - 1) recv_ts (rx_ctr + 1) (if rx_ctr = 0 then tick w else w)
        else cpp_read_loop os others sigint rx (Suc k) running recv_ts rx_ctr w
      }
      else Some (recv_ts, rx_ctr, w))"

definition cpp_listener_main ::
  "os \<Rightarrow> interference \<Rightarrow> interference \<Rightarrow> interference \<Rightarrow> (nat \<Rightarrow> bool) \<Rightarrow> po_result \<Rightarrow> world \<Rightarrow> ((thrown + int \<times> int) \<times> world) option" where
  "cpp_listener_main os srp others readers sigint po w =
     (if vm_count po ''help'' then Some (Inr (0, 0), w)
      else do {
        (r, w) \<leftarrow> NetHandler os srp (po_nic po) (po_logfile po) (vm_count po ''use_srp'') w;
        (case r of
           Inl e \<Rightarrow> Some (Inl e, w)
         | Inr nh \<Rightarrow> do {
             w \<leftarrow> (if vm_count po ''verbose'' then NetHandler_verbose nh w else Some w);
             (rx, w) \<leftarrow> NetChanRx os nh (Some (cpp_attr po)) w;
             w \<leftarrow> ready_wait os others rx w;
             (_, rx_ctr, w) \<leftarrow> cpp_read_loop os readers sigint rx 0 True 0 0 w;
             (_, w) \<leftarrow> NetChan_stop os rx (tick w);
             w \<leftarrow> NetHandler_destructor os nh w;
             Some (Inr (0, rx_ctr), w)
           })
      })"

section \<open>Facts\<close>

lemma clock_ok_time: "clock_ok os \<Longrightarrow> \<exists>ts :: u64. read_tai os w = Some (ts, tick w) \<and> ts \<noteq> - 1"
proof -
  assume "clock_ok os"
  then obtain t where t: "0 \<le> ts_ns t" "ts_ns t < 2 ^ 62" "read_tai os w = Some (ts_u64 t, tick w)"
    using clock_ok_read_tai [of os w] by blast
  have "uint (ts_u64 t) = ts_ns t" using t(1,2) by (simp add: uint_ts_u64)
  then have "ts_u64 t \<noteq> - 1" using t(2) by (auto simp: unsigned_minus_1_eq_mask mask_eq_exp_minus_1)
  with t(3) show ?thesis by blast
qed

lemma talker_clock: "talker os k w ch sid sz \<Longrightarrow> clock_ok os"
  by (auto simp: talker_def sendable_def)

lemma cpp_send_loop_frames:
  "talker os (n + k) w ch sid 8 \<Longrightarrow>
    \<exists>w' fs tss. cpp_send_loop os (\<lambda>_. False) (Some ch) pt (int n) ctr w = Some (ctr + n, w') \<and> w_net w' = w_net w @ fs
      \<and> talker os k w' ch sid 8 \<and> length tss = n \<and> (- 1 :: u64) \<notin> set tss \<and> list_all2 (sample_frame sid 8) fs (map (le_bytes 8) tss)"
proof (induction n arbitrary: w pt ctr)
  case 0
  then show ?case
    by (intro exI [of _ w] exI [of _ "[]"]) (simp add: cpp_send_loop.simps [of _ _ _ _ 0])
next
  case (Suc n)
  obtain ts :: u64 where ts: "read_tai os w = Some (ts, tick w)" "ts \<noteq> - 1" using clock_ok_time [OF talker_clock [OF Suc.prems]] by blast
  have "talker os (Suc (n + k)) (tick w) ch sid 8" using Suc.prems by (simp add: talker_heaps [of "tick w" w])
  from NetChanTx_send_next [OF this, of "le_bytes 8 ts"] obtain w1 f where
    w1: "NetChanTx_send os (Some ch) (Some (le_bytes 8 ts)) (tick w) = Some (True, w1)" "w_net w1 = w_net w @ [f]"
      "sample_frame sid 8 f (le_bytes 8 ts)" "talker os (n + k) w1 ch sid 8" by auto
  obtain pt' w2 where c: "(if pt \<noteq> None then await_cycle os pt w1 else (pt, w1)) = (pt', w2)" by fastforce
  have w2: "w_ch w2 = w_ch w1" "w_nh w2 = w_nh w1" "w_net w2 = w_net w1"
  proof -
    have "w2 = snd (await_cycle os pt w1) \<or> w2 = w1" using c by (auto split: if_splits)
    then show "w_ch w2 = w_ch w1" "w_nh w2 = w_nh w1" "w_net w2 = w_net w1" by auto
  qed
  then have "talker os (n + k) w2 ch sid 8" using w1(4) by (simp add: talker_heaps [of w2 w1])
  from Suc.IH [OF this, of pt' "Suc ctr"] obtain w' fs tss where
    "cpp_send_loop os (\<lambda>_. False) (Some ch) pt' (int n) (Suc ctr) w2 = Some (Suc ctr + n, w')" "w_net w' = w_net w2 @ fs"
    "talker os k w' ch sid 8" "length tss = n" "(- 1 :: u64) \<notin> set tss" "list_all2 (sample_frame sid 8) fs (map (le_bytes 8) tss)" by blast
  with ts w1(1-3) c w2(3) show ?case
    by (intro exI [of _ w'] exI [of _ "f # fs"] exI [of _ "ts # tss"]) (simp add: cpp_send_loop.simps [of _ _ _ _ "1 + int n"])
qed

lemma cpp_read_loop_records:
  "reader w ch c nh n a wr (concat (map2 (\<lambda>m d. meta_bytes m @ d) ms (map (le_bytes 8) (tss @ [- 1 :: u64])))) \<Longrightarrow>
    length ms = Suc (length tss) \<Longrightarrow> (- 1 :: u64) \<notin> set tss \<Longrightarrow> unat (ch_payload_size c) = 8 \<Longrightarrow> nh_ftrace_break_us n \<le> 0 \<Longrightarrow>
    \<exists>w'. cpp_read_loop os (\<lambda>_. Some) (\<lambda>_. False) (Some ch) k True recv ctr w = Some (- 1, ctr + int (length tss) + 1, w')"
proof (induction tss arbitrary: w ms k recv ctr)
  case Nil
  then obtain m where ms: "ms = [m]" by (auto simp: length_Suc_conv)
  have "no_break n m" using Nil.prems(5) by (simp add: no_break_def)
  then obtain w1 where "chan_read os Some (Some ch) (Some (le_bytes 8 recv)) w = Some ((28, Some (le_bytes 8 (- 1 :: u64))), w1)"
    using chan_read_record [of w ch c nh n a wr m "le_bytes 8 (- 1 :: u64)" "[]" "le_bytes 8 recv" os] Nil.prems(1,4) ms by (auto simp: overwrite_def)
  then show ?case
    by (subst cpp_read_loop.simps) (simp add: NetChanRx_read_def cpp_read_loop.simps [where running = False])
next
  case (Cons t tss)
  then obtain m ms' where ms: "ms = m # ms'" by (cases ms) auto
  let ?rest = "concat (map2 (\<lambda>m d. meta_bytes m @ d) ms' (map (le_bytes 8) (tss @ [- 1 :: u64])))"
  have "no_break n m" using Cons.prems(5) by (simp add: no_break_def)
  then obtain w1 where w1: "chan_read os Some (Some ch) (Some (le_bytes 8 recv)) w = Some ((28, Some (le_bytes 8 t)), w1)"
    "reader w1 ch c nh n a wr ?rest"
    using chan_read_record [of w ch c nh n a wr m "le_bytes 8 t" ?rest "le_bytes 8 recv" os] Cons.prems(1,4) ms by (auto simp: overwrite_def)
  let ?w = "if ctr = 0 then tick w1 else w1"
  have "reader ?w ch c nh n a wr ?rest" using w1(2) by (simp add: reader_def live_def pipe_at_def)
  from Cons.IH [OF this, of "Suc k" t "ctr + 1"] Cons.prems ms w1(1)
  show ?case by (subst cpp_read_loop.simps) (auto simp: NetChanRx_read_def)
qed

section \<open>Properties\<close>

text \<open>The counts of the two programs differ by one.  For any number of iterations \<open>n\<close> that is not interrupted, \<^verbatim>\<open>talker.cpp\<close> counts \<open>n\<close> samples and sends
  \<open>n + 1\<close> frames, the samples, which are clock readings, and the end marker.  When the network hands them, in order, to a
  handler with a listening channel, the loop of \<^verbatim>\<open>listener.cpp\<close> ends with the marker and reports \<open>n + 1\<close> frames.\<close>

lemma cpp_examples_count_frames:
  assumes "talker os (Suc n) w ch nsid 8" "a_sc at = SC_TAS"
    and "listening w' ch' c nh nhd (be64toh nsid)" "unat (ch_payload_size c) = 8" "unbounded_pipes os'"
  shows "\<exists>w1 fs. cpp_send_all os (\<lambda>_. False) at (int n) (Some ch) w = Some (n, w1) \<and> w_net w1 = w_net w @ fs \<and> length fs = n + 1
    \<and> (\<forall>evs. list_all2 hands_over evs fs \<longrightarrow>
         (\<exists>w2 w3. nh_runner os' ucb (Some nh) evs w' = Some w2
            \<and> cpp_read_loop os' (\<lambda>_. Some) (\<lambda>_. False) (Some ch') 0 True 0 0 w2 = Some (- 1, int n + 1, w3)))"
proof -
  have "talker os (n + 1) (tick w) ch nsid 8" using assms(1) by (simp add: talker_heaps [of "tick w" w])
  from cpp_send_loop_frames [OF this, of None 0] obtain w1 fs tss where
    w1: "cpp_send_loop os (\<lambda>_. False) (Some ch) None (int n) 0 (tick w) = Some (n, w1)" "w_net w1 = w_net w @ fs" "talker os 1 w1 ch nsid 8"
      "length tss = n" "(- 1 :: u64) \<notin> set tss" "list_all2 (sample_frame nsid 8) fs (map (le_bytes 8) tss)" by auto
  have "talker os (Suc 0) (tick w1) ch nsid 8" using w1(3) by (simp add: talker_heaps [of "tick w1" w1])
  from NetChanTx_send_next [OF this, of "le_bytes 8 (- 1 :: u64)"] obtain w2 f where
    w2: "NetChanTx_send os (Some ch) (Some (le_bytes 8 (- 1 :: u64))) (tick w1) = Some (True, w2)" "w_net w2 = w_net w1 @ [f]"
      "sample_frame nsid 8 f (le_bytes 8 (- 1 :: u64))" by auto
  have sent: "cpp_send_all os (\<lambda>_. False) at (int n) (Some ch) w = Some (n, w2)" using assms(2) w1(1) w2(1) by (simp add: cpp_send_all_def)
  let ?ds = "map (le_bytes 8) (tss @ [- 1 :: u64])"
  have fs: "list_all2 (sample_frame nsid 8) (fs @ [f]) ?ds" using w1(6) w2(3) by (auto intro!: list_all2_appendI)
  have "\<exists>w3 w4. nh_runner os' ucb (Some nh) evs w' = Some w3
      \<and> cpp_read_loop os' (\<lambda>_. Some) (\<lambda>_. False) (Some ch') 0 True 0 0 w3 = Some (- 1, int n + 1, w4)"
    if ev: "list_all2 hands_over evs (fs @ [f])" for evs
  proof -
    obtain w3 ms a wr where w3: "nh_runner os' ucb (Some nh) evs w' = Some w3" "length ms = length ?ds"
      "reader w3 ch' c nh nhd a wr (concat (map2 (\<lambda>m d. meta_bytes m @ d) ms ?ds))"
      using frames_are_recorded [OF fs ev _ _ assms(3,4,5), of ucb] by auto
    have "nh_ftrace_break_us nhd \<le> 0" using assms(3) by (simp add: listening_def)
    from cpp_read_loop_records [OF w3(3) _ w1(5) assms(4) this, of os' 0 0 0] w3(1,2) w1(4) show ?thesis by auto
  qed
  moreover have "length (fs @ [f]) = n + 1" using list_all2_lengthD [OF fs] w1(4) by simp
  ultimately show ?thesis using sent w1(2) w2(2) by (intro exI [of _ w2] exI [of _ "fs @ [f]"]) simp
qed

text \<open>The option for the TAS priority has no effect.  \<^verbatim>\<open>main\<close> asks for an option that is not declared, which boost never counts; so, given alone, the priority
  is parsed and then dropped, although the channel of the program is a TAS channel.\<close>

lemma tas_priority_dropped:
  assumes "\<not> vm_count po ''tx_tx_prio_tas''" "\<not> vm_count po ''tx_prio_cbs_a''" "\<not> vm_count po ''tx_prio_cbs_b''"
  shows "cpp_set_prio po nh w = Some (True, w)" "a_sc (cpp_attr po) = SC_TAS"
  using assms by (simp_all add: cpp_set_prio_def cpp_attr_def nc_channels_def IDX_17_def)

text \<open>The rates add up to what was counted.\<close>

lemma rates_sum: "last_ctr + sum_list (map snd (rates last_ctr seen)) = last (last_ctr # seen)"
proof (induction seen arbitrary: last_ctr)
  case (Cons c cs)
  from Cons [of c] show ?case by simp
qed simp

text \<open>Without a channel both programs dereference NULL in \<^verbatim>\<open>ready_wait\<close>.\<close>

lemma cpp_ready_wait_null: "ready_wait os others None w = None"
  by (simp add: ready_wait_def ready_wait_loop.simps)

end
