(* ===== verification/Diagnostics.thy ===== *)
theory Diagnostics
  imports Sockets
begin

text \<open>
  Output for diagnosis: the kernel tracer (\<^verbatim>\<open>src/tracebuffer.c\<close>), messages and listings (\<^verbatim>\<open>src/netchan.c\<close>), and the
  terminal functions (\<^verbatim>\<open>src/terminal.c\<close>), which are stubs.  Nothing here changes the state of the other theories, which leave these
  calls out, or keep only whether the trace is open.
\<close>

section \<open>The kernel tracer\<close>

text \<open>
  The files of the tracer are kernel interfaces: what matters is the sequence of writes, each a path and a text.  \<open>fopen\<close>
  says which files can be opened.  A stream of the tracer is a \<open>bool\<close>, whether it is open.
\<close>

definition tracefs :: "string \<Rightarrow> string" where
  "tracefs attr = take 254 (''/sys/kernel/tracing/'' @ attr)"

definition i_tb_tracefs_write_single :: "(string \<Rightarrow> bool) \<Rightarrow> string \<Rightarrow> string \<Rightarrow> files \<Rightarrow> files" where
  "i_tb_tracefs_write_single fopen attr val fs = (if fopen (tracefs attr) then fs @ [(tracefs attr, val @ [CHR 0x0A])] else fs)"

definition tb_open :: "(string \<Rightarrow> bool) \<Rightarrow> files \<Rightarrow> bool \<times> files" where
  "tb_open fopen fs =
     (let fs = i_tb_tracefs_write_single fopen ''tracing_on'' ''0'' fs;
          fs = i_tb_tracefs_write_single fopen ''buffer_size_kb'' ''8192'' fs;
          fs = i_tb_tracefs_write_single fopen ''events/sched/enable'' ''1'' fs;
          fs = i_tb_tracefs_write_single fopen ''events/net/enable'' ''1'' fs;
          fs = i_tb_tracefs_write_single fopen ''events/irq/enable'' ''1'' fs
      in if \<not> fopen ''/sys/kernel/tracing/trace_marker'' then (False, fs)
         else (True, i_tb_tracefs_write_single fopen ''tracing_on'' ''1'' fs))"

definition tb_close :: "(string \<Rightarrow> bool) \<Rightarrow> bool \<Rightarrow> files \<Rightarrow> files" where
  "tb_close fopen tracefd fs = i_tb_tracefs_write_single fopen ''tracing_on'' ''0'' fs"

text \<open>\<open>msg\<close> is the formatted text.\<close>

definition tb_tag :: "bool \<Rightarrow> string \<Rightarrow> files \<Rightarrow> files" where
  "tb_tag tracefd msg fs = (if \<not> tracefd then fs else fs @ [(''/sys/kernel/tracing/trace_marker'', take 255 msg)])"

section \<open>The terminal\<close>

definition term_open :: "string \<Rightarrow> int" where "term_open termpath = -1"
definition term_close :: "int \<Rightarrow> unit" where "term_close ttys = ()"
definition term_write :: "int \<Rightarrow> bytes \<Rightarrow> nat \<Rightarrow> int" where "term_write ttys msg msglen = -1"

section \<open>Messages\<close>

datatype nc_loglevel = NC_DEBUG | NC_INFO | NC_WARN | NC_ERROR

fun loglevel_map :: "nc_loglevel \<Rightarrow> string" where
  "loglevel_map NC_DEBUG = ''DEBUG''"
| "loglevel_map NC_INFO = ''INFO''"
| "loglevel_map NC_WARN = ''WARNING''"
| "loglevel_map NC_ERROR = ''ERROR''"

text \<open>
  \<open>now\<close> is the time as \<^verbatim>\<open>strftime\<close> prints it, \<open>msg\<close> the formatted text.  The result is the line and whether it goes to
  \<^verbatim>\<open>stderr\<close>, or nothing.  Every part is written behind the last one into a buffer of 256 bytes; \<open>idx\<close> is
  what \<^verbatim>\<open>snprintf\<close> would have written, so that a part that did not fit would make the remaining size wrap (\<open>None\<close>).
\<close>

definition append_part :: "string \<Rightarrow> string \<Rightarrow> string option" where
  "append_part buf s = (if length buf + length s < 256 then Some (buf @ s) else None)"

definition nh_debug :: "world \<Rightarrow> string \<Rightarrow> addr option \<Rightarrow> nc_loglevel \<Rightarrow> string \<Rightarrow> (bool \<times> string) option option" where
  "nh_debug w now chp level msg = do {
     quiet \<leftarrow> (case chp of
                 None \<Rightarrow> Some False
               | Some ch \<Rightarrow> do {
                   c \<leftarrow> w_ch w ch;
                   n \<leftarrow> get_nh w (ch_nh c);
                   Some (\<not> nh_verbose n \<and> (level = NC_DEBUG \<or> level = NC_INFO))
                 });
     if quiet then Some None
     else do {
       buf \<leftarrow> append_part '''' now;
       buf \<leftarrow> (case chp of
                 None \<Rightarrow> Some buf
               | Some ch \<Rightarrow> do { c \<leftarrow> w_ch w ch; append_part buf ('' [0x'' @ hexn False 8 (unat (ch_sidw c)) @ '']'') });
       buf \<leftarrow> append_part buf ('' '' @ loglevel_map level);
       buf \<leftarrow> append_part buf '' '';
       Some (Some (level = NC_WARN \<or> level = NC_ERROR, take 255 (buf @ msg) @ [CHR 0x0A]))
     }
   }"

section \<open>Listings\<close>

text \<open>The values of a printed line: SRP, whether it is a listener, stream id, size, interval.\<close>

definition chan_print_details :: "world \<Rightarrow> addr option \<Rightarrow> (bool \<times> bool \<times> u64 \<times> u16 \<times> u64) list option" where
  "chan_print_details w chp =
     (case chp of
        None \<Rightarrow> Some []
      | Some ch \<Rightarrow> do {
          c \<leftarrow> w_ch w ch;
          n \<leftarrow> get_nh w (ch_nh c);
          Some [(nh_use_srp n, ch_tx_sock c = -1, ch_sidw c, ch_payload_size c, ch_interval_ns c)]
        })"

partial_function (option) list_walk :: "world \<Rightarrow> addr option \<Rightarrow> (bool \<times> bool \<times> u64 \<times> u16 \<times> u64) list option" where
  "list_walk w p =
     (case p of
        None \<Rightarrow> Some []
      | Some ch \<Rightarrow> do {
          l \<leftarrow> chan_print_details w p;
          c \<leftarrow> w_ch w ch;
          ls \<leftarrow> list_walk w (ch_next c);
          Some (l @ ls)
        })"

text \<open>The lines for the Rx channels and for the Tx channels.\<close>

definition nh_list_active_channels ::
  "world \<Rightarrow> addr option \<Rightarrow> ((bool \<times> bool \<times> u64 \<times> u16 \<times> u64) list \<times> (bool \<times> bool \<times> u64 \<times> u16 \<times> u64) list) option" where
  "nh_list_active_channels w nhp =
     (case nhp of
        None \<Rightarrow> Some ([], [])
      | Some nh \<Rightarrow> do {
          n \<leftarrow> w_nh w nh;
          rx \<leftarrow> list_walk w (nh_rx_head n);
          tx \<leftarrow> list_walk w (nh_tx_head n);
          Some (rx, tx)
        })"

text \<open>The state of a valid channel, in the order of the lines; of \<^verbatim>\<open>txtime.flags\<close>, the two bits printed alone and all of them.\<close>

definition chan_dump_state ::
  "world \<Rightarrow> addr option \<Rightarrow> (string \<times> u32 \<times> u64 \<times> bool \<times> int \<times> int \<times> int \<times> bytes \<times> int \<times> int \<times> u16) option option" where
  "chan_dump_state w chp = do {
     v \<leftarrow> chan_valid w chp;
     if \<not> v then Some None
     else do {
       c \<leftarrow> get_ch w chp;
       n \<leftarrow> get_nh w (ch_nh c);
       Some (Some (nh_ifname n, nh_link_speed n, ch_interval_ns c, ch_use_so_txtime c, ch_tx_sock_prio c,
         tt_flags (ch_txtime c) AND 1, tt_flags (ch_txtime c) AND SOF_TXTIME_REPORT_ERRORS, ch_dst c,
         tt_clockid (ch_txtime c), tt_flags (ch_txtime c), ch_payload_size c))
     }
   }"

section \<open>Facts\<close>

text \<open>The value the kernel has for a setting: the last one written.\<close>

definition setting :: "string \<Rightarrow> files \<Rightarrow> string option" where
  "setting attr fs = map_of (rev fs) (tracefs attr)"

lemma setting_write:
  "setting attr (i_tb_tracefs_write_single fopen attr' val fs) =
     (if fopen (tracefs attr') \<and> tracefs attr' = tracefs attr then Some (val @ [CHR 0x0A]) else setting attr fs)"
  by (auto simp: setting_def i_tb_tracefs_write_single_def)

lemma tracefs_names [simp]:
  "tracefs ''tracing_on'' = ''/sys/kernel/tracing/tracing_on''" "tracefs ''buffer_size_kb'' = ''/sys/kernel/tracing/buffer_size_kb''"
  "tracefs ''events/sched/enable'' = ''/sys/kernel/tracing/events/sched/enable''"
  "tracefs ''events/net/enable'' = ''/sys/kernel/tracing/events/net/enable''"
  "tracefs ''events/irq/enable'' = ''/sys/kernel/tracing/events/irq/enable''"
  by (simp_all add: tracefs_def)

text \<open>Tracing is on exactly while the marker file is open: a failed \<open>tb_open\<close> leaves it off.\<close>

lemma tracing_on_while_open:
  assumes "fopen ''/sys/kernel/tracing/tracing_on''" "tb_open fopen fs = (ok, fs')"
  shows "setting ''tracing_on'' fs' = Some ((if ok then ''1'' else ''0'') @ [CHR 0x0A])"
    "setting ''tracing_on'' (tb_tag ok msg fs') = setting ''tracing_on'' fs'"
    "setting ''tracing_on'' (tb_close fopen ok (tb_tag ok msg fs')) = Some (''0'' @ [CHR 0x0A])"
proof -
  show "setting ''tracing_on'' fs' = Some ((if ok then ''1'' else ''0'') @ [CHR 0x0A])"
    using assms by (auto simp: tb_open_def Let_def setting_write split: if_splits)
  show "setting ''tracing_on'' (tb_tag ok msg fs') = setting ''tracing_on'' fs'" by (simp add: setting_def tb_tag_def)
  show "setting ''tracing_on'' (tb_close fopen ok (tb_tag ok msg fs')) = Some (''0'' @ [CHR 0x0A])"
    using assms(1) by (simp add: tb_close_def setting_write)
qed

text \<open>No part of a message overruns the buffer: with the 19 characters of the time, the id and the level there is always room for the text.\<close>

lemma length_hex_less: "n < 16 ^ k \<Longrightarrow> 0 < k \<Longrightarrow> length (hex u n) \<le> k"
proof (induction k arbitrary: n)
  case (Suc k)
  show ?case
  proof (cases "n < 16")
    case False
    then have "k \<noteq> 0" "n div 16 < 16 ^ k" using Suc.prems(1) by (auto intro: gr0I simp: less_mult_imp_div_less)
    with False Suc.IH [of "n div 16"] show ?thesis by (subst hex.simps) simp
  qed (simp add: hex.simps [of u n])
qed simp

lemma nh_debug_fits:
  assumes "length now = 19" "chp = None \<or> (\<exists>ch c nh n. chp = Some ch \<and> live w ch c nh n)"
  shows "\<exists>r. nh_debug w now chp level msg = Some r \<and> (\<forall>e line. r = Some (e, line) \<longrightarrow> length line \<le> 256)"
proof -
  have sid: "length (hexn False 8 (unat (x :: u64))) \<le> 16" for x
  proof -
    have "unat x < 16 ^ 16" using unsigned_less [of x, where 'a = nat] by simp
    then have "length (hex False (unat x)) \<le> 16" by (rule length_hex_less) simp
    then show ?thesis by (simp add: hexn_def)
  qed
  have lvl: "length (loglevel_map level) \<le> 7" by (cases level) simp_all
  show ?thesis
  proof (cases chp)
    case None
    then show ?thesis using assms(1) lvl by (simp add: nh_debug_def append_part_def)
  next
    case (Some ch)
    then obtain c nh n where "live w ch c nh n" using assms(2) by auto
    then show ?thesis using Some assms(1) lvl sid [of "ch_sidw c"] by (auto simp: nh_debug_def append_part_def live_def min_def)
  qed
qed

text \<open>The listing has one line for every channel of the handler, in the order of its lists.\<close>

definition line_of :: "world \<Rightarrow> addr \<Rightarrow> bool \<times> bool \<times> u64 \<times> u16 \<times> u64" where
  "line_of w ch = hd (the (chan_print_details w (Some ch)))"

lemma list_walk_chain:
  "chain (w_ch w) p xs \<Longrightarrow> \<forall>x \<in> set xs. belongs w nh x \<Longrightarrow> w_nh w nh = Some n \<Longrightarrow> list_walk w p = Some (map (line_of w) xs)"
proof (induction xs arbitrary: p)
  case Nil
  then show ?case by (subst list_walk.simps) simp
next
  case (Cons x xs)
  then obtain c where c: "p = Some x" "w_ch w x = Some c" "chain (w_ch w) (ch_next c) xs" "ch_nh c = Some nh" by (auto simp: belongs_def)
  from Cons.IH [OF c(3)] Cons.prems(2,3) have "list_walk w (ch_next c) = Some (map (line_of w) xs)" by simp
  then show ?case using c Cons.prems(3) by (subst list_walk.simps) (simp add: line_of_def chan_print_details_def)
qed

lemma nh_list_active_channels_lists:
  assumes "tx_chans w nh xs tp" "rx_chans w nh ys tp'" "\<forall>x \<in> set (xs @ ys). belongs w nh x"
  shows "nh_list_active_channels w (Some nh) = Some (map (line_of w) ys, map (line_of w) xs)"
proof -
  obtain n where n: "w_nh w nh = Some n" "chain (w_ch w) (nh_tx_head n) xs" "chain (w_ch w) (nh_rx_head n) ys"
    using assms(1,2) by (auto simp: tx_chans_def rx_chans_def)
  show ?thesis using list_walk_chain [OF n(2) _ n(1)] list_walk_chain [OF n(3) _ n(1)] assms(3) n(1)
    by (simp add: nh_list_active_channels_def)
qed

end
