(* ===== verification/Lifecycle.thy ===== *)
theory Lifecycle
  imports Delivery
begin

text \<open>
  The channels of a process over its whole life: a step relation with one rule per operation of the
  interface and per event of the threads, and what holds in every state that is reached.

  The locale \<open>channel_inv\<close> is the contract of an invariant: a condition on channels that depends on the frame
  only, and a condition on the frames that leave.
\<close>

section \<open>Invariants of channels and frames\<close>

definition all_inv :: "(channel \<Rightarrow> bool) \<Rightarrow> (tx_frame \<Rightarrow> bool) \<Rightarrow> world \<Rightarrow> bool" where
  "all_inv C F w \<longleftrightarrow> (\<forall>a c. w_ch w a = Some c \<longrightarrow> C c) \<and> (\<forall>f \<in> set (w_net w). F f)"

text \<open>Whatever a computation returns, it leaves the invariant.\<close>

definition ok0 :: "(channel \<Rightarrow> bool) \<Rightarrow> (tx_frame \<Rightarrow> bool) \<Rightarrow> world option \<Rightarrow> bool" where
  "ok0 C F m \<longleftrightarrow> (\<forall>w. m = Some w \<longrightarrow> all_inv C F w)"

definition ok1 :: "(channel \<Rightarrow> bool) \<Rightarrow> (tx_frame \<Rightarrow> bool) \<Rightarrow> ('r \<times> world) option \<Rightarrow> bool" where
  "ok1 C F m \<longleftrightarrow> (\<forall>r w. m = Some (r, w) \<longrightarrow> all_inv C F w)"

lemma ok_simps [simp]:
  "ok0 C F None" "ok1 C F None" "ok0 C F (Some w) = all_inv C F w" "ok1 C F (Some (r, w)) = all_inv C F w"
  "ok0 C F (map_option snd m) = ok1 C F m" "ok1 C F (map_option (Pair r) m') = ok0 C F m'"
  "ok1 C F (Some p) = all_inv C F (snd p)"
  by (auto simp: ok0_def ok1_def) (cases p, simp)

text \<open>Sequencing: after a step that returns a world, or a value read from one.\<close>

lemma ok_bind_world:
  "ok1 C F m \<Longrightarrow> (\<And>r w. all_inv C F w \<Longrightarrow> ok1 C F (f (r, w))) \<Longrightarrow> ok1 C F (Option.bind m f)"
  "ok0 C F m' \<Longrightarrow> (\<And>w. all_inv C F w \<Longrightarrow> ok1 C F (g w)) \<Longrightarrow> ok1 C F (Option.bind m' g)"
  "ok1 C F m \<Longrightarrow> (\<And>r w. all_inv C F w \<Longrightarrow> ok0 C F (f' (r, w))) \<Longrightarrow> ok0 C F (Option.bind m f')"
  "ok0 C F m' \<Longrightarrow> (\<And>w. all_inv C F w \<Longrightarrow> ok0 C F (g' w)) \<Longrightarrow> ok0 C F (Option.bind m' g')"
  by (auto simp: ok0_def ok1_def bind_Some_iff)

lemma ok_bind_val:
  "(\<And>x. m = Some x \<Longrightarrow> ok1 C F (f x)) \<Longrightarrow> ok1 C F (Option.bind m f)"
  "(\<And>x. m = Some x \<Longrightarrow> ok0 C F (g x)) \<Longrightarrow> ok0 C F (Option.bind m g)"
  by (auto simp: ok0_def ok1_def bind_Some_iff)

lemmas ok_bind = ok_bind_world
  ok_bind_val [where 'a = channel] ok_bind_val [where 'a = nethandler] ok_bind_val [where 'a = cb_priv] ok_bind_val [where 'a = bool]
  ok_bind_val [where 'a = nat] ok_bind_val [where 'a = int] ok_bind_val [where 'a = u64] ok_bind_val [where 'a = "nat option"]
  ok_bind_val [where 'a = "u8 list"] ok_bind_val [where 'a = callback] ok_bind_val [where 'a = "nat \<times> nethandler"]

lemma all_inv_cong: "w_ch w' = w_ch w \<Longrightarrow> w_net w' = w_net w \<Longrightarrow> all_inv C F w' = all_inv C F w"
  by (simp add: all_inv_def)

lemma all_inv_simps [simp]:
  "all_inv C F (tick w) = all_inv C F w" "all_inv C F (set_nh a n w) = all_inv C F w" "all_inv C F (set_cb a cb w) = all_inv C F w"
  "all_inv C F (os_close fd w) = all_inv C F w" "all_inv C F (os_pipe r wr w) = all_inv C F w"
  "all_inv C F (w\<lparr>w_fresh := x\<rparr>) = all_inv C F w" "all_inv C F (w\<lparr>w_fds := fds\<rparr>) = all_inv C F w"
  "all_inv C F (w\<lparr>w_cb := cbs\<rparr>) = all_inv C F w" "all_inv C F (w\<lparr>w_nh := nhs\<rparr>) = all_inv C F w"
  "all_inv C F (w\<lparr>w_sleep := sl\<rparr>) = all_inv C F w" "all_inv C F (snd (os_sleep_until os cid ts w)) = all_inv C F w"
  by (auto intro!: all_inv_cong simp: os_sleep_until_def)

lemma all_inv_setup [simp]:
  "all_inv C F (open_fd fd w) = all_inv C F w" "all_inv C F (snd (ioctl os fd q w)) = all_inv C F w"
  "all_inv C F (snd (nc_create_rx_sock os ifname w)) = all_inv C F w" "all_inv C F (snd (get_ptp_fd os ifname w)) = all_inv C F w"
proof -
  show 1: "all_inv C F (open_fd fd w) = all_inv C F w" for fd w by (simp add: open_fd_def)
  show 2: "all_inv C F (snd (ioctl os fd q w)) = all_inv C F w" for fd q w by (simp add: ioctl_def)
  show "all_inv C F (snd (nc_create_rx_sock os ifname w)) = all_inv C F w"
    by (simp add: nc_create_rx_sock_def Let_def split_beta 1 2)
  show "all_inv C F (snd (get_ptp_fd os ifname w)) = all_inv C F w"
    by (simp add: get_ptp_fd_def Let_def split_beta 1 2 split: option.split)
qed

lemma all_inv_only_mrp: "only_mrp w w' \<Longrightarrow> all_inv C F w' = all_inv C F w"
  by (rule all_inv_cong) (simp_all add: only_mrp_fields)

lemma all_inv_set_ch: "all_inv C F w \<Longrightarrow> C c \<Longrightarrow> w_net u = w_net w \<Longrightarrow> all_inv C F (u\<lparr>w_ch := (w_ch w)(a \<mapsto> c)\<rparr>)"
  by (simp add: all_inv_def)

lemma all_inv_at: "all_inv C F w \<Longrightarrow> w_ch w a = Some c \<Longrightarrow> C c"
  by (simp add: all_inv_def)

lemma ok_upd_nh: "all_inv C F w \<Longrightarrow> ok0 C F (upd_nh a f w)"
  by (auto simp: ok0_def upd_nh_def)

lemma ok_upd_cb: "all_inv C F w \<Longrightarrow> ok0 C F (upd_cb a g w)"
  by (auto simp: ok0_def upd_cb_def)

lemma ok_upd_ch: "all_inv C F w \<Longrightarrow> (\<And>c. w_ch w a = Some c \<Longrightarrow> C c \<Longrightarrow> C (h c)) \<Longrightarrow> ok0 C F (upd_ch a h w)"
  by (auto simp: ok0_def upd_ch_def intro!: all_inv_set_ch dest: all_inv_at)

lemma ok_free: "all_inv C F w \<Longrightarrow> ok0 C F (free_ch a w)" "all_inv C F w \<Longrightarrow> ok0 C F (free_cb p w)" "all_inv C F w \<Longrightarrow> ok0 C F (free_nh a w)"
  by (auto simp: ok0_def all_inv_def free_ch_def free_cb_def free_nh_def split: option.splits if_splits)

lemma ok_with_logger: "all_inv C F w \<Longrightarrow> ok0 C F (with_logger f nh w)"
  by (auto simp: ok0_def with_logger_def bind_Some_iff all_inv_def)

lemma ok_os_write: "all_inv C F w \<Longrightarrow> ok1 C F (os_write room fd d w)"
  by (auto simp: ok1_def os_write_def bind_Some_iff all_inv_def split: option.splits fdesc.splits if_splits)

lemma ok_os_read: "all_inv C F w \<Longrightarrow> ok1 C F (os_read fd n w)"
  by (auto simp: ok1_def os_read_def bind_Some_iff all_inv_def Let_def split: option.splits fdesc.splits if_splits)

lemma ok_clocks:
  "all_inv C F w \<Longrightarrow> ok1 C F (read_clock os cid w)" "all_inv C F w \<Longrightarrow> ok1 C F (read_tai os w)" "all_inv C F w \<Longrightarrow> ok1 C F (read_real os w)"
  by (auto simp: ok1_def read_clock_def read_tai_def read_real_def bind_Some_iff)

lemma ok_srp_channel_ops:
  assumes "all_inv C F w"
  shows "ok1 C F (nc_srp_new_talker os p w)" "ok1 C F (nc_srp_remove_talker os p w)" "ok1 C F (nc_srp_remove_listener os p w)"
  unfolding ok1_def by (metis assms all_inv_only_mrp srp_channel_ops_only_mrp)+

lemma unlink_loop_inv:
  assumes "unlink_loop h r w = Some y" "\<And>c p. C c \<Longrightarrow> C (c\<lparr>ch_next := p\<rparr>)"
  shows "all_inv C F w \<longrightarrow> all_inv C F (snd y)"
proof (rule unlink_loop.raw_induct [OF _ assms(1)], intro impI)
  fix loop h r w y
  assume IH: "\<And>h r w y. loop h r w = Some y \<Longrightarrow> all_inv C F w \<longrightarrow> all_inv C F (snd y)"
    and step: "do {
     c \<leftarrow> w_ch w h;
     if ch_next c = Some r
     then do {
       r \<leftarrow> w_ch w r;
       Some (0, set_ch h (c\<lparr>ch_next := ch_next r\<rparr>) w)
     }
     else (case ch_next c of
             None \<Rightarrow> Some (- EINVAL, w)
           | Some head' \<Rightarrow> loop head' r w)
   } = Some y" and inv: "all_inv C F w"
  show "all_inv C F (snd y)"
    using step inv by (auto simp: bind_Some_iff intro!: all_inv_set_ch assms(2) dest: all_inv_at IH split: if_splits option.splits)
qed

lemma ok_unlink_loop: "all_inv C F w \<Longrightarrow> (\<And>c p. C c \<Longrightarrow> C (c\<lparr>ch_next := p\<rparr>)) \<Longrightarrow> ok1 C F (unlink_loop h r w)"
  using unlink_loop_inv [of h r w _ C F] by (force simp: ok1_def)

lemmas ok_rules = ok_bind ok_upd_nh ok_upd_cb ok_upd_ch ok_free ok_with_logger ok_os_write ok_os_read ok_clocks ok_srp_channel_ops

section \<open>The operations keep an invariant\<close>

text \<open>Everything of a channel that is not part of its frame may change.\<close>

definition same_frame :: "channel \<Rightarrow> channel \<Rightarrow> bool" where
  "same_frame c c' \<longleftrightarrow> ch_pdu c' = ch_pdu c \<and> ch_payload c' = ch_payload c \<and> ch_payload_size c' = ch_payload_size c \<and> ch_sidw c' = ch_sidw c"

definition new_frame :: "addr \<Rightarrow> channel_attrs \<Rightarrow> channel" where
  "new_frame nh a = i_chan_avtpdu_init (a_stream_id a) ((zero_channel (unat (a_size a)))\<lparr>ch_nh := Some nh,
     ch_payload_size := a_size a, ch_full_size := full_size_of (a_size a), ch_stopping := False\<rparr>)"

locale channel_inv =
  fixes C :: "channel \<Rightarrow> bool" and F :: "tx_frame \<Rightarrow> bool"
  assumes config: "C c \<Longrightarrow> same_frame c c' \<Longrightarrow> C c'"
    and data: "C c \<Longrightarrow> unat (ch_payload_size c) \<le> length d \<Longrightarrow> C (updated ts d c)"
    and fresh: "i_valid_size (a_size a) \<Longrightarrow> C (new_frame nh a)"
    and stored: "C c \<Longrightarrow> length d = length (ch_payload c) \<Longrightarrow> C (c\<lparr>ch_payload := d\<rparr>)"
    and sent: "C c \<Longrightarrow> F (frame_of c t)"
begin

lemma config_ops:
  assumes "C c"
  shows "C (c\<lparr>ch_next := p\<rparr>)" "C (c\<lparr>ch_next := p, ch_nh := q\<rparr>)" "C (c\<lparr>ch_ready := b\<rparr>)" "C (c\<lparr>ch_stopping := b\<rparr>)" "C (c\<lparr>ch_tx_sock := fd\<rparr>)"
    "C (c\<lparr>ch_next_tx_ns := t\<rparr>)" "C (c\<lparr>ch_cbp := q\<rparr>)" "C (c\<lparr>ch_ops := ops\<rparr>)" "C (c\<lparr>ch_tx_sock_prio := pr, ch_ops := ops\<rparr>)"
    "C (c\<lparr>ch_tx_sock_prio := pr\<rparr>)" "C (c\<lparr>ch_txtime := tt\<rparr>)" "C (c\<lparr>ch_use_so_txtime := b\<rparr>)" "C (c\<lparr>ch_sk_addr := sa\<rparr>)"
    "C (c\<lparr>ch_fd_r := fd, ch_fd_w := fd'\<rparr>)" "C (c\<lparr>ch_nh := q\<rparr>)" "C (c\<lparr>ch_interval_ns := iv, ch_dst := dst\<rparr>)"
  by (rule config [OF assms], simp add: same_frame_def)+

lemma unlink_ok: "all_inv C F w \<Longrightarrow> ok1 C F (unlink_loop h r w)"
  by (rule ok_unlink_loop) (auto intro: config_ops)

lemmas op_intros = ok_rules unlink_ok config_ops

lemmas op_splits = option.split if_split prod.split

lemma remove_ok:
  "all_inv C F w \<Longrightarrow> ok1 C F (nh_remove_tx p w)" "all_inv C F w \<Longrightarrow> ok1 C F (nh_remove_rx p w)"
  by (auto simp: nh_remove_tx_def nh_remove_rx_def i_nh_unlink_ch_def simp del: upd_ch_Some intro!: op_intros split: op_splits)

lemma stop_ok: "all_inv C F w \<Longrightarrow> ok1 C F (chan_stop os p w)"
  by (auto simp: chan_stop_def Let_def simp del: upd_ch_Some intro!: op_intros split: op_splits)

lemma destroy_ok: "all_inv C F w \<Longrightarrow> ok0 C F (i_chan_destroy os ch u w)"
  by (auto simp: i_chan_destroy_def Let_def simp del: upd_ch_Some intro!: op_intros remove_ok stop_ok split: op_splits)

lemma chan_destroy_ok: "all_inv C F w \<Longrightarrow> ok1 C F (chan_destroy os p w)"
  by (auto simp: chan_destroy_def intro!: destroy_ok split: op_splits)

lemma add_ok: "all_inv C F w \<Longrightarrow> ok1 C F (nh_add_tx p q w)" "all_inv C F w \<Longrightarrow> ok1 C F (nh_add_rx p q w)"
  by (auto simp: nh_add_tx_def nh_add_rx_def simp del: upd_ch_Some intro!: op_intros split: op_splits)

lemma streamclass_ok: "i_chan_set_streamclass s sc iv c = Some c' \<Longrightarrow> C c \<Longrightarrow> C c'"
  by (auto simp: i_chan_set_streamclass_def Let_def same_frame_def split: stream_class.splits elim!: config)

lemma create_common_ok: "all_inv C F w \<Longrightarrow> ok1 C F (i_chan_create os p a w)"
  unfolding i_chan_create_def new_frame_def [symmetric] Let_def
  by (auto simp del: upd_ch_Some intro!: op_intros chan_destroy_ok all_inv_set_ch fresh dest!: streamclass_ok split: op_splits)

lemma sock_ok:
  "all_inv C F w \<Longrightarrow> ok1 C F (i_nc_create_tx_sock os ch w)" "all_inv C F w \<Longrightarrow> ok1 C F (nc_create_cbs_tx_sock os p w)"
  "all_inv C F w \<Longrightarrow> ok1 C F (nc_create_tas_tx_sock os p w)" "all_inv C F w \<Longrightarrow> ok1 C F (tx_sock_part os a ch w)"
proof -
  show 1: "all_inv C F w \<Longrightarrow> ok1 C F (i_nc_create_tx_sock os ch w)" for ch w
    by (auto simp: i_nc_create_tx_sock_def Let_def simp del: upd_ch_Some intro!: op_intros)
  show 2: "all_inv C F w \<Longrightarrow> ok1 C F (nc_create_cbs_tx_sock os p w)" for p w
    by (auto simp: nc_create_cbs_tx_sock_def simp del: upd_ch_Some intro!: op_intros 1 split: op_splits)
  show 3: "all_inv C F w \<Longrightarrow> ok1 C F (nc_create_tas_tx_sock os p w)" for p w
    by (auto simp: nc_create_tas_tx_sock_def Let_def simp del: upd_ch_Some intro!: op_intros 1 split: op_splits)
  show "all_inv C F w \<Longrightarrow> ok1 C F (tx_sock_part os a ch w)"
    by (auto simp: tx_sock_part_def simp del: upd_ch_Some intro!: op_intros 2 3 split: op_splits stream_class.split)
qed

lemma create_tx_ok: "all_inv C F w \<Longrightarrow> ok1 C F (chan_create_tx os p a w)"
  by (auto simp: chan_create_tx_def simp del: upd_ch_Some intro!: op_intros create_common_ok sock_ok add_ok chan_destroy_ok split: op_splits)

lemma reg_ok: "all_inv C F w \<Longrightarrow> ok1 C F (nh_reg_callback p sid q cb w)"
  by (auto simp: nh_reg_callback_def Let_def simp del: upd_ch_Some intro!: op_intros split: op_splits)

lemma create_rx_ok: "all_inv C F w \<Longrightarrow> ok1 C F (chan_create_rx os p a w)"
  by (auto simp: chan_create_rx_def rx_attach_def Let_def simp del: upd_ch_Some intro!: op_intros create_common_ok add_ok reg_ok chan_destroy_ok split: op_splits)

lemma update_ok: "all_inv C F w \<Longrightarrow> ok1 C F (chan_update p ts d w)"
  unfolding chan_update_def updated_def [symmetric]
  by (auto simp: not_less simp del: upd_ch_Some intro!: op_intros data split: op_splits)

lemma send_frame_inv: "all_inv C F w \<Longrightarrow> C c \<Longrightarrow> all_inv C F (snd (os_send_frame os c t w))"
  using sent [of c t] by (simp add: os_send_frame_def frame_of_def all_inv_def Let_def)

lemma sock_err_inv [simp]: "all_inv C F (snd (nc_handle_sock_err os s p w)) = all_inv C F w"
  by (simp add: nc_handle_sock_err_def Let_def split: option.split)

lemma delay_ok: "all_inv C F w \<Longrightarrow> ok1 C F (chan_delay os p t w)"
  by (auto simp: chan_delay_def read_clock_def read_ptp_def os_sleep_until_def Let_def simp del: upd_ch_Some intro!: op_intros split: op_splits)

lemma delay_loop_ok: "all_inv C F w \<Longrightarrow> ok0 C F (delay_loop os ch t w)"
proof -
  assume inv: "all_inv C F w"
  have "all_inv C F w \<longrightarrow> all_inv C F w'" if "delay_loop os ch t w = Some w'" for w'
  proof (rule delay_loop.raw_induct [OF _ that], intro impI)
    fix loop os ch t w w'
    assume IH: "\<And>os ch t w w'. loop os ch t w = Some w' \<Longrightarrow> all_inv C F w \<longrightarrow> all_inv C F w'"
      and step: "do { (e, w) \<leftarrow> chan_delay os (Some ch) t w; if e > 50 * NS_IN_US then loop os ch t w else Some w } = Some w'"
      and inv: "all_inv C F w"
    from step obtain e w1 where d: "chan_delay os (Some ch) t w = Some (e, w1)"
      "(if e > 50 * NS_IN_US then loop os ch t w1 else Some w1) = Some w'" by (auto simp: bind_Some_iff)
    have "all_inv C F w1" using delay_ok [OF inv, of os "Some ch" t] d(1) by (simp add: ok1_def)
    with d(2) IH show "all_inv C F w'" by (auto split: if_splits)
  qed
  with inv show ?thesis by (simp add: ok0_def)
qed

lemma C_at: "w_ch w a = Some c \<Longrightarrow> all_inv C F w \<Longrightarrow> C c"
  by (rule all_inv_at)

lemma send_at_ok:
  "all_inv C F w \<Longrightarrow> ok1 C F (i_tas_send_at os ch tx w)" "all_inv C F w \<Longrightarrow> ok1 C F (i_cbs_send_at os ch tx w)"
  by (auto simp: i_tas_send_at_def i_cbs_send_at_def Let_def split_beta simp del: upd_ch_Some intro!: op_intros send_frame_inv split: op_splits)
    (blast intro: C_at)+

lemma send_wait_ok:
  "all_inv C F w \<Longrightarrow> ok1 C F (i_tas_send_at_wait os ch tx w)" "all_inv C F w \<Longrightarrow> ok1 C F (i_cbs_send_at_wait os ch tx w)"
  by (auto simp: i_tas_send_at_wait_def i_cbs_send_at_wait_def Let_def split_beta simp del: upd_ch_Some intro!: op_intros send_at_ok delay_loop_ok split: op_splits)

lemma send_ok:
  "all_inv C F w \<Longrightarrow> ok1 C F (chan_send os p tx w)" "all_inv C F w \<Longrightarrow> ok1 C F (chan_send_now os p d w)"
  "all_inv C F w \<Longrightarrow> ok1 C F (chan_send_now_wait os p d w)"
  by (auto simp: chan_send_def chan_send_now_def chan_send_now_wait_def i_tas_send_now_def i_cbs_send_now_def i_tas_send_now_wait_def
      i_cbs_send_now_wait_def simp del: upd_ch_Some intro!: op_intros update_ok send_at_ok send_wait_ok split: op_splits chan_send_ops.split)

lemma srp_msg_inv [simp]:
  "all_inv C F (snd (nc_mrp_send_ready os s sid w)) = all_inv C F w" "all_inv C F (snd (nc_mrp_send_leave os s sid w)) = all_inv C F w"
  using listener_msg_only_mrp all_inv_only_mrp by (simp_all add: nc_mrp_send_ready_def nc_mrp_send_leave_def)

lemma notify_ok:
  "all_inv C F w \<Longrightarrow> ok1 C F (nh_notify_talker_Lnew p sid w)" "all_inv C F w \<Longrightarrow> ok1 C F (nh_notify_talker_Lleaving p sid w)"
  "all_inv C F w \<Longrightarrow> ok1 C F (nh_notify_listener_Tnew os p sid w)" "all_inv C F w \<Longrightarrow> ok1 C F (nh_notify_listener_Tleave os p sid w)"
  by (auto simp: nh_notify_talker_Lnew_def nh_notify_talker_Lleaving_def nh_notify_listener_Tnew_def nh_notify_listener_Tleave_def
      split_beta simp del: upd_ch_Some intro!: op_intros split: op_splits)

lemma std_cb_ok: "all_inv C F w \<Longrightarrow> ok1 C F (nh_std_cb os p du w)"
  by (auto simp: nh_std_cb_def Let_def simp del: upd_ch_Some intro!: op_intros split: op_splits)

lemma feed_ok:
  assumes "\<And>k p du w. all_inv C F w \<Longrightarrow> ok1 C F (ucb k p du w)"
  shows "all_inv C F w \<Longrightarrow> ok1 C F (nh_feed_pdu_ts os ucb p du rx ptp w)"
  by (auto simp: nh_feed_pdu_ts_def call_cb_def Let_def simp del: upd_ch_Some intro!: op_intros std_cb_ok assms split: op_splits callback.split)

lemma send_msg_inv [simp]: "all_inv C F (snd (i_send_msg os s d w)) = all_inv C F w"
  by (rule all_inv_only_mrp) simp

lemma srp_teardown_ok: "all_inv C F w \<Longrightarrow> ok0 C F (nc_srp_teardown os p w)"
  by (auto simp: nc_srp_teardown_def srp_leave_def upd_srp_def nc_mrp_leave_vlan_def nc_mrp_unregister_domain_class_a_def
      i_mrp_update_domain_def Let_def split_beta simp del: upd_ch_Some intro!: op_intros ok_bind_val [where 'a = srp] split: op_splits)

lemma destroy_list_inv:
  "destroy_tx os v w = Some w' \<Longrightarrow> all_inv C F w \<longrightarrow> all_inv C F w'" "destroy_rx os v w = Some w' \<Longrightarrow> all_inv C F w \<longrightarrow> all_inv C F w'"
proof -
  have step: "all_inv C F w'" if "all_inv C F w" "i_chan_destroy os ch False (w\<lparr>w_nh := nhs\<rparr>) = Some w'" for os ch nhs w w'
    using destroy_ok [of "w\<lparr>w_nh := nhs\<rparr>" os ch False] that by (simp add: ok0_def)
  show "destroy_tx os v w = Some w' \<Longrightarrow> all_inv C F w \<longrightarrow> all_inv C F w'"
    by (rule destroy_tx.raw_induct [where P = "\<lambda>os v w w'. all_inv C F w \<longrightarrow> all_inv C F w'"])
      (auto simp: bind_Some_iff split: option.splits, blast dest: step)
  show "destroy_rx os v w = Some w' \<Longrightarrow> all_inv C F w \<longrightarrow> all_inv C F w'"
    by (rule destroy_rx.raw_induct [where P = "\<lambda>os v w w'. all_inv C F w \<longrightarrow> all_inv C F w'"])
      (auto simp: bind_Some_iff split: option.splits, blast dest: step)
qed

lemma destroy_lists_ok: "all_inv C F w \<Longrightarrow> ok0 C F (destroy_tx os v w)" "all_inv C F w \<Longrightarrow> ok0 C F (destroy_rx os v w)"
  using destroy_list_inv by (auto simp: ok0_def)

lemma destroy_services_inv: "all_inv C F w \<Longrightarrow> ok0 C F (destroy_services os v w)"
  by (auto simp: destroy_services_def i_nh_stop_rx_def destroy_logger_def Let_def simp del: upd_ch_Some intro!: op_intros split: op_splits)

lemma nh_destroy_inv: "all_inv C F w \<Longrightarrow> ok0 C F (nh_destroy os v w)"
  by (auto simp: nh_destroy_def simp del: upd_ch_Some intro!: op_intros destroy_services_inv destroy_lists_ok srp_teardown_ok split: op_splits nh_var.split)

lemma read_ok:
  assumes "\<And>u. all_inv C F u \<Longrightarrow> ok0 C F (f u)"
  shows "all_inv C F w \<Longrightarrow> ok1 C F (i_chan_read os f p d delay w)"
  by (auto simp: i_chan_read_def read_record_def read_resume_def read_break_def Let_def simp del: upd_ch_Some intro!: op_intros nh_destroy_inv delay_ok
      assms split: op_splits)

text \<open>Waiting.\<close>

lemma wait_ok:
  "all_inv C F w \<Longrightarrow> ok1 C F (chan_ready_timedwait os p t w)" "all_inv C F w \<Longrightarrow> ok1 C F (wait_for_tx_slot os p w)"
  "all_inv C F w \<Longrightarrow> ok1 C F (chan_time_to_tx os p w)"
  by (auto simp: chan_ready_timedwait_def wait_for_tx_slot_def chan_time_to_tx_def Let_def simp del: upd_ch_Some
      intro!: op_intros ok_bind_val [where 'a = timespec] split: op_splits)

text \<open>The settings of a handler.\<close>

lemma settings_ok:
  "all_inv C F w \<Longrightarrow> ok0 C F (nh_set_verbose p b w)" "all_inv C F w \<Longrightarrow> ok0 C F (nh_enable_ftrace os p w)"
  "all_inv C F w \<Longrightarrow> ok0 C F (nh_set_trace_breakval os p k w)" "all_inv C F w \<Longrightarrow> ok1 C F (nh_set_tx_prio p sc k w)"
  "all_inv C F w \<Longrightarrow> ok0 C F (nh_rotate_logs os p w)"
proof -
  show ft: "all_inv C F w \<Longrightarrow> ok0 C F (nh_enable_ftrace os p w)" for p w
    by (auto simp: nh_enable_ftrace_def intro!: op_intros split: op_splits)
  show "all_inv C F w \<Longrightarrow> ok0 C F (nh_set_trace_breakval os p k w)"
    by (auto simp: nh_set_trace_breakval_def intro!: op_intros ft split: op_splits)
qed (auto simp: nh_set_verbose_def nh_set_tx_prio_def nh_rotate_logs_def intro!: op_intros split: op_splits)

text \<open>A new handler.\<close>

lemma create_nh_ok: "all_inv C F w \<Longrightarrow> ok1 C F (nh_create_init os ifname sz lf w)"
proof -
  have speed: "all_inv C F w \<Longrightarrow> ok1 C F (i_get_link_speed_Mbps os p w)" for p w
    by (auto simp: i_get_link_speed_Mbps_def Let_def split_beta intro!: op_intros split: op_splits)
  have net: "all_inv C F w \<Longrightarrow> ok1 C F (i_nh_net_setup os p q w)" for p q w
    by (auto simp: i_nh_net_setup_def Let_def split_beta intro!: op_intros speed split: op_splits)
  have rx: "all_inv C F w \<Longrightarrow> ok1 C F (i_nh_start_rx os nh w)" for nh w
    by (auto simp: i_nh_start_rx_def Let_def intro!: op_intros split: op_splits)
  have rt: "all_inv C F w \<Longrightarrow> ok1 C F (i_nh_enable_rt_measures os nh w)" for nh w
    by (auto simp: i_nh_enable_rt_measures_def Let_def intro!: op_intros split: op_splits)
  have up: "all_inv C F w \<Longrightarrow> ok1 C F (give_up os nh w)" for nh w
    by (auto simp: give_up_def intro!: nh_destroy_inv)
  have srp: "all_inv C F w \<Longrightarrow> ok1 C F (nc_srp_init os nh w)" for nh w
    by (auto simp: nc_srp_init_def intro!: op_intros)
  have "all_inv C F w \<Longrightarrow> ok1 C F (create_services os nh i lf w)" for nh i w
    by (auto simp: create_services_def Let_def split_beta intro!: op_intros srp up split: op_splits)
  then show "all_inv C F w \<Longrightarrow> ok1 C F (nh_create_init os ifname sz lf w)"
    by (auto simp: nh_create_init_def Let_def intro!: op_intros net rx rt up split: op_splits)
qed

text \<open>Stopping a handler.\<close>

lemma stop_walk_inv: "stop_walk os p w = Some w' \<Longrightarrow> all_inv C F w \<longrightarrow> all_inv C F w'"
proof (rule stop_walk.raw_induct [where P = "\<lambda>os p w w'. all_inv C F w \<longrightarrow> all_inv C F w'"], goal_cases)
  case (1 walk os p w w')
  have "all_inv C F u'" if "chan_stop os q u = Some (r, u')" "all_inv C F u" for q r u u' using stop_ok that by (simp add: ok1_def)
  with 1(2,3) show ?case by (auto simp: bind_Some_iff split: option.splits)
qed

lemma stop_nh_ok: "all_inv C F w \<Longrightarrow> ok0 C F (nh_stop os p w)"
proof -
  have "all_inv C F w \<Longrightarrow> ok0 C F (stop_walk os q w)" for q w using stop_walk_inv by (auto simp: ok0_def)
  then show "all_inv C F w \<Longrightarrow> ok0 C F (nh_stop os p w)" by (auto simp: nh_stop_def intro!: op_intros)
qed

text \<open>The receive thread.\<close>

lemma runner_round_inv:
  assumes "\<And>k p du w. all_inv C F w \<Longrightarrow> ok1 C F (ucb k p du w)" "nh_runner_round os ucb nh ev b w = Some (r, b', w')" "all_inv C F w"
  shows "all_inv C F w'"
proof -
  have "ok0 C F (map_option (\<lambda>(r, b, w). w) (nh_runner_round os ucb nh ev b w))"
    unfolding nh_runner_round_def Let_def
    by (auto simp: read_ptp_def map_option_bind comp_def simp del: upd_ch_Some intro!: op_intros feed_ok assms(1,3) split: op_splits)
  with assms(2) show ?thesis by (simp add: ok0_def)
qed

lemma runner_ok:
  assumes "\<And>k p du w. all_inv C F w \<Longrightarrow> ok1 C F (ucb k p du w)" "all_inv C F w"
  shows "ok0 C F (nh_runner os ucb p evs w)"
proof -
  have "ok0 C F (nh_runner_loop os ucb nh evs b w)" if "all_inv C F w" for nh b w
    using that
  proof (induction evs arbitrary: b w)
    case (Cons ev evs)
    have "all_inv C F w'" if "nh_runner_round os ucb nh ev b w = Some (r, b', w')" for r b' w'
      by (rule runner_round_inv [OF _ that Cons.prems]) (rule assms(1))
    with Cons.IH show ?case by (cases "nh_runner_round os ucb nh ev b w") auto
  qed simp
  with assms(2) show ?thesis by (auto simp: nh_runner_def intro!: op_intros split: op_splits)
qed

text \<open>The SRP threads.\<close>

lemma talker_line_inv: "talker_line buf len p k v w = Some (nk, v', w') \<Longrightarrow> all_inv C F w \<Longrightarrow> all_inv C F w'"
proof -
  have n: "all_inv C F u'" if "nh_notify_talker_Lnew p s u = Some (r, u') \<or> nh_notify_talker_Lleaving p s u = Some (r, u')" "all_inv C F u" for s r u u'
    using notify_ok(1,2) [OF that(2), of p s] that(1) by (auto simp: ok1_def)
  then show "talker_line buf len p k v w = Some (nk, v', w') \<Longrightarrow> all_inv C F w \<Longrightarrow> all_inv C F w'"
    by (auto simp: talker_line_def i_update_srp_fields_def bind_Some_iff split: if_splits)
qed

lemma talker_msg_ok: "all_inv C F w \<Longrightarrow> ok1 C F (nc_mrp_talker_process_msg buf len p w)"
proof -
  have "all_inv C F w \<Longrightarrow> ok1 C F (talker_lines buf len p k v w)" for k v
  proof (induction buf len p k v w rule: talker_lines.induct)
    case (1 buf len p k v w)
    show ?case
    proof (cases "talker_line buf len p k v w")
      case None
      then show ?thesis using 1(2) by (subst talker_lines.simps) simp
    next
      case (Some r)
      obtain nk v' w' where r: "r = (nk, v', w')" by (cases r)
      have "all_inv C F w'" using talker_line_inv Some r 1(2) by blast
      then show ?thesis using 1(1) [of "(nk, v', w')" nk "(v', w')" v' w'] 1(2) Some r
        by (subst talker_lines.simps) (auto split: option.split)
    qed
  qed
  then show "all_inv C F w \<Longrightarrow> ok1 C F (nc_mrp_talker_process_msg buf len p w)" by (simp add: nc_mrp_talker_process_msg_def)
qed

lemma listener_msg_ok: "all_inv C F w \<Longrightarrow> ok1 C F (nc_mrp_listener_process_msg os buf len p w)"
proof -
  have n: "all_inv C F u'" if "nh_notify_listener_Tnew os p s u = Some (r, u') \<or> nh_notify_listener_Tleave os p s u = Some (r, u')" "all_inv C F u" for s r u u'
    using notify_ok(3,4) [OF that(2), of os p s] that(1) by (auto simp: ok1_def)
  have part: "all_inv C F u'" if "listener_talker_part os buf len p u = Some (i, u')" "all_inv C F u" for i u u'
    using that n by (auto simp: listener_talker_part_def bind_Some_iff split: if_splits)
  show "all_inv C F w \<Longrightarrow> ok1 C F (nc_mrp_listener_process_msg os buf len p w)"
    using part by (auto simp: ok1_def nc_mrp_listener_process_msg_def i_update_srp_fields_def bind_Some_iff split: if_splits option.splits)
qed

lemma monitor_msg_ok: "all_inv C F w \<Longrightarrow> ok1 C F (monitor_msg os nh msg b w)"
  by (auto simp: monitor_msg_def Let_def intro!: op_intros talker_msg_ok listener_msg_ok)

lemma monitor_ok: "all_inv C F w \<Longrightarrow> ok0 C F (nc_srp_monitor os p evs w)"
proof -
  have "ok0 C F (nc_srp_monitor_loop os nh evs b w)" if "all_inv C F w" for nh b w
    using that by (induction evs arbitrary: b w) (auto intro!: op_intros monitor_msg_ok split: op_splits)
  then show "all_inv C F w \<Longrightarrow> ok0 C F (nc_srp_monitor os p evs w)" by (auto simp: nc_srp_monitor_def intro!: op_intros split: op_splits)
qed

lemma announce_walk_ok: "all_inv C F w \<Longrightarrow> ok0 C F (announce_walk os p w)"
proof -
  have "announce_walk os p w = Some w' \<Longrightarrow> all_inv C F w \<longrightarrow> all_inv C F w'" for w'
  proof (rule announce_walk.raw_induct [where P = "\<lambda>os p w w'. all_inv C F w \<longrightarrow> all_inv C F w'"], goal_cases)
    case (1 walk os p w w')
    have "all_inv C F u'" if "nc_srp_new_talker os q u = Some (r, u')" "all_inv C F u" for q r u u'
      using ok_srp_channel_ops(1) that by (simp add: ok1_def)
    with 1(2,3) show ?case by (fastforce simp: bind_Some_iff split: option.splits if_splits)
  qed
  then show "all_inv C F w \<Longrightarrow> ok0 C F (announce_walk os p w)" by (simp add: ok0_def)
qed

lemma announce_ok: "all_inv C F w \<Longrightarrow> ok0 C F (nc_srp_talker_announce os p stops w)"
proof -
  have "ok0 C F (announce_loop os nh stops ts w)" if "all_inv C F w" for nh ts w
    using that by (induction stops arbitrary: ts w) (auto simp: Let_def split_beta intro!: op_intros announce_walk_ok split: op_splits)
  then show "all_inv C F w \<Longrightarrow> ok0 C F (nc_srp_talker_announce os p stops w)"
    by (auto simp: nc_srp_talker_announce_def intro!: op_intros split: op_splits)
qed

text \<open>The switch to SRP, with the other threads at work while it waits for the domain.\<close>

lemma set_srp_ok:
  assumes others: "\<And>k u. all_inv C F u \<Longrightarrow> ok0 C F (others k u)" and "all_inv C F w"
  shows "ok0 C F (nh_set_srp os others p b w)"
proof -
  have r: "all_inv C F v" if "all_inv C F u" "rounds others i k u = Some v" for i k u v
    using that
  proof (induction k arbitrary: i u)
    case (Suc k)
    then obtain x where "others i u = Some x" "rounds others (Suc i) k x = Some v" by (auto simp: bind_Some_iff)
    with Suc.IH [of x "Suc i"] others [OF Suc.prems(1), of i] show ?case by (simp add: ok0_def)
  qed simp
  have wait: "all_inv C F u \<Longrightarrow> ok0 C F (get_domain_wait others nh k u)" for nh k u
    unfolding ok0_def get_domain_wait_iff using r by blast
  have dom: "all_inv C F u \<Longrightarrow> ok1 C F (nc_mrp_get_domain os others nh u)" for nh u
    by (auto simp: nc_mrp_get_domain_def Let_def split_beta intro!: op_intros wait split: op_splits)
  have err: "all_inv C F u \<Longrightarrow> ok1 C F (srp_err_out nh u)" for nh u
    by (auto simp: srp_err_out_def Let_def intro!: op_intros ok_bind_val [where 'a = srp])
  have upd: "all_inv C F u \<Longrightarrow> ok0 C F (upd_srp nh f u)" for nh f u
    by (auto simp: upd_srp_def intro!: op_intros ok_bind_val [where 'a = srp])
  have vlan: "all_inv C F u \<Longrightarrow> ok1 C F (nc_mrp_join_vlan os s u)" for s u
    by (auto simp: nc_mrp_join_vlan_def Let_def split_beta intro!: ok_bind_val [where 'a = srp])
  have join: "all_inv C F u \<Longrightarrow> ok1 C F (srp_join os others nh u)" for nh u
    by (auto simp: srp_join_def nc_mrp_register_domain_class_a_def i_mrp_update_domain_def Let_def split_beta intro!: op_intros dom err upd vlan split: op_splits)
  have "all_inv C F u \<Longrightarrow> ok1 C F (nc_srp_setup os others p u)" for u
    by (auto simp: nc_srp_setup_def Let_def intro!: op_intros err upd join split: op_splits)
  then show ?thesis using assms(2) by (auto simp: nh_set_srp_def intro!: op_intros split: op_splits)
qed

end

section \<open>Well-formed channels and frames\<close>

text \<open>
  The frame of a channel is complete: the payload has the advertised size, which is one the network can carry, and the header
  identifies the protocol and the channel's own stream.
\<close>

definition typed_chan :: "channel \<Rightarrow> bool" where
  "typed_chan c \<longleftrightarrow> length (ch_payload c) = unat (ch_payload_size c) \<and> i_valid_size (ch_payload_size c)
     \<and> p_subtype (ch_pdu c) = AVTP_SUBTYPE_NETCHAN \<and> p_stream_id (ch_pdu c) = htobe64 (ch_sidw c)"

definition typed_frame :: "tx_frame \<Rightarrow> bool" where
  "typed_frame f \<longleftrightarrow> (\<exists>pdu pl. fr_bytes f = pdu_bytes pdu @ pl \<and> p_subtype pdu = AVTP_SUBTYPE_NETCHAN
     \<and> 1 \<le> length pl \<and> length pl \<le> 1476)"

interpretation typed: channel_inv typed_chan typed_frame
proof unfold_locales
  show "typed_chan c \<Longrightarrow> same_frame c c' \<Longrightarrow> typed_chan c'" for c c' by (simp add: typed_chan_def same_frame_def)
  show "typed_chan c \<Longrightarrow> unat (ch_payload_size c) \<le> length d \<Longrightarrow> typed_chan (updated ts d c)" for c d ts
    by (simp add: typed_chan_def updated_def overwrite_def)
  show "i_valid_size (a_size a) \<Longrightarrow> typed_chan (new_frame nh a)" for a nh
    by (simp add: typed_chan_def new_frame_def i_chan_avtpdu_init_def zero_channel_def)
  show "typed_chan c \<Longrightarrow> length d = length (ch_payload c) \<Longrightarrow> typed_chan (c\<lparr>ch_payload := d\<rparr>)" for c d by (simp add: typed_chan_def)
  fix c t assume c: "typed_chan c"
  then have "1 \<le> unat (ch_payload_size c)" "unat (ch_payload_size c) \<le> 1476"
    unfolding typed_chan_def i_valid_size_iff uint_nat by linarith+
  with c show "typed_frame (frame_of c t)"
    unfolding typed_frame_def frame_of_def frame_bytes_def typed_chan_def
    by (intro exI [of _ "ch_pdu c"] exI [of _ "ch_payload c"]) simp
qed

section \<open>Steps\<close>

text \<open>
  The calls of the application and what the threads do.  Where a call blocks, the other threads act in between: they do any sequence of
  steps (\<open>others\<close>, the first argument of a read).  A callback of the application does any sequence of steps as well.  The threads have rules for
  single rounds, which interleave with everything else, and for whole runs.  A call that faults (\<open>None\<close>) has no step; a blocking send that kills the
  process after the frame has left is a step.
\<close>

inductive nc_step :: "os \<Rightarrow> world \<Rightarrow> world \<Rightarrow> bool" for os where
  create_nh: "nh_create_init os ifname sz lf w = Some (r, w') \<Longrightarrow> nc_step os w w'"
| set_srp: "(\<And>k u v. others k u = Some v \<Longrightarrow> (nc_step os)\<^sup>*\<^sup>* u v) \<Longrightarrow> nh_set_srp os others nh b w = Some w' \<Longrightarrow> nc_step os w w'"
| set_verbose: "nh_set_verbose nh b w = Some w' \<Longrightarrow> nc_step os w w'"
| enable_ftrace: "nh_enable_ftrace os nh w = Some w' \<Longrightarrow> nc_step os w w'"
| set_trace_breakval: "nh_set_trace_breakval os nh us w = Some w' \<Longrightarrow> nc_step os w w'"
| set_tx_prio: "nh_set_tx_prio nh sc prio w = Some (r, w') \<Longrightarrow> nc_step os w w'"
| rotate_logs: "nh_rotate_logs os nh w = Some w' \<Longrightarrow> nc_step os w w'"
| reg_callback: "nh_reg_callback nh sid priv cb w = Some (r, w') \<Longrightarrow> nc_step os w w'"
| add_tx: "nh_add_tx nh ch w = Some (r, w') \<Longrightarrow> nc_step os w w'"
| add_rx: "nh_add_rx nh ch w = Some (r, w') \<Longrightarrow> nc_step os w w'"
| remove_tx: "nh_remove_tx ch w = Some (r, w') \<Longrightarrow> nc_step os w w'"
| remove_rx: "nh_remove_rx ch w = Some (r, w') \<Longrightarrow> nc_step os w w'"
| stop_nh: "nh_stop os nh w = Some w' \<Longrightarrow> nc_step os w w'"
| destroy_nh: "nh_destroy os v w = Some w' \<Longrightarrow> nc_step os w w'"
| create_tx: "chan_create_tx os nh a w = Some (r, w') \<Longrightarrow> nc_step os w w'"
| create_rx: "chan_create_rx os nh a w = Some (r, w') \<Longrightarrow> nc_step os w w'"
| tas_sock: "nc_create_tas_tx_sock os ch w = Some (r, w') \<Longrightarrow> nc_step os w w'"
| cbs_sock: "nc_create_cbs_tx_sock os ch w = Some (r, w') \<Longrightarrow> nc_step os w w'"
| rx_sock: "nc_create_rx_sock os ifname w = (r, w') \<Longrightarrow> nc_step os w w'"
| sock_err: "nc_handle_sock_err os sock ptp w = (r, w') \<Longrightarrow> nc_step os w w'"
| update: "chan_update ch ts d w = Some (r, w') \<Longrightarrow> nc_step os w w'"
| store: "chan_get_payload w (Some a) = Some (Some old) \<Longrightarrow> length d = length old \<Longrightarrow> upd_ch a (\<lambda>c. c\<lparr>ch_payload := d\<rparr>) w = Some w' \<Longrightarrow> nc_step os w w'"
| send: "chan_send os ch tx w = Some (r, w') \<Longrightarrow> nc_step os w w'"
| send_now: "chan_send_now os ch d w = Some (r, w') \<Longrightarrow> nc_step os w w'"
| send_now_wait: "chan_send_now_wait os ch d w = Some (out, w') \<Longrightarrow> nc_step os w w'"
| tas_send_at_wait: "i_tas_send_at_wait os a tx w = Some (out', w') \<Longrightarrow> nc_step os w w'"
| cbs_send_at_wait: "i_cbs_send_at_wait os a tx w = Some (out', w') \<Longrightarrow> nc_step os w w'"
| read: "(\<And>u v. f u = Some v \<Longrightarrow> (nc_step os)\<^sup>*\<^sup>* u v) \<Longrightarrow> i_chan_read os f ch d delay w = Some (r, w') \<Longrightarrow> nc_step os w w'"
| ready_timedwait: "chan_ready_timedwait os ch t w = Some (r, w') \<Longrightarrow> nc_step os w w'"
| tx_slot: "wait_for_tx_slot os ch w = Some (r, w') \<Longrightarrow> nc_step os w w'"
| time_to_tx: "chan_time_to_tx os ch w = Some (r, w') \<Longrightarrow> nc_step os w w'"
| delay: "chan_delay os ch t w = Some (r, w') \<Longrightarrow> nc_step os w w'"
| stop: "chan_stop os ch w = Some (r, w') \<Longrightarrow> nc_step os w w'"
| destroy: "chan_destroy os ch w = Some (r, w') \<Longrightarrow> nc_step os w w'"
| listener_new: "nh_notify_talker_Lnew nh sid w = Some (r, w') \<Longrightarrow> nc_step os w w'"
| listener_left: "nh_notify_talker_Lleaving nh sid w = Some (r, w') \<Longrightarrow> nc_step os w w'"
| talker_new: "nh_notify_listener_Tnew os nh sid w = Some (r, w') \<Longrightarrow> nc_step os w w'"
| talker_left: "nh_notify_listener_Tleave os nh sid w = Some (r, w') \<Longrightarrow> nc_step os w w'"
| std_cb: "nh_std_cb os p d w = Some (r, w') \<Longrightarrow> nc_step os w w'"
| feed: "(\<And>k p du u r v. ucb k p du u = Some (r, v) \<Longrightarrow> (nc_step os)\<^sup>*\<^sup>* u v) \<Longrightarrow>
    nh_feed_pdu os ucb nh d w = Some (r, w') \<Longrightarrow> nc_step os w w'"
| feed_ts: "(\<And>k p du u r v. ucb k p du u = Some (r, v) \<Longrightarrow> (nc_step os)\<^sup>*\<^sup>* u v) \<Longrightarrow>
    nh_feed_pdu_ts os ucb nh d rx ptp w = Some (r, w') \<Longrightarrow> nc_step os w w'"
| receive: "(\<And>k p du u r v. ucb k p du u = Some (r, v) \<Longrightarrow> (nc_step os)\<^sup>*\<^sup>* u v) \<Longrightarrow>
    nh_runner_round os ucb a ev buf w = Some (running, buf', w') \<Longrightarrow> nc_step os w w'"
| runner: "(\<And>k p du u r v. ucb k p du u = Some (r, v) \<Longrightarrow> (nc_step os)\<^sup>*\<^sup>* u v) \<Longrightarrow>
    nh_runner os ucb nh evs w = Some w' \<Longrightarrow> nc_step os w w'"
| srp_msg: "monitor_msg os a msg buffer w = Some (buffer', w') \<Longrightarrow> nc_step os w w'"
| srp_monitor: "nc_srp_monitor os nh mevs w = Some w' \<Longrightarrow> nc_step os w w'"
| announce: "announce_walk os ch w = Some w' \<Longrightarrow> nc_step os w w'"
| announcer: "nc_srp_talker_announce os nh stops w = Some w' \<Longrightarrow> nc_step os w w'"

text \<open>Every step keeps an invariant.\<close>

context channel_inv
begin

lemma ok_result: "m = Some (r, w') \<Longrightarrow> ok1 C F m \<Longrightarrow> all_inv C F w'" "m' = Some w' \<Longrightarrow> ok0 C F m' \<Longrightarrow> all_inv C F w'"
  by (simp_all add: ok1_def ok0_def)

lemma steps_inv: "(\<lambda>u v. S u v \<and> (all_inv C F u \<longrightarrow> all_inv C F v))\<^sup>*\<^sup>* u v \<Longrightarrow> all_inv C F u \<Longrightarrow> all_inv C F v"
  by (induction rule: rtranclp_induct) auto

lemma callback_ok:
  "(\<And>k p du u r v. ucb k p du u = Some (r, v) \<Longrightarrow> (\<lambda>u v. S u v \<and> (all_inv C F u \<longrightarrow> all_inv C F v))\<^sup>*\<^sup>* u v) \<Longrightarrow> all_inv C F u \<Longrightarrow> ok1 C F (ucb k p du u)"
  unfolding ok1_def using steps_inv by blast

lemma step_inv: "nc_step os w w' \<Longrightarrow> all_inv C F w \<longrightarrow> all_inv C F w'"
proof (induction rule: nc_step.induct)
  case (set_srp others nh b w w')
  then have "ok0 C F (others k u)" if "all_inv C F u" for k u unfolding ok0_def using steps_inv that by blast
  then show ?case using set_srp_ok ok_result(2) [OF set_srp(2)] by blast
next
  case (read f ch d delay w r w')
  then have "ok0 C F (f u)" if "all_inv C F u" for u unfolding ok0_def using steps_inv that by blast
  then show ?case using read_ok ok_result(1) [OF read(2)] by blast
next
  case (feed ucb nh d w r w')
  have "ok1 C F (ucb k p du u)" if "all_inv C F u" for k p du u by (rule callback_ok [where S = "nc_step os", OF feed(1) that])
  then show ?case using feed_ok ok_result(1) [OF feed(2) [unfolded nh_feed_pdu_def]] by blast
next
  case (feed_ts ucb nh d rx ptp w r w')
  have "ok1 C F (ucb k p du u)" if "all_inv C F u" for k p du u by (rule callback_ok [where S = "nc_step os", OF feed_ts(1) that])
  then show ?case using feed_ok ok_result(1) [OF feed_ts(2)] by blast
next
  case (receive ucb a ev buf w running buf' w')
  have "ok1 C F (ucb k p du u)" if "all_inv C F u" for k p du u by (rule callback_ok [where S = "nc_step os", OF receive(1) that])
  then show ?case using runner_round_inv [OF _ receive(2)] by blast
next
  case (runner ucb nh evs w w')
  have "ok1 C F (ucb k p du u)" if "all_inv C F u" for k p du u by (rule callback_ok [where S = "nc_step os", OF runner(1) that])
  then show ?case using runner_ok ok_result(2) [OF runner(2)] by blast
next
  case (rx_sock ifname w r w')
  then show ?case using all_inv_setup(3) [of C F os ifname w] by simp
next
  case (sock_err sock ptp w r w')
  then show ?case using sock_err_inv [of os sock ptp w] by simp
next
  case (store w a old d w')
  then have "ok0 C F (upd_ch a (\<lambda>c. c\<lparr>ch_payload := d\<rparr>) w)" if "all_inv C F w"
    by (intro ok_upd_ch that stored) (auto simp: chan_get_payload_def split: if_splits)
  then show ?case using ok_result(2) [OF store(3)] by blast
qed (rule impI, erule ok_result, (erule create_nh_ok settings_ok reg_ok add_ok remove_ok stop_nh_ok nh_destroy_inv create_tx_ok create_rx_ok sock_ok update_ok
    send_ok send_wait_ok wait_ok delay_ok stop_ok chan_destroy_ok notify_ok std_cb_ok monitor_msg_ok monitor_ok announce_walk_ok announce_ok))+

lemma reachable_inv:
  assumes "(nc_step os)\<^sup>*\<^sup>* w w'" "all_inv C F w"
  shows "all_inv C F w'"
  using assms by (induction rule: rtranclp_induct) (blast dest: step_inv)+

end

section \<open>Properties\<close>

text \<open>C2: Type soundness.  Start a process with no channels and nothing sent.  After any sequence of the library's operations (every function of \<^verbatim>\<open>netchan.h\<close> that
  changes the state; the standalone interface calls these), of rounds of the receive thread, the SRP monitor and the announcer, of callbacks of the application and of its stores through the payload pointer,
  also while a read or the switch to SRP blocks, every channel
  has a payload of exactly its advertised size (1 to 1476 bytes) and a header with the protocol's subtype and the
  channel's own stream id, and every frame that was ever handed to the kernel is a header of the protocol followed by 1 to
  1476 bytes of payload.\<close>

theorem reachable_frames_typed:
  assumes "(nc_step os)\<^sup>*\<^sup>* w0 w" "w_ch w0 = Map.empty" "w_net w0 = []"
  shows "(\<forall>a c. w_ch w a = Some c \<longrightarrow> typed_chan c) \<and> (\<forall>f \<in> set (w_net w). typed_frame f)"
proof -
  have "all_inv typed_chan typed_frame w0" using assms(2,3) by (simp add: all_inv_def)
  then have "all_inv typed_chan typed_frame w" by (rule typed.reachable_inv [OF assms(1)])
  then show ?thesis unfolding all_inv_def .
qed

text \<open>A talker is created in the idle handler and sends one sample.\<close>

theorem reachable_frames_typed_witness:
  "\<exists>w ch c f. (nc_step demo_os)\<^sup>*\<^sup>* idle_world w \<and> w_ch w ch = Some c \<and> typed_chan c \<and> f \<in> set (w_net w) \<and> typed_frame f"
proof -
  obtain ch w1 c h where r: "chan_create_tx demo_os (Some 1) (Some demo_attrs) idle_world = Some (Some ch, w1)" "w_ch w1 ch = Some c" "ch_nh c = Some 1"
    "w_nh w1 = (w_nh idle_world)(1 \<mapsto> idle_nh\<lparr>nh_tx_head := h, nh_tx_tail := Some ch\<rparr>)" "valid_state c idle_nh" "new_talker demo_os demo_attrs c"
    using chan_create_tx_new [OF idle_nh_at(1-4) demo_os_good idle_nh_at(5,6,8) demo_attrs_admitted(1,4,2,3)] by blast
  let ?n = "idle_nh\<lparr>nh_tx_head := h, nh_tx_tail := Some ch\<rparr>" and ?d = "replicate 8 1 :: bytes"
  have l: "live w1 ch c 1 ?n" "valid_state c ?n" using r(2-5) by (simp_all add: live_def valid_state_def)
  have c: "payload_ok c" "unat (ch_payload_size c) = 8" "ch_ops c = Some tas_ops" "paced (Suc 0) c"
    using r(6) by (auto simp: new_talker_def demo_attrs_def paced_def uint_ts_u64)
  have "sendable demo_os (Suc 0) c ?n"
    using c(1) demo_sendable(1) [of "Suc 0"] by (simp add: sendable_def logger_room_def idle_nh_def zero_nethandler_def)
  with l c have "talker demo_os (Suc 0) w1 ch (p_stream_id (ch_pdu c)) 8" by (auto simp: talker_def)
  then obtain w2 f where s: "chan_send_now demo_os (Some ch) (Some ?d) w1 = Some (8, w2)" "w_net w2 = w_net w1 @ [f]"
    "talker demo_os 0 w2 ch (p_stream_id (ch_pdu c)) 8" using chan_send_now_next [of demo_os 0 w1 ch "p_stream_id (ch_pdu c)" 8 ?d] by auto
  then obtain c2 where "w_ch w2 ch = Some c2" by (auto simp: talker_def live_def)
  moreover have "(nc_step demo_os)\<^sup>*\<^sup>* idle_world w2"
    by (rule converse_rtranclp_into_rtranclp [OF nc_step.create_tx [OF r(1)] r_into_rtranclp [of "nc_step demo_os", OF nc_step.send_now [OF s(1)]]])
  moreover have "w_ch idle_world = Map.empty" "w_net idle_world = []" by (simp_all add: idle_world_def empty_world_def)
  moreover have "f \<in> set (w_net w2)" using s(2) by simp
  ultimately show ?thesis using reachable_frames_typed [of demo_os idle_world w2] by blast
qed

text \<open>C35: A stopped talker comes back.  \<open>chan_stop\<close> makes a talker invalid, but when the SRP monitor then still
  processes a report of a listener of its stream, the channel, still marked as stopping, is valid again.\<close>

theorem stopped_talker_revived:
  assumes "live w ch c nh n" "valid_state c n" "\<not> ch_stopping c" "can_write os w (ch_fd_w c) (unat (ch_payload_size c))"
    and "tx_chans w nh xs tp" "find (\<lambda>x. map_option ch_sidw (w_ch w x) = Some (ch_sidw c)) xs = Some ch"
  shows "\<exists>w1 w2 c2. chan_stop os (Some ch) w = Some (True, w1) \<and> chan_valid w1 (Some ch) = Some False
    \<and> nh_notify_talker_Lnew (Some nh) (ch_sidw c) w1 = Some (True, w2)
    \<and> w_ch w2 ch = Some c2 \<and> ch_stopping c2 \<and> chan_valid w2 (Some ch) = Some True"
proof -
  obtain w1 where s: "chan_stop os (Some ch) w = Some (True, w1)" "w_ch w1 = (w_ch w)(ch \<mapsto> stopped c)" "w_nh w1 = w_nh w"
    using chan_stop_first [OF assms(1,3,4)] by blast
  have l: "w_ch w ch = Some c" "ch_nh c = Some nh" "w_nh w nh = Some n" using assms(1) by (simp_all add: live_def)
  have ch: "chain (w_ch w) (nh_tx_head n) xs" using assms(5) l(3) by (simp add: tx_chans_def)
  have ch1: "chain (w_ch w1) (nh_tx_head n) xs" using chain_cong [of xs "w_ch w1" "w_ch w" "nh_tx_head n"] ch s(2) l(1) by auto
  have "map_option ch_sidw (w_ch w1 x) = map_option ch_sidw (w_ch w x)" for x using s(2) l(1) by simp
  then have "get_tx_chan_from_sid w1 (Some nh) (ch_sidw c) = Some (Some ch)"
    using find_sid_loop_chain [of w1 _ xs "ch_sidw c"] ch1 assms(6) l(3) s(3)
    by (cases xs) (auto simp: get_tx_chan_from_sid_def get_nh_def)
  then have n: "nh_notify_talker_Lnew (Some nh) (ch_sidw c) w1 = Some (True, set_ch ch ((stopped c)\<lparr>ch_ready := True\<rparr>) w1)"
    using s(2) by (simp add: nh_notify_talker_Lnew_def)
  have "live (set_ch ch ((stopped c)\<lparr>ch_ready := True\<rparr>) w1) ch ((stopped c)\<lparr>ch_ready := True\<rparr>) nh n"
    using l s(3) by (simp add: live_def)
  from chan_valid_live [OF this] assms(2)
  have "chan_valid (set_ch ch ((stopped c)\<lparr>ch_ready := True\<rparr>) w1) (Some ch) = Some True" by (simp add: valid_state_def stopped_def)
  with n s chan_valid_stopped [of w1 ch c] show ?thesis by auto
qed

theorem stopped_talker_revived_witness:
  "\<exists>w1 w2. chan_stop demo_os (Some 2) demo_world = Some (True, w1) \<and> nh_notify_talker_Lnew (Some 1) 42 w1 = Some (True, w2)
    \<and> chan_valid w2 (Some 2) = Some True"
proof -
  have "w_ch demo_world 2 = Some demo_tx" "ch_sidw demo_tx = 42" by (simp_all add: demo_world_def demo_tx_def)
  then show ?thesis
    using stopped_talker_revived [OF demo_live(1) demo_valid(1) _ demo_can_write demo_handler(2)] by (auto simp: demo_fields)
qed

end
