(* ===== verification/Spec2Isabelle.thy ===== *)
theory Spec2Isabelle
  imports Ex_Programs Manychan Ex_Cpp Diagnostics Lifecycle
begin

text \<open>
  NetChan: reliable, time-sensitive network channels over Ethernet (TSN/AVB).

  \<^bold>\<open>The program.\<close>  A process opens a \<^emph>\<open>nethandler\<close> on a network interface and creates \<^emph>\<open>channels\<close> on it: talkers,
  which send samples of a fixed size and period, and listeners, which receive them.  A talker has a socket with one of two traffic
  shapers, time-aware (TAS) or credit-based (CBS).  A thread of the handler receives all frames of the interface, finds the channel of a
  frame by its stream id in a hashmap, and writes the payload with its timestamps to a pipe, from which the
  listening application reads, at once or delayed until the presentation time.  With the stream reservation
  protocol (SRP), two more threads exchange messages with the MRP daemon: talkers are announced until a listener has reported, and
  channels become ready or wait as their peers come and go.  A logger records frames and wakeups and writes them as CSV.
  Around this core are an interface for simple applications (one handler per process, a manifest of
  channels, a command line), a C++ wrapper, and example programs: talkers and listeners in C and C++, and a tester that connects an
  ensemble of agents as a mesh.

  \<^bold>\<open>The model.\<close>  A C struct is a record, one heap per struct type maps addresses to objects, and a \<open>world\<close> holds the
  heaps and what the process shares with the system: descriptors, pipes, frames sent, messages to the daemon, files written, sleeps
  (theory World).  The system itself is a parameter, a record \<open>os\<close> of functions that give the outcome of each call; \<open>w_tick\<close> counts
  the calls, so that two calls may differ.  The hypotheses of a property name what it needs of the system
  (\<open>os_good\<close>, \<open>clock_ok\<close>, \<open>accepts_frames\<close>, \<open>unbounded_pipes\<close>).  An operation returns \<open>None\<close> where the code dereferences NULL, a
  freed object or memory out of bounds, where it blocks forever, and where it loops forever; error codes are values.  The blocking sends return an
  \<open>outcome\<close> instead, because a frame has left when they fault.
  Integers whose width matters are words, others \<open>int\<close> with the conversions written out.  A static
  function \<^verbatim>\<open>_f\<close> of the code is \<open>i_f\<close>; record fields have a prefix (\<open>ch_\<close>, \<open>nh_\<close>, \<open>cb_\<close>, \<open>p_\<close>, \<open>m_\<close>, \<open>a_\<close>, \<open>srp_\<close>, \<open>sa_\<close>, \<open>s_\<close>, \<open>mc_\<close>); a
  \<^verbatim>\<open>main\<close> has the name of its program, and its loops have names of their own; all
  other names are those of the code.  Where an operation waits for other threads, what they do meanwhile is an argument (\<open>others\<close>).

  \<^bold>\<open>The theories\<close>, in the order of their imports, with the code they model (under \<^verbatim>\<open>src/\<close>) and what they show:

  \<^item> Prelude: byte order, C strings, byte buffers, \<open>option\<close> lemmas.
  \<^item> Timeutil (\<^verbatim>\<open>include/netchan_utils.h\<close>, \<^verbatim>\<open>src/ptp_getclock.c\<close>): arithmetic on \<^verbatim>\<open>timespec\<close>, clock readings.  The locale
    \<open>ns_clock\<close> is the contract of a time type with exact addition and subtraction.
  \<^item> Manifest (\<^verbatim>\<open>include/netchan.h\<close>, \<^verbatim>\<open>src/netchan.c\<close>): stream classes, attributes, lookup by name (equal to a search for the first
    match), and the admission tests for size and bandwidth.
  \<^item> Periodic_Timer (\<^verbatim>\<open>src/netchan_utils.c\<close>): timers without drift.
  \<^item> Pdu (\<^verbatim>\<open>include/netchan.h\<close>): the AVTP header and the header of a pipe record as bytes, both ways (locale \<open>fixed_codec\<close>): the code
    casts packed structs, so these functions are the layout of a struct in memory.
  \<^item> Cprintf, Sscanf: the conversions of \<^verbatim>\<open>printf\<close> and \<^verbatim>\<open>sscanf\<close> in use, and that numbers are read back.
  \<^item> Logger (\<^verbatim>\<open>src/logger.c\<close>): buffers, mutex, CSV files; nothing is lost or reordered before the buffer is full
    (locale \<open>bounded_sink\<close>, interpreted for both logs), and what happens then.
  \<^item> Callback_Map (\<^verbatim>\<open>src/netchan.c\<close>): open addressing with linear probing, a refinement of a finite map in which the
    first registration of a key stays (locale \<open>callback_table\<close>).
  \<^item> World, Chan_List: structs, heaps and system calls; the intrusive Tx and Rx lists as an implementation of a registry of channels
    (locales \<open>channel_registry\<close> and \<open>linked_list\<close>, the second a sublocale of the first).
  \<^item> Srp_Messages (\<^verbatim>\<open>src/netchan_srp_helper.c\<close>, \<^verbatim>\<open>src/netchan_srp_client.c\<close>): the messages sent to the daemon.
  \<^item> Channel (\<^verbatim>\<open>src/netchan.c\<close>): validity, update, stop, destruction, waiting for a slot or a PTP time.
  \<^item> Sockets (\<^verbatim>\<open>src/netchan_socket.c\<close>): Tx sockets and the send operations of both shapers.  The locale \<open>chan_sender\<close> is what a table of send
    operations promises; it is interpreted for TAS and for CBS.
  \<^item> Rx_Path (\<^verbatim>\<open>src/netchan.c\<close>): registration, the standard callback, dispatch, the receive thread on any sequence of receptions.
  \<^item> Chan_Create (\<^verbatim>\<open>src/netchan.c\<close>): the constructors of channels with every failure path; what a returned channel satisfies, and the bytes of its
    frame after any number of updates.
  \<^item> Srp_Monitor (\<^verbatim>\<open>src/netchan_srp_client.c\<close>, \<^verbatim>\<open>src/netchan_srp_helper.c\<close>): the parsers of the daemon's messages on the raw buffer, the
    notifications, monitor and announcer threads.
  \<^item> Srp_Client: set-up and teardown of SRP, the wait for the domain.
  \<^item> Nethandler, Nh_Setup (\<^verbatim>\<open>src/netchan.c\<close>): creation, configuration, stop, destruction; everything a handler owns is released (locale
    \<open>list_teardown\<close>, for both lists), and creation always returns a running handler or nothing.
  \<^item> Chan_Read (\<^verbatim>\<open>src/netchan.c\<close>): blocking reads, capture time, delay, trace break, interference with the receive thread.
  \<^item> Delivery: sender, receive thread and reader together (locale \<open>chan_stream\<close>, an extension of \<open>chan_sender\<close>): the samples sent are the samples read.
  \<^item> Lifecycle: a step relation with a rule for every operation of \<^verbatim>\<open>netchan.h\<close> that changes the state, for the rounds and the whole runs of the threads, and
    for what the application does in callbacks and through the payload pointer (calls that block, and callbacks, contain sequences of steps); invariants of channels and frames over it (locale
    \<open>channel_inv\<close>), and the types of all frames that leave.
  \<^item> Standalone (\<^verbatim>\<open>src/netchan_standalone.c\<close>, \<^verbatim>\<open>src/netchan_args.c\<close>): settings, command line, the handler of the process, channels by name.
  \<^item> Cpp_Wrapper (\<^verbatim>\<open>include/netchan.hpp\<close>): the classes and their member functions.
  \<^item> Diagnostics (\<^verbatim>\<open>src/tracebuffer.c\<close>, \<^verbatim>\<open>src/terminal.c\<close>, \<^verbatim>\<open>src/netchan.c\<close>): the kernel tracer as a sequence of writes (tracing is on exactly while
    the marker file is open), messages (no part overruns the buffer), listings (every channel once, in the order of the lists).
  \<^item> Ex_Manifest (\<^verbatim>\<open>examples/manifest.h\<close>): the sample of the examples and its bytes (an instance of \<open>fixed_codec\<close>), their channels, and which links
    admit them.
  \<^item> Ex_Programs (\<^verbatim>\<open>examples/talker.c\<close>, \<^verbatim>\<open>listener.c\<close>, \<^verbatim>\<open>send_at_talker.c\<close>, \<^verbatim>\<open>send_at_recv.c\<close>, \<^verbatim>\<open>invalid_talker.c\<close>): the programs; what the
    talker sends is what the listener reads until it stops.
  \<^item> Manychan (\<^verbatim>\<open>examples/manychan.c\<close>): settings, ids of the mesh, creation of the talkers, the ready signals, the frames of a capture, and where the program hangs.
  \<^item> Ex_Cpp (\<^verbatim>\<open>examples/talker.cpp\<close>, \<^verbatim>\<open>examples/listener.cpp\<close>): the programs and their counts.

  \<^bold>\<open>Properties.\<close>  The claims C1 to C40 are in the theories of the components they are about; those that span components are in
  Delivery (a sequence of samples arrives complete and in order), Lifecycle (all reachable channels and frames are
  well-formed), Nethandler and Nh_Setup (resources), Standalone and Cpp_Wrapper (from the command line or a constructor to a
  working channel), Ex_Programs and Manychan (whole programs on top of the library).  Properties of kind error state what the code does where it fails: a deadlock, a fault, a lost frame.

  \<^bold>\<open>Loops.\<close>  Loops over data are \<open>fun\<close> or \<open>function\<close> with a termination proof.  Loops that may run forever are
  \<open>partial_function (option)\<close>, without fuel: that they return, or do not, is proved (\<open>tas_send_terminates_iff\<close>,
  \<open>get_domain_waits_for_answer\<close>, \<open>ready_wait_outcome\<close>, and the walks over well-formed lists).  The loops of the threads consume a list of
  events (receptions, messages, rounds), of any length.  Probing the hashmap takes at most \<^verbatim>\<open>hmap_sz\<close> steps, as in the code.

  \<^bold>\<open>Bounds.\<close>  Times are assumed below \<open>2 ^ 62\<close> ns after the epoch (year 2116), so that sums with a period below an hour do not wrap in
  64 bits; \<open>tas_send_terminates_iff\<close> says what happens beyond.  Floating point is used in the code in three places: two are exact or
  decided exactly (the reasons are with the definitions), and the receive timestamp is modelled with its rounding.

  \<^bold>\<open>Not modelled.\<close>  The text of most output: the other theories leave out the calls of Diagnostics, and a listing or dump is modelled by the values it
  prints, because the numbers are formatted from floating point; \<^verbatim>\<open>print_conf\<close> of the mesh tester.  Interleavings inside an operation other than
  at the points where it blocks and between the two steps of the standard callback; the mutexes of channels, which the code takes only
  around single operations; \<^verbatim>\<open>argp\<close> and boost, which call or fill what is modelled here; the tests, which
  exercise the library through the vendored Unity framework.
\<close>

end
